(* ===== verification/Prelude.thy ===== *)
theory Prelude
  imports Main "HOL-Library.Word" "HOL-Library.AList" "HOL-Library.List_Lexorder"
begin

text \<open>
  Shared vocabulary of the development: fixed-width integers, byte strings, the outcome of a Go
  call (a value, an error value, a panic, or a loop that never returns), Go maps that are
  iterated (association lists with distinct keys), and big-endian byte strings read as numbers.
  The collection \<open>go_simps\<close> unfolds the sequencing of calls and \<open>alist_simps\<close> the map operations.
\<close>

named_theorems go_simps
named_theorems alist_simps

unbundle bit_operations_syntax

type_synonym u8 = "8 word"
type_synonym u32 = "32 word"
type_synonym u64 = "64 word"
type_synonym bytes = "u8 list"

section \<open>Outcomes of Go calls\<close>

text \<open>
  \<open>Ok\<close> is a normal return, \<open>Err\<close> a non-nil error result, \<open>Panic\<close> a panic with its message and
  \<open>Diverge\<close> a loop that never leaves its body.
\<close>

datatype ('e, 'a) go = Ok 'a | Err 'e | Panic string | Diverge

fun go_bind :: "('e, 'a) go \<Rightarrow> ('a \<Rightarrow> ('e, 'b) go) \<Rightarrow> ('e, 'b) go" where
  "go_bind (Ok x) f = f x"
| "go_bind (Err e) f = Err e"
| "go_bind (Panic m) f = Panic m"
| "go_bind Diverge f = Diverge"

text \<open>A panic unless a condition holds, and the value of an optional lookup or a panic.\<close>

definition go_assert :: "bool \<Rightarrow> string \<Rightarrow> ('e, unit) go" where
  "go_assert b m = (if b then Ok () else Panic m)"

definition go_some :: "'a option \<Rightarrow> string \<Rightarrow> ('e, 'a) go" where
  "go_some x m = (case x of Some y \<Rightarrow> Ok y | None \<Rightarrow> Panic m)"

definition go_guard :: "bool \<Rightarrow> 'e \<Rightarrow> ('e, unit) go" where
  "go_guard b e = (if b then Ok () else Err e)"

lemma go_bind_eq_Ok [go_simps]: "go_bind m f = Ok y \<longleftrightarrow> (\<exists>x. m = Ok x \<and> f x = Ok y)"
  by (cases m) auto

lemma go_bind_assoc: "go_bind (go_bind m f) g = go_bind m (\<lambda>x. go_bind (f x) g)"
  by (cases m) auto

lemma go_assert_eq_Ok [go_simps]: "go_assert b m = Ok y \<longleftrightarrow> b"
  by (simp add: go_assert_def)

lemma go_assert_True [simp]: "go_assert True m = Ok ()"
  by (simp add: go_assert_def)

lemma go_assert_False [simp]: "go_assert False m = Panic m"
  by (simp add: go_assert_def)

lemma go_guard_eq_Ok [go_simps]: "go_guard b e = Ok y \<longleftrightarrow> b"
  by (simp add: go_guard_def)

lemma go_guard_True [simp]: "go_guard True e = Ok ()"
  by (simp add: go_guard_def)

lemma go_guard_False [simp]: "go_guard False e = Err e"
  by (simp add: go_guard_def)

lemma go_some_eq_Ok [go_simps]: "go_some x m = Ok y \<longleftrightarrow> x = Some y"
  by (simp add: go_some_def split: option.splits)

lemma go_some_Some [simp]: "go_some (Some y) m = Ok y"
  by (simp add: go_some_def)

lemma go_some_None [simp]: "go_some None m = Panic m"
  by (simp add: go_some_def)

section \<open>Go maps that the code iterates\<close>

text \<open>
  A Go map that some loop ranges over is an association list with distinct keys, listed in the
  order of the iteration. Go leaves that order unspecified; statements quantify over every list,
  so they cover every order. Storing at a present key overwrites in place, storing at a new key
  appends, as \<open>AList.update\<close> does.
\<close>

abbreviation aput :: "'k \<Rightarrow> 'v \<Rightarrow> ('k \<times> 'v) list \<Rightarrow> ('k \<times> 'v) list" where
  "aput \<equiv> AList.update"

abbreviation adel :: "'k \<Rightarrow> ('k \<times> 'v) list \<Rightarrow> ('k \<times> 'v) list" where
  "adel \<equiv> AList.delete"

definition akeys :: "('k \<times> 'v) list \<Rightarrow> 'k list" where
  "akeys m = map fst m"

lemma set_akeys_aput [alist_simps, simp]: "set (akeys (aput k v m)) = insert k (set (akeys m))"
  by (simp add: akeys_def dom_update flip: dom_map_of_conv_image_fst) (simp add: update_conv')

lemma set_akeys_adel [alist_simps, simp]: "set (akeys (adel k m)) = set (akeys m) - {k}"
  by (auto simp: akeys_def AList.delete_eq)

lemma distinct_akeys_aput [simp]: "distinct (akeys m) \<Longrightarrow> distinct (akeys (aput k v m))"
  by (simp add: akeys_def distinct_update)

lemma distinct_akeys_filter [simp]: "distinct (akeys m) \<Longrightarrow> distinct (akeys (filter P m))"
  by (auto simp: akeys_def distinct_map inj_on_def)

lemma distinct_akeys_adel [simp]: "distinct (akeys m) \<Longrightarrow> distinct (akeys (adel k m))"
  by (simp add: akeys_def distinct_delete)

lemma in_akeys_iff: "k \<in> set (akeys m) \<longleftrightarrow> (\<exists>v. map_of m k = Some v)"
  by (metis akeys_def domIff dom_map_of_conv_image_fst list.set_map not_None_eq)

lemma map_of_None_akeys: "map_of m k = None \<longleftrightarrow> k \<notin> set (akeys m)"
  by (simp add: in_akeys_iff)

lemma map_of_in_set: "distinct (akeys m) \<Longrightarrow> (k, v) \<in> set m \<longleftrightarrow> map_of m k = Some v"
  by (auto simp: akeys_def map_of_eq_Some_iff)

lemma map_of_filter_distinct:
  "distinct (akeys m) \<Longrightarrow>
     map_of (filter P m) k = (case map_of m k of Some v \<Rightarrow> if P (k, v) then Some v else None | None \<Rightarrow> None)"
proof (induction m)
  case (Cons kv m)
  obtain a b where [simp]: "kv = (a, b)" by (cases kv)
  have "map_of m a = None"
    using Cons.prems by (simp add: akeys_def map_of_eq_None_iff)
  with Cons show ?case
    by (auto simp: akeys_def split: option.splits)
qed simp

lemma length_adel_less: "k \<in> set (akeys m) \<Longrightarrow> length (adel k m) < length m"
  unfolding AList.delete_eq akeys_def by (auto intro!: length_filter_less)

lemmas map_of_alist [alist_simps, simp] = update_conv' delete_conv'

section \<open>Big-endian byte strings\<close>

definition be_val :: "bytes \<Rightarrow> nat" where
  "be_val bs = foldl (\<lambda>a b. a * 256 + unat b) 0 bs"

lemma foldl_be: "foldl (\<lambda>a b. a * 256 + unat b) n (bs :: bytes) = n * 256 ^ length bs + be_val bs"
proof (induction bs arbitrary: n)
  case (Cons b bs)
  show ?case
    unfolding be_val_def foldl_Cons Cons.IH[of "n * 256 + unat b"] Cons.IH[of "0 * 256 + unat b"]
    by (simp add: be_val_def algebra_simps)
qed (simp add: be_val_def)

lemma be_val_Nil [simp]: "be_val [] = 0"
  by (simp add: be_val_def)

lemma be_val_Cons [simp]: "be_val (b # bs) = unat b * 256 ^ length bs + be_val bs"
  using foldl_be[of "unat b" bs] by (simp add: be_val_def)

lemma be_val_append: "be_val (xs @ ys) = be_val xs * 256 ^ length ys + be_val ys"
  by (induction xs) (auto simp: algebra_simps power_add)

lemma unat_byte_less: "unat (b :: u8) < 256"
  using unsigned_less[of b] by (simp del: unsigned_less)

lemma be_val_less: "be_val bs < 256 ^ length bs"
proof (induction bs)
  case (Cons b bs)
  have "unat b * 256 ^ length bs + be_val bs < unat b * 256 ^ length bs + 256 ^ length bs"
    using Cons by simp
  also have "\<dots> = Suc (unat b) * 256 ^ length bs"
    by simp
  also have "\<dots> \<le> 256 * 256 ^ length bs"
    using unat_byte_less[of b] by (intro mult_right_mono) auto
  finally show ?case by simp
qed simp

lemma be_val_inj: "length xs = length ys \<Longrightarrow> be_val xs = be_val ys \<Longrightarrow> xs = ys"
proof (induction xs ys rule: list_induct2)
  case (Cons x xs y ys)
  have hi: "(unat x * 256 ^ length xs + be_val xs) div 256 ^ length xs = unat x"
    using be_val_less[of xs] by simp
  have hi': "(unat y * 256 ^ length ys + be_val ys) div 256 ^ length ys = unat y"
    using be_val_less[of ys] by simp
  have "unat x * 256 ^ length xs + be_val xs = unat y * 256 ^ length ys + be_val ys"
    using Cons.prems by simp
  with hi hi' Cons.hyps have "unat x = unat y" by metis
  moreover from this Cons.hyps Cons.prems have "be_val xs = be_val ys" by simp
  ultimately show ?case using Cons.IH by (simp add: word_unat_eq_iff)
qed simp

lemma be_val_zeros [simp]: "be_val (replicate n 0) = 0"
  by (induction n) auto

lemma be_val_dropWhile_zero: "be_val (dropWhile (\<lambda>b. b = 0) bs) = be_val bs"
  by (induction bs) auto

text \<open>Lexicographic comparison of equally long byte strings (\<open>bytes.Compare\<close>), as a number.\<close>

fun bytes_lt :: "bytes \<Rightarrow> bytes \<Rightarrow> bool" where
  "bytes_lt [] [] = False"
| "bytes_lt [] (_ # _) = True"
| "bytes_lt (_ # _) [] = False"
| "bytes_lt (x # xs) (y # ys) = (x < y \<or> x = y \<and> bytes_lt xs ys)"

lemma bytes_lt_be_val: "length xs = length ys \<Longrightarrow> bytes_lt xs ys \<longleftrightarrow> be_val xs < be_val ys"
proof (induction xs ys rule: list_induct2)
  case (Cons x xs y ys)
  let ?B = "256 ^ length xs :: nat"
  have bx: "be_val xs < ?B" and "be_val ys < ?B"
    using be_val_less[of xs] be_val_less[of ys] Cons.hyps by simp_all
  show ?case
  proof (cases "unat x" "unat y" rule: linorder_cases)
    case less
    then have "Suc (unat x) * ?B \<le> unat y * ?B" by (intro mult_right_mono) auto
    with bx less Cons.hyps show ?thesis by (auto simp: word_less_nat_alt)
  next
    case equal
    then have "x = y" by (simp add: word_unat_eq_iff)
    with Cons show ?thesis by simp
  next
    case greater
    then have "Suc (unat y) * ?B \<le> unat x * ?B" by (intro mult_right_mono) auto
    with \<open>be_val ys < ?B\<close> greater Cons.hyps show ?thesis by (auto simp: word_less_nat_alt)
  qed
qed simp

lemma bytes_lt_less: "bytes_lt xs ys \<longleftrightarrow> xs < ys"
  by (induction xs ys rule: bytes_lt.induct) auto

text \<open>The bytes of a 64-bit word, most significant first: the loop \<open>b[i] = byte(v); v >>= 8\<close>.\<close>

fun put_be :: "nat \<Rightarrow> u64 \<Rightarrow> bytes \<Rightarrow> bytes" where
  "put_be 0 v acc = acc"
| "put_be (Suc n) v acc = put_be n (drop_bit 8 v) (ucast v # acc)"

lemma length_put_be [simp]: "length (put_be n v acc) = n + length acc"
  by (induction n v acc rule: put_be.induct) auto

lemma put_be_acc: "put_be n v acc = put_be n v [] @ acc"
proof (induction n arbitrary: v acc)
  case (Suc n)
  show ?case
    using Suc[of "drop_bit 8 v" "ucast v # acc"] Suc[of "drop_bit 8 v" "[ucast v]"] by simp
qed simp

lemma unat_low_byte: "unat (ucast (v :: u64) :: u8) = unat v mod 256"
  by (simp add: unsigned_ucast_eq take_bit_eq_mod)

lemma unat_drop_byte: "unat (drop_bit 8 (v :: u64)) = unat v div 256"
  unfolding unat_drop_bit_eq by (simp add: drop_bit_eq_div)

lemma be_val_put_be: "be_val (put_be n v []) = unat v mod 256 ^ n"
proof (induction n arbitrary: v)
  case (Suc n)
  have "be_val (put_be (Suc n) v []) = (unat v div 256) mod 256 ^ n * 256 + unat v mod 256"
    using Suc[of "drop_bit 8 v"]
    by (simp add: put_be_acc[of n _ "[ucast v]"] be_val_append unat_low_byte unat_drop_byte)
  also have "\<dots> = unat v mod (256 * 256 ^ n)"
    using mod_mult2_eq[of "unat v" 256 "256 ^ n"] by simp
  finally show ?case by simp
qed simp

lemma unat_u64_less: "unat (v :: u64) < 256 ^ 8"
  using unsigned_less[of v] by (simp del: unsigned_less)

lemma be_val_put_be8 [simp]: "be_val (put_be 8 v []) = unat v"
  using unat_u64_less[of v] by (simp only: be_val_put_be mod_less)

text \<open>The reading loop \<open>v = v << 8 | uint64(c)\<close>.\<close>

definition get_be :: "bytes \<Rightarrow> u64" where
  "get_be bs = foldl (\<lambda>v c. push_bit 8 v OR ucast c) 0 bs"

lemma shift_or_byte: "push_bit 8 v OR ucast c = push_bit 8 v + (ucast (c :: u8) :: u64)"
proof (rule disjunctive_add_eq_or[symmetric])
  show "push_bit 8 v AND (ucast c :: u64) = 0"
    by (rule bit_eqI) (auto simp: bit_simps dest: bit_imp_le_length)
qed

lemma of_nat_unat_ucast: "(of_nat (unat (c :: u8)) :: u64) = ucast c"
  by (simp add: unsigned_of_nat word_unat_eq_iff unsigned_ucast_eq take_bit_eq_mod)

lemma get_be_of_nat: "get_be bs = of_nat (be_val bs)"
proof -
  have "foldl (\<lambda>v c. push_bit 8 v OR ucast c) (of_nat n) bs
          = (of_nat (foldl (\<lambda>a b. a * 256 + unat b) n bs) :: u64)" for n and bs :: bytes
  proof (induction bs arbitrary: n)
    case (Cons c bs)
    have "push_bit 8 (of_nat n) OR ucast c = (of_nat (n * 256 + unat c) :: u64)"
      unfolding shift_or_byte by (simp add: push_bit_eq_mult of_nat_unat_ucast)
    with Cons[of "n * 256 + unat c"] show ?case by simp
  qed simp
  from this[of 0 bs] show ?thesis by (simp add: get_be_def be_val_def)
qed

lemma unat_get_be: "length bs \<le> 8 \<Longrightarrow> unat (get_be bs) = be_val bs"
proof -
  assume "length bs \<le> 8"
  then have "be_val bs < 256 ^ 8"
    using be_val_less[of bs] power_increasing[of "length bs" 8 "256 :: nat"] by linarith
  then show ?thesis
    by (simp add: get_be_of_nat unsigned_of_nat take_bit_eq_mod)
qed

lemma get_be_put_be [simp]: "get_be (put_be 8 v []) = v"
  by (simp add: get_be_of_nat)

lemma get_be_dropWhile [simp]: "get_be (dropWhile (\<lambda>b. b = 0) bs) = get_be bs"
  by (simp add: get_be_of_nat be_val_dropWhile_zero)

section \<open>Binary search of the standard library\<close>

text \<open>\<open>sort.Search(n, f)\<close>: the bounds \<open>i\<close> and \<open>j\<close> close in on the first index where \<open>f\<close> holds.\<close>

function sort_Search_loop :: "nat \<Rightarrow> nat \<Rightarrow> (nat \<Rightarrow> bool) \<Rightarrow> nat" where
  "sort_Search_loop i j f =
     (if i < j then let h = (i + j) div 2 in
        if f h then sort_Search_loop i h f else sort_Search_loop (h + 1) j f
      else i)"
  by pat_completeness auto
termination by (relation "measure (\<lambda>(i, j, f). j - i)") auto

declare sort_Search_loop.simps [simp del]

definition sort_Search :: "nat \<Rightarrow> (nat \<Rightarrow> bool) \<Rightarrow> nat" where
  "sort_Search n f = sort_Search_loop 0 n f"

lemma sort_Search_loop_spec:
  assumes "i \<le> j" and "\<forall>k<i. \<not> f k" and "\<forall>k<n. j \<le> k \<longrightarrow> f k" and "j \<le> n"
    and "\<And>k l. k \<le> l \<Longrightarrow> l < n \<Longrightarrow> f k \<Longrightarrow> f l"
  shows "sort_Search_loop i j f \<le> n \<and> (\<forall>k. k < sort_Search_loop i j f \<longrightarrow> \<not> f k)
    \<and> (\<forall>k<n. sort_Search_loop i j f \<le> k \<longrightarrow> f k)"
  using assms
proof (induction i j f rule: sort_Search_loop.induct)
  case (1 i j f)
  show ?case
  proof (cases "i < j")
    case True
    define h where "h = (i + j) div 2"
    have h: "i \<le> h" "h < j" using True by (auto simp: h_def)
    show ?thesis
    proof (cases "f h")
      case fh: True
      then have "\<forall>k<n. h \<le> k \<longrightarrow> f k" using "1.prems"(5) by blast
      with "1.IH"(1)[OF True h_def fh] "1.prems" h fh show ?thesis
        by (subst (1 2 3) sort_Search_loop.simps) (simp add: True Let_def h_def[symmetric])
    next
      case nfh: False
      have "h < n" using "1.prems"(4) h by simp
      then have "\<forall>k<h + 1. \<not> f k" using "1.prems"(5)[of _ h] nfh by (auto simp: less_Suc_eq_le)
      with "1.IH"(2)[OF True h_def nfh] "1.prems" h nfh show ?thesis
        by (subst (1 2 3) sort_Search_loop.simps) (simp add: True Let_def h_def[symmetric])
    qed
  next
    case False
    with "1.prems" show ?thesis by (subst (1 2 3) sort_Search_loop.simps) simp
  qed
qed

lemma sort_Search_spec:
  assumes "\<And>k l. k \<le> l \<Longrightarrow> l < n \<Longrightarrow> f k \<Longrightarrow> f l"
  shows "sort_Search n f \<le> n" and "\<And>k. k < sort_Search n f \<Longrightarrow> \<not> f k"
    and "\<And>k. k < n \<Longrightarrow> sort_Search n f \<le> k \<Longrightarrow> f k"
  using sort_Search_loop_spec[of 0 n f n] assms by (auto simp: sort_Search_def)

lemma word_less_succ: "x \<noteq> - 1 \<Longrightarrow> x < x + (1 :: 'a :: len word)"
proof -
  assume "x \<noteq> - 1"
  then have "1 + x \<noteq> 0" by (metis add.commute add_eq_0_iff2)
  then have "unat (1 + x) = Suc (unat x)" by (rule unatSuc)
  then show ?thesis by (simp add: word_less_nat_alt add.commute)
qed

text \<open>A Go map whose entries carry their own key, as collections of messages by sender do.\<close>

definition keyed :: "('e \<Rightarrow> 'k) \<Rightarrow> ('k \<times> 'e) list \<Rightarrow> bool" where
  "keyed key m \<longleftrightarrow> distinct (akeys m) \<and> (\<forall>(k, e)\<in>set m. key e = k)"

lemma keyed_Nil [simp]: "keyed key []"
  by (simp add: keyed_def akeys_def)

lemma keyed_filter [intro]: "keyed key m \<Longrightarrow> keyed key (filter P m)"
  by (auto simp: keyed_def)

lemma keyed_distinct: "keyed key m \<Longrightarrow> distinct (akeys m)"
  by (simp add: keyed_def)

lemma keyed_mem: "keyed key m \<Longrightarrow> (k, e) \<in> set m \<Longrightarrow> key e = k"
  by (auto simp: keyed_def)

lemma map_keyed: "keyed key m \<Longrightarrow> map (\<lambda>(k, e). key e) m = akeys m"
  by (auto simp: keyed_def akeys_def)

lemma keyed_aput [intro]:
  assumes "keyed key m" and "key e = a"
  shows "keyed key (aput a e m)"
proof -
  have "key x = k" if "(k, x) \<in> set (aput a e m)" for k x
  proof -
    have "map_of (aput a e m) k = Some x"
      using that assms by (intro map_of_is_SomeI) (simp_all add: keyed_def akeys_def distinct_update)
    then have "k = a \<and> x = e \<or> (k, x) \<in> set m"
      by (auto simp: update_conv' dest: map_of_SomeD split: if_splits)
    then show ?thesis using assms by (auto simp: keyed_def)
  qed
  then show ?thesis using assms by (auto simp: keyed_def)
qed

lemma keyed_drop_shorter:
  assumes "keyed key m" and "K \<noteq> {}" and "K \<subseteq> set (akeys m)"
  shows "length (filter (\<lambda>(k, e). k \<notin> K) m) < length m"
proof -
  obtain k where "k \<in> K" "k \<in> set (akeys m)" using assms(2,3) by blast
  moreover from this obtain e where "(k, e) \<in> set m" by (auto simp: akeys_def)
  ultimately show ?thesis by (intro length_filter_less[of "(k, e)"]) auto
qed

end
