(* ===== verification/Types.thy ===== *)
theory Types
  imports Prelude
begin

text \<open>
  The domain types of \<open>types/types.go\<close> and \<open>types/u128.go\<close>: rounds, epochs and sequence numbers
  are 64-bit words that wrap, hashes and node ids are byte strings, \<open>Stake\<close> is the 32-byte
  big-endian array of the code and \<open>U128\<close> its 16-byte one. The lemmas read the byte arrays as
  numbers and show that the code's byte loops are the arithmetic they are named after.
\<close>

type_synonym round = u64
type_synonym epoch = u64
type_synonym seqnum = u64
type_synonym hash = bytes
type_synonym block_id = bytes
type_synonym body_id = bytes
type_synonym node_id = bytes
type_synonym stake = bytes
type_synonym u128 = bytes

definition GENESIS_SEQ_NUM :: seqnum where "GENESIS_SEQ_NUM = 0"
definition GENESIS_ROUND :: round where "GENESIS_ROUND = 0"
definition GENESIS_EPOCH :: epoch where "GENESIS_EPOCH = 1"
definition GENESIS_BLOCK_ID :: block_id where "GENESIS_BLOCK_ID = replicate 32 0"

section \<open>Rounds and sequence numbers\<close>

definition SeqNum_SaturatingAdd :: "seqnum \<Rightarrow> seqnum \<Rightarrow> seqnum" where
  "SeqNum_SaturatingAdd s x = (let r = s + x in if r < s then NOT 0 else r)"

definition SeqNum_SaturatingSub :: "seqnum \<Rightarrow> seqnum \<Rightarrow> seqnum" where
  "SeqNum_SaturatingSub s x = (if s < x then 0 else s - x)"

definition ImmediatelyFollows :: "round \<Rightarrow> round \<Rightarrow> bool" where
  "ImmediatelyFollows r prev \<longleftrightarrow> prev \<noteq> NOT 0 \<and> r = prev + 1"

definition Round_SaturatingSub :: "round \<Rightarrow> round \<Rightarrow> round" where
  "Round_SaturatingSub r x = (if r < x then 0 else r - x)"

text \<open>Division by a zero epoch length is a run-time panic of Go.\<close>

definition IsBoundaryBlock :: "seqnum \<Rightarrow> seqnum \<Rightarrow> ('e, bool) go" where
  "IsBoundaryBlock s epochLength =
     (if epochLength = 0 then Panic ''integer divide by zero''
      else Ok (s mod epochLength = epochLength - 1))"

definition ToEpoch :: "seqnum \<Rightarrow> seqnum \<Rightarrow> ('e, epoch) go" where
  "ToEpoch s epochLength =
     (if epochLength = 0 then Panic ''integer divide by zero''
      else Ok (s div epochLength + 1))"

definition SeqNum_GetEpoch :: "seqnum \<Rightarrow> seqnum \<Rightarrow> u64 \<Rightarrow> ('e, epoch) go" where
  "SeqNum_GetEpoch s epochLength n = go_bind (ToEpoch s epochLength) (\<lambda>e. Ok (e + n - 1))"

definition GetLockedEpoch :: "seqnum \<Rightarrow> seqnum \<Rightarrow> ('e, epoch) go" where
  "GetLockedEpoch s epochLength =
     go_bind (IsBoundaryBlock s epochLength) (\<lambda>b.
       if \<not> b then Panic ''get_locked_epoch on non-boundary block''
       else go_bind (ToEpoch s epochLength) (\<lambda>e. Ok (e + 1)))"

lemma unat_succ_u64: "x \<noteq> (- 1 :: u64) \<Longrightarrow> unat (x + 1) = Suc (unat x)"
  by (metis add.commute add_neg_numeral_special(8) add_right_cancel unatSuc)

lemma u64_succ_less: "x \<noteq> (- 1 :: u64) \<Longrightarrow> x < x + 1"
  using inc_less_eq_triv_imp by (meson not_less)

lemma u64_less_succ_iff: "x \<noteq> (- 1 :: u64) \<Longrightarrow> y < x + 1 \<longleftrightarrow> y \<le> x"
  by (simp add: word_less_nat_alt word_le_nat_alt unat_succ_u64 less_Suc_eq_le)

lemma u64_succ_le_iff: "x \<noteq> (- 1 :: u64) \<Longrightarrow> x + 1 \<le> y \<longleftrightarrow> x < y"
  by (metis not_less u64_less_succ_iff)

lemma unat_max_u64: "unat (- 1 :: u64) = 2 ^ 64 - 1"
  by (simp add: unsigned_minus_1_eq_mask mask_eq_exp_minus_1)

lemma ImmediatelyFollows_iff: "ImmediatelyFollows r prev \<longleftrightarrow> unat r = Suc (unat prev)"
proof
  assume "ImmediatelyFollows r prev"
  then show "unat r = Suc (unat prev)"
    by (auto simp: ImmediatelyFollows_def unat_succ_u64)
next
  assume *: "unat r = Suc (unat prev)"
  then have "prev \<noteq> - 1"
    using unat_max_u64 unat_u64_less[of r] by auto
  with * show "ImmediatelyFollows r prev"
    by (auto simp: ImmediatelyFollows_def unat_succ_u64 word_unat_eq_iff)
qed

lemma ImmediatelyFollows_less: "ImmediatelyFollows r prev \<Longrightarrow> prev < r"
  by (simp add: ImmediatelyFollows_iff word_less_nat_alt)

lemma SeqNum_SaturatingSub_unat: "unat (SeqNum_SaturatingSub s x) = unat s - unat x"
  by (auto simp: SeqNum_SaturatingSub_def word_less_nat_alt unat_sub word_le_nat_alt)

lemma Round_SaturatingSub_unat: "unat (Round_SaturatingSub s x) = unat s - unat x"
  by (auto simp: Round_SaturatingSub_def word_less_nat_alt unat_sub word_le_nat_alt)

lemma SeqNum_SaturatingAdd_unat:
  "unat (SeqNum_SaturatingAdd s x) = min (unat s + unat x) (2 ^ 64 - 1)"
proof (cases "unat s + unat x < 2 ^ 64")
  case True
  then have "unat (s + x) = unat s + unat x" by (simp add: unat_word_ariths)
  with True show ?thesis by (simp add: SeqNum_SaturatingAdd_def Let_def word_less_nat_alt)
next
  case False
  then have "unat (s + x) = unat s + unat x - 2 ^ 64"
    using unat_u64_less[of s] unat_u64_less[of x] by (simp add: unat_word_ariths le_mod_geq)
  then have "s + x < s"
    using False unat_u64_less[of s] unat_u64_less[of x] by (simp add: word_less_nat_alt)
  with False show ?thesis
    using unat_max_u64 by (simp add: SeqNum_SaturatingAdd_def Let_def)
qed

text \<open>
  A boundary block is the last one of its epoch: the next sequence number opens the next epoch,
  and every other sequence number stays in its epoch.
\<close>

lemma ToEpoch_Ok: "l \<noteq> 0 \<Longrightarrow> ToEpoch s l = Ok (s div l + 1)"
  by (simp add: ToEpoch_def)

lemma Suc_div_boundary: "0 < n \<Longrightarrow> Suc m div n = (if m mod n = n - 1 then Suc (m div n) else m div n)"
  for m n :: nat
proof -
  assume n: "0 < n"
  show ?thesis
  proof (cases "m mod n = n - 1")
    case True
    then have "Suc m = n * Suc (m div n)"
      using n by (metis Suc_pred' add_Suc_right mult_Suc_right mult_div_mod_eq add.commute)
    then show ?thesis using n True by (metis nonzero_mult_div_cancel_left less_not_refl)
  next
    case False
    then have "Suc (m mod n) < n" using n mod_less_divisor[of n m] by linarith
    then have "Suc m mod n \<noteq> 0" by (simp add: mod_Suc)
    then show ?thesis using False by (simp add: div_Suc)
  qed
qed

lemma IsBoundaryBlock_ToEpoch_succ:
  assumes "l \<noteq> 0" and "s \<noteq> - 1"
  shows "ToEpoch (s + 1) l =
    (if IsBoundaryBlock s l = (Ok True :: ('e, bool) go) then (Ok (s div l + 2) :: ('e, epoch) go)
     else ToEpoch s l)"
proof -
  have l: "0 < unat l" using assms(1) by (simp add: unat_gt_0)
  have b: "s mod l = l - 1 \<longleftrightarrow> unat s mod unat l = unat l - 1"
    using l by (simp add: word_unat_eq_iff unat_mod_distrib unat_sub word_le_nat_alt Suc_leI)
  have "unat ((s + 1) div l) = Suc (unat s) div unat l"
    using assms by (simp add: unat_div_distrib unat_succ_u64)
  also have "\<dots> = (if s mod l = l - 1 then Suc (unat (s div l)) else unat (s div l))"
    using l b Suc_div_boundary[of "unat l" "unat s"] by (simp add: unat_div_distrib)
  finally have e: "unat ((s + 1) div l) = (if s mod l = l - 1 then Suc (unat (s div l)) else unat (s div l))" .
  have "(s + 1) div l = (if s mod l = l - 1 then s div l + 1 else s div l)"
  proof (cases "s mod l = l - 1")
    case True
    have "(s + 1) div l = of_nat (unat ((s + 1) div l))" by simp
    also have "\<dots> = of_nat (Suc (unat (s div l)))" by (subst e) (simp add: True)
    finally show ?thesis using True by (simp add: add.commute)
  next
    case False
    with e show ?thesis by (simp add: word_unat_eq_iff)
  qed
  then show ?thesis
    using assms by (simp add: ToEpoch_def IsBoundaryBlock_def)
qed

section \<open>Comparison results\<close>

text \<open>\<open>bytes.Compare\<close> returns -1, 0 or 1.\<close>

definition bytes_compare :: "bytes \<Rightarrow> bytes \<Rightarrow> int" where
  "bytes_compare a b = (if bytes_lt a b then - 1 else if bytes_lt b a then 1 else 0)"

lemma bytes_compare_be_val:
  assumes "length a = length b"
  shows "bytes_compare a b < 0 \<longleftrightarrow> be_val a < be_val b"
    and "bytes_compare a b \<le> 0 \<longleftrightarrow> be_val a \<le> be_val b"
    and "0 \<le> bytes_compare a b \<longleftrightarrow> be_val b \<le> be_val a"
    and "0 < bytes_compare a b \<longleftrightarrow> be_val b < be_val a"
  using assms by (auto simp: bytes_compare_def bytes_lt_be_val)

section \<open>Stake\<close>

definition wf_stake :: "stake \<Rightarrow> bool" where
  "wf_stake s \<longleftrightarrow> length s = 32"

abbreviation stake_val :: "stake \<Rightarrow> nat" where
  "stake_val \<equiv> be_val"

definition Stake_zero :: stake where
  "Stake_zero = replicate 32 0"

definition StakeFromUint64 :: "u64 \<Rightarrow> stake" where
  "StakeFromUint64 v = replicate 24 0 @ put_be 8 v []"

text \<open>\<open>big.Int.Bytes\<close>: the minimal big-endian representation of a natural number.\<close>

fun big_Bytes :: "nat \<Rightarrow> bytes" where
  "big_Bytes n = (if n = 0 then [] else big_Bytes (n div 256) @ [of_nat (n mod 256)])"

declare big_Bytes.simps [simp del]

text \<open>
  \<open>copy(s.Bytes[32-len(b):], b)\<close>: the slice expression panics when the number has more than 32 bytes.
\<close>

definition StakeFromBig :: "nat \<Rightarrow> ('e, stake) go" where
  "StakeFromBig v =
     (let b = big_Bytes v in
      if 32 < length b then Panic ''slice bounds out of range''
      else Ok (replicate (32 - length b) 0 @ b))"

text \<open>The carry loop of \<open>Stake.Add\<close>, from the last byte to the first.\<close>

fun add_carry :: "bytes \<Rightarrow> bytes \<Rightarrow> u64 \<Rightarrow> bytes" where
  "add_carry (x # xs) (y # ys) carry =
     (let sum = ucast x + ucast y + carry in ucast sum # add_carry xs ys (drop_bit 8 sum))"
| "add_carry _ _ _ = []"

definition Stake_Add :: "stake \<Rightarrow> stake \<Rightarrow> stake" where
  "Stake_Add s x = rev (add_carry (rev s) (rev x) 0)"

definition Stake_Cmp :: "stake \<Rightarrow> stake \<Rightarrow> int" where
  "Stake_Cmp s x = bytes_compare s x"

definition Stake_IsZero :: "stake \<Rightarrow> bool" where
  "Stake_IsZero s \<longleftrightarrow> s = Stake_zero"

lemma wf_Stake_zero [simp]: "wf_stake Stake_zero"
  by (simp add: wf_stake_def Stake_zero_def)

lemma stake_val_zero [simp]: "stake_val Stake_zero = 0"
  by (simp add: Stake_zero_def)

lemma wf_StakeFromUint64 [simp]: "wf_stake (StakeFromUint64 v)"
  by (simp add: wf_stake_def StakeFromUint64_def)

lemma stake_val_FromUint64 [simp]: "stake_val (StakeFromUint64 v) = unat v"
  by (simp add: StakeFromUint64_def be_val_append)

lemma Stake_IsZero_val: "wf_stake s \<Longrightarrow> Stake_IsZero s \<longleftrightarrow> stake_val s = 0"
  using be_val_inj[of s Stake_zero] by (auto simp: Stake_IsZero_def wf_stake_def Stake_zero_def)

lemma stake_val_less: "wf_stake s \<Longrightarrow> stake_val s < 2 ^ 256"
  using be_val_less[of s] by (simp add: wf_stake_def)

lemma Stake_Cmp_val:
  "wf_stake a \<Longrightarrow> wf_stake b \<Longrightarrow> 0 \<le> Stake_Cmp a b \<longleftrightarrow> stake_val b \<le> stake_val a"
  by (simp add: Stake_Cmp_def wf_stake_def bytes_compare_be_val)

lemma length_add_carry [simp]: "length (add_carry xs ys c) = min (length xs) (length ys)"
  by (induction xs ys c rule: add_carry.induct) (auto simp: Let_def)

text \<open>Little-endian value of the digits the carry loop works on.\<close>

fun le_val :: "bytes \<Rightarrow> nat" where
  "le_val [] = 0"
| "le_val (x # xs) = unat x + 256 * le_val xs"

lemma be_val_rev: "be_val (rev bs) = le_val bs"
  by (induction bs) (auto simp: be_val_append)

lemma unat_ucast_u8_u64 [simp]: "unat (ucast (x :: u8) :: u64) = unat x"
proof -
  have "unat x < 2 ^ 64" using unat_byte_less[of x] by simp
  then show ?thesis by (simp add: unsigned_ucast_eq take_bit_nat_eq_self)
qed

lemma add_carry_val:
  "length xs = length ys \<Longrightarrow> c \<le> 1 \<Longrightarrow>
     le_val (add_carry xs ys c) = (le_val xs + le_val ys + unat c) mod 256 ^ length xs"
proof (induction xs ys arbitrary: c rule: list_induct2)
  case (Cons x xs y ys)
  define sum where "sum = (ucast x + ucast y + c :: u64)"
  have c: "unat c \<le> 1" using Cons.prems by (simp add: word_le_nat_alt)
  have s: "unat sum = unat x + unat y + unat c"
    using unat_byte_less[of x] unat_byte_less[of y] c
    by (simp add: sum_def unat_word_ariths)
  have d: "unat (drop_bit 8 sum) = unat sum div 256" by (rule unat_drop_byte)
  have "unat sum div 256 \<le> 1"
    using s c unat_byte_less[of x] unat_byte_less[of y] by linarith
  then have le1: "drop_bit 8 sum \<le> 1" using d by (simp add: word_le_nat_alt)
  have "le_val (add_carry (x # xs) (y # ys) c)
      = unat sum mod 256 + 256 * ((le_val xs + le_val ys + unat sum div 256) mod 256 ^ length xs)"
    using Cons.IH[OF le1] d by (simp add: sum_def[symmetric] Let_def unat_low_byte)
  also have "\<dots> = (unat sum + 256 * (le_val xs + le_val ys)) mod (256 * 256 ^ length xs)"
    unfolding mod_mult2_eq[of "unat sum + 256 * (le_val xs + le_val ys)" 256 "256 ^ length xs"]
      mod_mult_self2 div_mult_self2[OF zero_neq_numeral[symmetric]]
    by (simp add: add.commute)
  finally show ?case by (simp add: s algebra_simps)
qed simp

lemma wf_Stake_Add [simp]: "wf_stake a \<Longrightarrow> wf_stake b \<Longrightarrow> wf_stake (Stake_Add a b)"
  by (simp add: wf_stake_def Stake_Add_def)

lemma stake_val_Add:
  assumes "wf_stake a" and "wf_stake b"
  shows "stake_val (Stake_Add a b) = (stake_val a + stake_val b) mod 2 ^ 256"
proof -
  have "stake_val (Stake_Add a b) = le_val (add_carry (rev a) (rev b) 0)"
    by (simp add: Stake_Add_def be_val_rev)
  also have "\<dots> = (le_val (rev a) + le_val (rev b)) mod 256 ^ 32"
    using add_carry_val[of "rev a" "rev b" 0] assms by (simp add: wf_stake_def)
  finally show ?thesis
    using be_val_rev[of "rev a"] be_val_rev[of "rev b"] by simp
qed

lemma be_val_big_Bytes: "be_val (big_Bytes n) = n"
proof (induction n rule: big_Bytes.induct)
  case (1 n)
  have "unat (of_nat (n mod 256) :: u8) = n mod 256"
    by (simp add: unsigned_of_nat take_bit_eq_mod)
  then have "n \<noteq> 0 \<Longrightarrow> be_val (big_Bytes n) = n div 256 * 256 + n mod 256"
    using 1 by (subst big_Bytes.simps) (simp add: be_val_append)
  then show ?case by (cases "n = 0") (auto simp: big_Bytes.simps)
qed

lemma length_big_Bytes: "n < 256 ^ k \<Longrightarrow> length (big_Bytes n) \<le> k"
proof (induction k arbitrary: n)
  case 0
  then show ?case by (simp add: big_Bytes.simps)
next
  case (Suc k)
  then have "n div 256 < 256 ^ k" by (simp add: less_mult_imp_div_less mult.commute)
  with Suc.IH[of "n div 256"] show ?case by (subst big_Bytes.simps) auto
qed

lemma StakeFromBig_Ok:
  assumes "v < 2 ^ 256"
  obtains s where "StakeFromBig v = Ok s" and "wf_stake s" and "stake_val s = v"
proof -
  have "length (big_Bytes v) \<le> 32" using length_big_Bytes[of v 32] assms by simp
  then show ?thesis
    using that by (simp add: StakeFromBig_def Let_def wf_stake_def be_val_append be_val_big_Bytes)
qed

section \<open>128-bit timestamps\<close>

definition wf_u128 :: "u128 \<Rightarrow> bool" where
  "wf_u128 u \<longleftrightarrow> length u = 16"

abbreviation u128_val :: "u128 \<Rightarrow> nat" where
  "u128_val \<equiv> be_val"

definition U128_zero :: u128 where
  "U128_zero = replicate 16 0"

definition U128FromUint64 :: "u64 \<Rightarrow> u128" where
  "U128FromUint64 v = replicate 8 0 @ put_be 8 v []"

definition U128FromHiLo :: "u64 \<Rightarrow> u64 \<Rightarrow> u128" where
  "U128FromHiLo hi lo = put_be 8 hi [] @ put_be 8 lo []"

definition U128_Hi :: "u128 \<Rightarrow> u64" where
  "U128_Hi u = get_be (take 8 u)"

definition U128_Lo :: "u128 \<Rightarrow> u64" where
  "U128_Lo u = get_be (drop 8 u)"

definition U128_Cmp :: "u128 \<Rightarrow> u128 \<Rightarrow> int" where
  "U128_Cmp u x = bytes_compare u x"

definition U128_IsZero :: "u128 \<Rightarrow> bool" where
  "U128_IsZero u \<longleftrightarrow> u = U128_zero"

definition U128_Inc :: "u128 \<Rightarrow> u128" where
  "U128_Inc u = (let lo = U128_Lo u + 1; hi = U128_Hi u in
     U128FromHiLo (if lo = 0 then hi + 1 else hi) lo)"

definition borrow :: "u64 \<Rightarrow> u64 \<Rightarrow> u64" where
  "borrow a b = (if a < b then 1 else 0)"

definition U128_CheckedSub :: "u128 \<Rightarrow> u128 \<Rightarrow> u128 option" where
  "U128_CheckedSub u x =
     (if U128_Cmp u x < 0 then None
      else Some (U128FromHiLo (U128_Hi u - U128_Hi x - borrow (U128_Lo u) (U128_Lo x))
                              (U128_Lo u - U128_Lo x)))"

definition U128_SaturatingSub :: "u128 \<Rightarrow> u128 \<Rightarrow> u128" where
  "U128_SaturatingSub u x = (case U128_CheckedSub u x of Some d \<Rightarrow> d | None \<Rightarrow> U128_zero)"

text \<open>\<open>d, _ := u.CheckedSub(o)\<close> ignores the flag; the zero value stands for a failed subtraction.\<close>

definition U128_AbsDiff :: "u128 \<Rightarrow> u128 \<Rightarrow> u128" where
  "U128_AbsDiff u x = (if U128_Cmp u x \<ge> 0 then U128_SaturatingSub u x else U128_SaturatingSub x u)"

definition U128_Add :: "u128 \<Rightarrow> u128 \<Rightarrow> u128" where
  "U128_Add u x = (let lo = U128_Lo u + U128_Lo x; hi = U128_Hi u + U128_Hi x in
     U128FromHiLo (if lo < U128_Lo u then hi + 1 else hi) lo)"

lemma wf_U128_simps [simp]:
  "wf_u128 U128_zero" "wf_u128 (U128FromHiLo hi lo)" "wf_u128 (U128FromUint64 v)"
  by (simp_all add: wf_u128_def U128_zero_def U128FromHiLo_def U128FromUint64_def)

lemma u128_val_FromHiLo [simp]: "u128_val (U128FromHiLo hi lo) = unat hi * 2 ^ 64 + unat lo"
  by (simp add: U128FromHiLo_def be_val_append)

lemma u128_val_zero [simp]: "u128_val U128_zero = 0"
  by (simp add: U128_zero_def)

lemma u128_val_FromUint64 [simp]: "u128_val (U128FromUint64 v) = unat v"
  by (simp add: U128FromUint64_def be_val_append)

lemma u128_val_split: "wf_u128 u \<Longrightarrow> u128_val u = unat (U128_Hi u) * 2 ^ 64 + unat (U128_Lo u)"
  using be_val_append[of "take 8 u" "drop 8 u"]
  by (simp add: wf_u128_def U128_Hi_def U128_Lo_def unat_get_be)

lemma U128_Hi_Lo_FromHiLo [simp]:
  "U128_Hi (U128FromHiLo hi lo) = hi" "U128_Lo (U128FromHiLo hi lo) = lo"
  by (simp_all add: U128_Hi_def U128_Lo_def U128FromHiLo_def)

lemma u128_val_less: "wf_u128 u \<Longrightarrow> u128_val u < 2 ^ 128"
  using be_val_less[of u] by (simp add: wf_u128_def)

lemma u128_val_inj: "wf_u128 u \<Longrightarrow> wf_u128 x \<Longrightarrow> u128_val u = u128_val x \<longleftrightarrow> u = x"
  using be_val_inj[of u x] by (auto simp: wf_u128_def)

lemma U128_Cmp_val:
  assumes "wf_u128 u" and "wf_u128 x"
  shows "U128_Cmp u x < 0 \<longleftrightarrow> u128_val u < u128_val x"
    and "U128_Cmp u x \<le> 0 \<longleftrightarrow> u128_val u \<le> u128_val x"
    and "0 \<le> U128_Cmp u x \<longleftrightarrow> u128_val x \<le> u128_val u"
    and "0 < U128_Cmp u x \<longleftrightarrow> u128_val x < u128_val u"
  using assms by (simp_all add: U128_Cmp_def wf_u128_def bytes_compare_be_val)

lemma U128_IsZero_val: "wf_u128 u \<Longrightarrow> U128_IsZero u \<longleftrightarrow> u128_val u = 0"
  using u128_val_inj[of u U128_zero] by (simp add: U128_IsZero_def)

lemma u128_val_Inc:
  assumes "wf_u128 u" and "u128_val u + 1 < 2 ^ 128"
  shows "u128_val (U128_Inc u) = u128_val u + 1"
proof (cases "U128_Lo u = - 1")
  case True
  then have lo: "unat (U128_Lo u) = 2 ^ 64 - 1" by (simp add: unat_max_u64)
  then have "unat (U128_Hi u) + 1 < 2 ^ 64"
    using assms(2) u128_val_split[OF assms(1)] by simp
  then have "unat (U128_Hi u + 1) = unat (U128_Hi u) + 1" by (simp add: unat_word_ariths)
  with True lo u128_val_split[OF assms(1)] show ?thesis
    by (simp add: U128_Inc_def Let_def algebra_simps)
next
  case False
  then have "U128_Lo u + 1 \<noteq> 0" by (metis add_eq_0_iff2)
  then show ?thesis
    using unat_succ_u64[OF False] u128_val_split[OF assms(1)] by (simp add: U128_Inc_def Let_def)
qed

lemma U128_CheckedSub_val:
  assumes "wf_u128 u" and "wf_u128 x"
  shows "U128_CheckedSub u x = None \<longleftrightarrow> u128_val u < u128_val x"
    and "U128_CheckedSub u x = Some d \<Longrightarrow> wf_u128 d \<and> u128_val d = u128_val u - u128_val x"
proof -
  show "U128_CheckedSub u x = None \<longleftrightarrow> u128_val u < u128_val x"
    using assms by (simp add: U128_CheckedSub_def U128_Cmp_val)
next
  assume d: "U128_CheckedSub u x = Some d"
  then have ge: "u128_val x \<le> u128_val u"
    using assms by (auto simp: U128_CheckedSub_def U128_Cmp_val split: if_splits)
  define a b c e where "a = U128_Hi u" "b = U128_Lo u" "c = U128_Hi x" "e = U128_Lo x"
  note d' = this
  have ge': "unat c * 2 ^ 64 + unat e \<le> unat a * 2 ^ 64 + unat b"
    using ge u128_val_split[OF assms(1)] u128_val_split[OF assms(2)] by (simp add: d')
  have dd: "d = U128FromHiLo (a - c - borrow b e) (b - e)"
    using d by (auto simp: U128_CheckedSub_def d' split: if_splits)
  have lt: "unat b < 2 ^ 64" "unat e < 2 ^ 64"
    using unat_u64_less[of b] unat_u64_less[of e] by simp_all
  have "unat (a - c - borrow b e) * 2 ^ 64 + unat (b - e)
        = (unat a * 2 ^ 64 + unat b) - (unat c * 2 ^ 64 + unat e)"
  proof (cases "b < e")
    case True
    then have lo: "unat (b - e) = 2 ^ 64 + unat b - unat e"
      by (simp add: unat_sub_if' word_less_nat_alt word_le_nat_alt)
    have "unat c < unat a"
    proof (rule ccontr)
      assume "\<not> unat c < unat a"
      then have "unat a * 2 ^ 64 \<le> unat c * 2 ^ 64" by simp
      with ge' True show False by (simp add: word_less_nat_alt)
    qed
    then obtain k where k: "unat a = Suc (unat c + k)" using less_imp_Suc_add by blast
    then have ac: "unat (a - c) = Suc k"
      by (simp add: unat_sub word_le_nat_alt)
    then have "unat (a - c - 1) = k"
      by (simp add: unat_sub word_le_nat_alt)
    with True lo k lt show ?thesis by (simp add: borrow_def word_less_nat_alt algebra_simps)
  next
    case False
    then have lo: "unat (b - e) = unat b - unat e"
      by (simp add: unat_sub word_le_nat_alt word_less_nat_alt)
    have "unat c \<le> unat a"
    proof (rule ccontr)
      assume "\<not> unat c \<le> unat a"
      then have "Suc (unat a) * 2 ^ 64 \<le> unat c * 2 ^ 64" by (intro mult_right_mono) auto
      with ge' lt show False by simp
    qed
    then obtain k where k: "unat a = unat c + k" using le_Suc_ex by blast
    then have "unat (a - c) = k" by (simp add: unat_sub word_le_nat_alt)
    with False lo k show ?thesis by (simp add: borrow_def word_less_nat_alt algebra_simps)
  qed
  then show "wf_u128 d \<and> u128_val d = u128_val u - u128_val x"
    using u128_val_split[OF assms(1)] u128_val_split[OF assms(2)] by (simp add: dd d')
qed

lemma U128_SaturatingSub_val:
  assumes "wf_u128 u" and "wf_u128 x"
  shows "wf_u128 (U128_SaturatingSub u x)" and "u128_val (U128_SaturatingSub u x) = u128_val u - u128_val x"
  using U128_CheckedSub_val[OF assms]
  by (auto simp: U128_SaturatingSub_def split: option.splits)

lemma U128_AbsDiff_val:
  assumes "wf_u128 u" and "wf_u128 x"
  shows "u128_val (U128_AbsDiff u x) = (if u128_val x \<le> u128_val u then u128_val u - u128_val x else u128_val x - u128_val u)"
  using assms by (simp add: U128_AbsDiff_def U128_Cmp_val U128_SaturatingSub_val)

lemma u64_add_carry: "unat (a + b) + (if a + b < a then 2 ^ 64 else 0) = unat a + unat (b :: u64)"
proof (cases "unat a + unat b < 2 ^ 64")
  case True
  then show ?thesis by (simp add: unat_word_ariths word_less_nat_alt)
next
  case False
  then have "unat (a + b) = unat a + unat b - 2 ^ 64"
    using unat_u64_less[of a] unat_u64_less[of b] by (simp add: unat_word_ariths le_mod_geq)
  with False show ?thesis using unat_u64_less[of b] by (auto simp: word_less_nat_alt)
qed

lemma mod_digits: "l < m \<Longrightarrow> (h mod n) * m + l = (h * m + l) mod (m * n)" for l m h n :: nat
  by (simp add: mod_mult2_eq mult.commute)

lemma u128_val_Add:
  assumes "wf_u128 u" and "wf_u128 x"
  shows "u128_val (U128_Add u x) = (u128_val u + u128_val x) mod 2 ^ 128"
proof -
  define a b c e where "a = U128_Hi u" "b = U128_Lo u" "c = U128_Hi x" "e = U128_Lo x"
  note d' = this
  define k :: nat where "k = (if b + e < b then 1 else 0)"
  have lo: "unat (b + e) + k * 2 ^ 64 = unat b + unat e"
    using u64_add_carry[of b e] by (cases "b + e < b") (simp_all add: k_def)
  define hi where "hi = (if b + e < b then a + c + 1 else a + c)"
  have "hi = of_nat (unat a + unat c + k)" by (simp add: hi_def k_def)
  then have hi: "unat hi = (unat a + unat c + k) mod 2 ^ 64"
    by (simp only: unsigned_of_nat take_bit_eq_mod) simp
  have "u128_val (U128_Add u x) = unat hi * 2 ^ 64 + unat (b + e)"
    by (simp add: U128_Add_def Let_def d'[symmetric] hi_def)
  also have "\<dots> = ((unat a + unat c + k) * 2 ^ 64 + unat (b + e)) mod (2 ^ 64 * 2 ^ 64)"
    using mod_digits[of "unat (b + e)" "2 ^ 64" "unat a + unat c + k" "2 ^ 64"]
      unat_u64_less[of "b + e"] by (simp only: hi) simp
  also have "(unat a + unat c + k) * 2 ^ 64 + unat (b + e) = u128_val u + u128_val x"
    using lo u128_val_split[OF assms(1)] u128_val_split[OF assms(2)] by (simp add: d' algebra_simps)
  finally show ?thesis by simp
qed

section \<open>Properties\<close>

text \<open>The byte-wise loops of \<open>Stake\<close> are arithmetic on 256-bit numbers: the sum wraps modulo
  \<open>2 ^ 256\<close> and stays 32 bytes, and the comparison is the comparison of the values.\<close>

theorem Stake_arithmetic:
  assumes "wf_stake a" and "wf_stake b"
  shows "wf_stake (Stake_Add a b)
    \<and> stake_val (Stake_Add a b) = (stake_val a + stake_val b) mod 2 ^ 256
    \<and> (0 \<le> Stake_Cmp a b \<longleftrightarrow> stake_val b \<le> stake_val a)
    \<and> (Stake_IsZero a \<longleftrightarrow> stake_val a = 0)"
  using assms by (simp add: stake_val_Add Stake_Cmp_val Stake_IsZero_val)

lemma Stake_arithmetic_witness:
  "stake_val (Stake_Add (StakeFromUint64 300) (StakeFromUint64 500)) = 800
   \<and> \<not> 0 \<le> Stake_Cmp (StakeFromUint64 300) (StakeFromUint64 500)"
  using Stake_arithmetic[of "StakeFromUint64 300" "StakeFromUint64 500"] by simp

text \<open>The two-limb operations of \<open>U128\<close> are arithmetic on 128-bit numbers: addition wraps,
  \<open>CheckedSub\<close> fails exactly on underflow, \<open>SaturatingSub\<close> stops at zero and \<open>AbsDiff\<close> is the distance.\<close>

theorem U128_arithmetic:
  assumes "wf_u128 u" and "wf_u128 x"
  shows "u128_val (U128_Add u x) = (u128_val u + u128_val x) mod 2 ^ 128
    \<and> (U128_CheckedSub u x = None \<longleftrightarrow> u128_val u < u128_val x)
    \<and> (\<forall>d. U128_CheckedSub u x = Some d \<longrightarrow> u128_val d = u128_val u - u128_val x)
    \<and> u128_val (U128_SaturatingSub u x) = u128_val u - u128_val x
    \<and> int (u128_val (U128_AbsDiff u x)) = \<bar>int (u128_val u) - int (u128_val x)\<bar>"
  using U128_CheckedSub_val[OF assms]
  by (simp only: u128_val_Add[OF assms] U128_SaturatingSub_val[OF assms] U128_AbsDiff_val[OF assms]) auto

lemma U128_arithmetic_witness:
  "u128_val (U128_AbsDiff (U128FromUint64 7) (U128FromUint64 10)) = 3
   \<and> U128_CheckedSub (U128FromUint64 7) (U128FromUint64 10) = None"
  using U128_arithmetic[of "U128FromUint64 7" "U128FromUint64 10"] by simp

text \<open>A boundary block is the last block of its epoch: the epoch of the next sequence number is one
  higher exactly after a boundary block, and unchanged after every other block.\<close>

theorem epoch_changes_at_boundary:
  assumes "l \<noteq> 0" and "s \<noteq> - 1"
  shows "\<exists>e e'. (ToEpoch s l :: (unit, epoch) go) = Ok e \<and> (ToEpoch (s + 1) l :: (unit, epoch) go) = Ok e'
    \<and> ((IsBoundaryBlock s l :: (unit, bool) go) = Ok True \<longrightarrow> e' = e + 1)
    \<and> ((IsBoundaryBlock s l :: (unit, bool) go) = Ok False \<longrightarrow> e' = e)"
  using IsBoundaryBlock_ToEpoch_succ[OF assms, where ?'e = unit]
  unfolding ToEpoch_Ok[OF assms(1)] by (simp split: if_splits)

lemma epoch_changes_at_boundary_witness:
  "\<exists>e e'. (ToEpoch 99 100 :: (unit, epoch) go) = Ok e \<and> (ToEpoch 100 100 :: (unit, epoch) go) = Ok e' \<and> e' = e + 1"
  using epoch_changes_at_boundary[of 100 99] by (simp add: IsBoundaryBlock_def)

end
