(* ===== verification/Rlp.thy ===== *)
theory Rlp
  imports Prelude
begin

text \<open>
  \<open>rlp/rlp.go\<close>: the encoder (\<open>AppendUint64\<close> .. \<open>AppendList\<close>) and the stream decoder. A stream is
  the list of its unread bytes; a read returns the item and the bytes that are left. The lemmas
  give the round trip of every item, that the decoder accepts canonical encodings only, and when
  a read panics.
\<close>

named_theorems rlp_append

datatype rlp_error =
    ErrInputTooShort | ErrInputTooLong | ErrNonCanonicalSingleByte | ErrNonCanonicalSize
  | ErrLeadingZero | ErrOverflow | ErrUnexpectedString | ErrUnexpectedList
  | ErrUnexpectedLength | ErrListLengthMismatch | ErrCustom | ErrOther string

definition EmptyStringCode :: u8 where "EmptyStringCode = 0x80"
definition EmptyListCode :: u8 where "EmptyListCode = 0xC0"

section \<open>Encoding\<close>

text \<open>\<open>appendLenPrefix\<close>: the loop fills \<open>b\<close> from the end while the remaining length is positive.\<close>

fun len_bytes :: "nat \<Rightarrow> bytes \<Rightarrow> bytes" where
  "len_bytes v acc = (if v = 0 then acc else len_bytes (v div 256) (of_nat (v mod 256) # acc))"

declare len_bytes.simps [simp del]

definition appendLenPrefix :: "u8 \<Rightarrow> nat \<Rightarrow> bytes" where
  "appendLenPrefix base l = (let b = len_bytes l [] in (base + of_nat (length b)) # b)"

definition appendStringHeader :: "bytes \<Rightarrow> nat \<Rightarrow> bytes" where
  "appendStringHeader dst l =
     (if l < 56 then dst @ [EmptyStringCode + of_nat l] else dst @ appendLenPrefix 0xB7 l)"

definition appendListHeader :: "bytes \<Rightarrow> nat \<Rightarrow> bytes" where
  "appendListHeader dst payloadLen =
     (if payloadLen < 56 then dst @ [EmptyListCode + of_nat payloadLen]
      else dst @ appendLenPrefix 0xF7 payloadLen)"

definition AppendString :: "bytes \<Rightarrow> bytes \<Rightarrow> bytes" where
  "AppendString dst s =
     (if length s = 1 \<and> hd s < EmptyStringCode then dst @ [hd s]
      else appendStringHeader dst (length s) @ s)"

definition AppendUint64 :: "bytes \<Rightarrow> u64 \<Rightarrow> bytes" where
  "AppendUint64 dst v =
     (if v = 0 then dst @ [EmptyStringCode]
      else AppendString dst (dropWhile (\<lambda>b. b = 0) (put_be 8 v [])))"

definition AppendUint8 :: "bytes \<Rightarrow> u8 \<Rightarrow> bytes" where
  "AppendUint8 dst v = AppendUint64 dst (ucast v)"

definition AppendUint16 :: "bytes \<Rightarrow> 16 word \<Rightarrow> bytes" where
  "AppendUint16 dst v = AppendUint64 dst (ucast v)"

definition AppendUint32 :: "bytes \<Rightarrow> u32 \<Rightarrow> bytes" where
  "AppendUint32 dst v = AppendUint64 dst (ucast v)"

definition AppendBool :: "bytes \<Rightarrow> bool \<Rightarrow> bytes" where
  "AppendBool dst v = (if v then AppendUint64 dst 1 else AppendUint64 dst 0)"

definition AppendUint128 :: "bytes \<Rightarrow> u64 \<Rightarrow> u64 \<Rightarrow> bytes" where
  "AppendUint128 dst hi lo =
     (if hi = 0 then AppendUint64 dst lo
      else AppendString dst (dropWhile (\<lambda>b. b = 0) (put_be 8 hi (put_be 8 lo []))))"

definition AppendList :: "bytes \<Rightarrow> (bytes \<Rightarrow> bytes) \<Rightarrow> bytes" where
  "AppendList dst build = (let payload = build [] in appendListHeader dst (length payload) @ payload)"

section \<open>Decoding\<close>

text \<open>
  \<open>header\<close>: whether the next item is a list, and the length of its payload as a Go \<open>int\<close>. The
  64-bit length of the long form and the sum it is checked with wrap modulo \<open>2 ^ 64\<close>.
\<close>

definition rlp_header_long :: "bool \<Rightarrow> nat \<Rightarrow> bytes \<Rightarrow> (rlp_error, bool \<times> int) go" where
  "rlp_header_long list lenOfLen s =
     (if length s < 1 + lenOfLen then Err ErrInputTooShort
      else let lenBytes = take lenOfLen (drop 1 s) in
        if hd lenBytes = 0 then Err ErrLeadingZero
        else let l = get_be lenBytes in
          if l < 56 then Err ErrNonCanonicalSize
          else if of_nat (length s) < 1 + of_nat lenOfLen + l then Err ErrInputTooShort
          else Ok (list, sint l))"

definition rlp_header :: "bytes \<Rightarrow> (rlp_error, bool \<times> int) go" where
  "rlp_header s = (case s of [] \<Rightarrow> Err ErrInputTooShort | b # _ \<Rightarrow>
     if b < EmptyStringCode then Ok (False, 1)
     else if b \<le> 0xB7 then
       (let l = unat (b - EmptyStringCode) in
        if length s < 1 + l then Err ErrInputTooShort
        else if l = 1 \<and> s ! 1 < EmptyStringCode then Err ErrNonCanonicalSingleByte
        else Ok (False, int l))
     else if (0xB8 \<le> b \<and> b \<le> 0xBF) \<or> 0xF8 \<le> b then
       (let list = (0xF8 \<le> b); code = (if list then 0xF7 else 0xB7) in
        rlp_header_long list (unat (b - code)) s)
     else
       (let l = unat (b - EmptyListCode) in
        if length s < 1 + l then Err ErrInputTooShort else Ok (True, int l)))"

definition headerSize :: "bytes \<Rightarrow> int" where
  "headerSize buf = (let b = hd buf in
     if b < EmptyStringCode then 0
     else if b \<le> 0xB7 \<or> (0xC0 \<le> b \<and> b \<le> 0xF7) then 1
     else 1 + int (unat (b - (if 0xF8 \<le> b then 0xF7 else 0xB7))))"

text \<open>
  A slice expression \<open>b[lo:hi]\<close>. Go bounds \<open>hi\<close> by the capacity; the model bounds it by the
  length, which is the smaller of the two.
\<close>

definition go_slice :: "'a list \<Rightarrow> int \<Rightarrow> int \<Rightarrow> ('e, 'a list) go" where
  "go_slice xs lo hi =
     (if 0 \<le> lo \<and> lo \<le> hi \<and> hi \<le> int (length xs)
      then Ok (take (nat hi - nat lo) (drop (nat lo) xs))
      else Panic ''slice bounds out of range'')"

definition rlp_Bytes :: "bytes \<Rightarrow> (rlp_error, bytes \<times> bytes) go" where
  "rlp_Bytes s = go_bind (rlp_header s) (\<lambda>(list, l).
     if list then Err ErrUnexpectedList
     else let hs = headerSize s in
       go_bind (go_slice s hs (hs + l)) (\<lambda>out.
       go_bind (go_slice s (hs + l) (int (length s))) (\<lambda>rest. Ok (out, rest))))"

definition rlp_List :: "bytes \<Rightarrow> (rlp_error, bytes \<times> bytes) go" where
  "rlp_List s = go_bind (rlp_header s) (\<lambda>(list, l).
     if \<not> list then Err ErrUnexpectedString
     else let hs = headerSize s in
       go_bind (go_slice s hs (hs + l)) (\<lambda>payload.
       go_bind (go_slice s (hs + l) (int (length s))) (\<lambda>rest. Ok (payload, rest))))"

definition leftPadUint64 :: "bytes \<Rightarrow> (rlp_error, u64) go" where
  "leftPadUint64 b =
     (if 8 < length b then Err ErrOverflow
      else if length b = 0 then Ok 0
      else if hd b = 0 then Err ErrLeadingZero
      else Ok (get_be b))"

definition rlp_Uint64 :: "bytes \<Rightarrow> (rlp_error, u64 \<times> bytes) go" where
  "rlp_Uint64 s = go_bind (rlp_Bytes s) (\<lambda>(b, rest). go_bind (leftPadUint64 b) (\<lambda>v. Ok (v, rest)))"

definition rlp_Uint8 :: "bytes \<Rightarrow> (rlp_error, u8 \<times> bytes) go" where
  "rlp_Uint8 s = go_bind (rlp_Uint64 s) (\<lambda>(v, rest).
     if 0xFF < v then Err ErrOverflow else Ok (ucast v, rest))"

definition rlp_Uint16 :: "bytes \<Rightarrow> (rlp_error, 16 word \<times> bytes) go" where
  "rlp_Uint16 s = go_bind (rlp_Uint64 s) (\<lambda>(v, rest).
     if 0xFFFF < v then Err ErrOverflow else Ok (ucast v, rest))"

definition rlp_Uint32 :: "bytes \<Rightarrow> (rlp_error, u32 \<times> bytes) go" where
  "rlp_Uint32 s = go_bind (rlp_Uint64 s) (\<lambda>(v, rest).
     if 0xFFFFFFFF < v then Err ErrOverflow else Ok (ucast v, rest))"

definition rlp_Bool :: "bytes \<Rightarrow> (rlp_error, bool \<times> bytes) go" where
  "rlp_Bool s = go_bind (rlp_Uint8 s) (\<lambda>(v, rest).
     if 1 < v then Err ErrCustom else Ok (v = 1, rest))"

definition rlp_Uint128 :: "bytes \<Rightarrow> (rlp_error, (u64 \<times> u64) \<times> bytes) go" where
  "rlp_Uint128 s = go_bind (rlp_Bytes s) (\<lambda>(b, rest).
     if 16 < length b then Err ErrOverflow
     else if length b = 0 then Ok ((0, 0), rest)
     else if hd b = 0 then Err ErrLeadingZero
     else let v = replicate (16 - length b) 0 @ b in
       Ok ((get_be (take 8 v), get_be (drop 8 v)), rest))"

definition rlp_FixedBytes :: "nat \<Rightarrow> bytes \<Rightarrow> (rlp_error, bytes \<times> bytes) go" where
  "rlp_FixedBytes n s = go_bind (rlp_Bytes s) (\<lambda>(b, rest).
     if length b \<noteq> n then Err ErrUnexpectedLength else Ok (b, rest))"

definition rlp_Done :: "bytes \<Rightarrow> (rlp_error, unit) go" where
  "rlp_Done s = go_guard (s = []) ErrUnexpectedLength"

definition DecodeExact :: "bytes \<Rightarrow> (bytes \<Rightarrow> (rlp_error, 'a \<times> bytes) go) \<Rightarrow> (rlp_error, 'a) go" where
  "DecodeExact b fn = go_bind (fn b) (\<lambda>(x, rest).
     if rest \<noteq> [] then Err ErrInputTooLong else Ok x)"

text \<open>
  The loop \<open>for l.Remaining() > 0\<close> of the list decoders. One round reads one item; the fuel is the
  length of the payload, so it runs out only for an item decoder that consumes nothing.
\<close>

fun rlp_each_fuel :: "nat \<Rightarrow> (bytes \<Rightarrow> (rlp_error, 'a \<times> bytes) go) \<Rightarrow> bytes \<Rightarrow> (rlp_error, 'a list) go" where
  "rlp_each_fuel n dec [] = Ok []"
| "rlp_each_fuel 0 dec (b # s) = Diverge"
| "rlp_each_fuel (Suc n) dec (b # s) = go_bind (dec (b # s)) (\<lambda>(x, rest).
     go_bind (rlp_each_fuel n dec rest) (\<lambda>xs. Ok (x # xs)))"

definition rlp_each :: "(bytes \<Rightarrow> (rlp_error, 'a \<times> bytes) go) \<Rightarrow> bytes \<Rightarrow> (rlp_error, 'a list) go" where
  "rlp_each dec s = rlp_each_fuel (length s) dec s"

section \<open>Encoders append\<close>

lemma AppendString_dst: "AppendString dst s = dst @ AppendString [] s"
  by (simp add: AppendString_def appendStringHeader_def)

lemma AppendUint64_dst: "AppendUint64 dst v = dst @ AppendUint64 [] v"
  by (simp add: AppendUint64_def AppendString_dst[of dst])

lemma AppendList_dst: "AppendList dst build = dst @ AppendList [] build"
  by (simp add: AppendList_def appendListHeader_def Let_def)

lemma AppendUint8_dst: "AppendUint8 dst v = dst @ AppendUint8 [] v"
  by (simp add: AppendUint8_def AppendUint64_dst[of dst])

lemma AppendBool_dst: "AppendBool dst v = dst @ AppendBool [] v"
  by (simp add: AppendBool_def AppendUint64_dst[of dst])

lemma AppendUint16_dst: "AppendUint16 dst v = dst @ AppendUint16 [] v"
  by (simp add: AppendUint16_def AppendUint64_dst[of dst])

lemma AppendUint32_dst: "AppendUint32 dst v = dst @ AppendUint32 [] v"
  by (simp add: AppendUint32_def AppendUint64_dst[of dst])

lemma AppendUint128_dst: "AppendUint128 dst hi lo = dst @ AppendUint128 [] hi lo"
  by (simp add: AppendUint128_def AppendUint64_dst[of dst] AppendString_dst[of dst])

text \<open>
  The collection \<open>rlp_append\<close> pulls the bytes already written to the front, so that an encoder
  becomes the concatenation of the encodings of its fields.
\<close>

lemma rlp_append_items [rlp_append]:
  "NO_MATCH [] dst \<Longrightarrow> AppendString dst s = dst @ AppendString [] s"
  "NO_MATCH [] dst \<Longrightarrow> AppendUint64 dst v = dst @ AppendUint64 [] v"
  "NO_MATCH [] dst \<Longrightarrow> AppendUint8 dst v8 = dst @ AppendUint8 [] v8"
  "NO_MATCH [] dst \<Longrightarrow> AppendUint16 dst v16 = dst @ AppendUint16 [] v16"
  "NO_MATCH [] dst \<Longrightarrow> AppendUint32 dst v32 = dst @ AppendUint32 [] v32"
  "NO_MATCH [] dst \<Longrightarrow> AppendUint128 dst hi lo = dst @ AppendUint128 [] hi lo"
  "NO_MATCH [] dst \<Longrightarrow> AppendBool dst b = dst @ AppendBool [] b"
  "NO_MATCH [] dst \<Longrightarrow> AppendList dst build = dst @ AppendList [] build"
  by (rule AppendString_dst AppendUint64_dst AppendUint8_dst AppendUint16_dst AppendUint32_dst
      AppendUint128_dst AppendBool_dst AppendList_dst)+

lemma len_bytes_acc: "len_bytes v acc = len_bytes v [] @ acc"
proof (induction v arbitrary: acc rule: less_induct)
  case (less v)
  show ?case
  proof (cases "v = 0")
    case False
    then have lt: "v div 256 < v" by simp
    have "len_bytes v acc = len_bytes (v div 256) (of_nat (v mod 256) # acc)"
      using False by (simp add: len_bytes.simps[of v])
    also have "\<dots> = len_bytes (v div 256) [] @ of_nat (v mod 256) # acc"
      by (rule less.IH[OF lt])
    also have "\<dots> = len_bytes (v div 256) [of_nat (v mod 256)] @ acc"
      using less.IH[OF lt, of "[of_nat (v mod 256)]"] by simp
    also have "\<dots> = len_bytes v [] @ acc"
      using False by (simp add: len_bytes.simps[of v])
    finally show ?thesis .
  qed (simp add: len_bytes.simps)
qed

lemma len_bytes_step: "v \<noteq> 0 \<Longrightarrow> len_bytes v [] = len_bytes (v div 256) [] @ [of_nat (v mod 256)]"
  by (subst len_bytes.simps) (simp add: len_bytes_acc[of _ "[_]"])

lemma be_val_len_bytes: "be_val (len_bytes v []) = v"
proof (induction v rule: less_induct)
  case (less v)
  show ?case
  proof (cases "v = 0")
    case False
    have "unat (of_nat (v mod 256) :: u8) = v mod 256"
      by (simp add: unsigned_of_nat take_bit_eq_mod)
    with False less[of "v div 256"] show ?thesis by (simp add: len_bytes_step be_val_append)
  qed (simp add: len_bytes.simps)
qed

lemma length_len_bytes: "v < 256 ^ k \<Longrightarrow> length (len_bytes v []) \<le> k"
proof (induction k arbitrary: v)
  case 0
  then show ?case by (simp add: len_bytes.simps)
next
  case (Suc k)
  show ?case
  proof (cases "v = 0")
    case False
    have "v div 256 < 256 ^ k" using Suc.prems by (simp add: less_mult_imp_div_less mult.commute)
    with False Suc.IH[of "v div 256"] show ?thesis by (simp add: len_bytes_step)
  qed (simp add: len_bytes.simps)
qed

lemma hd_len_bytes: "v \<noteq> 0 \<Longrightarrow> len_bytes v [] \<noteq> [] \<and> hd (len_bytes v []) \<noteq> 0"
proof (induction v rule: less_induct)
  case (less v)
  show ?case
  proof (cases "v div 256 = 0")
    case True
    then have "v < 256" by simp
    moreover from this have "unat (of_nat v :: u8) = v"
      by (simp add: unsigned_of_nat take_bit_eq_mod)
    then have "(of_nat v :: u8) \<noteq> 0" using less.prems by auto
    ultimately show ?thesis
      using less.prems True by (simp add: len_bytes_step len_bytes.simps[of 0])
  next
    case False
    with less.IH[of "v div 256"] less.prems show ?thesis by (subst (1 2) len_bytes_step) simp_all
  qed
qed

section \<open>Round trip of byte strings and lists\<close>

lemma unat_prefix_byte: "n + k < 256 \<Longrightarrow> unat (of_nat n + of_nat k :: u8) = n + k"
  by (simp add: unsigned_of_nat take_bit_eq_mod flip: of_nat_add)

lemma unat_code_add:
  "k < 56 \<Longrightarrow> unat (EmptyStringCode + of_nat k) = 128 + k"
  "k < 56 \<Longrightarrow> unat (EmptyListCode + of_nat k) = 192 + k"
  "k \<le> 8 \<Longrightarrow> unat (0xB7 + of_nat k :: u8) = 183 + k"
  "k \<le> 8 \<Longrightarrow> unat (0xF7 + of_nat k :: u8) = 247 + k"
  using unat_prefix_byte[of 128 k] unat_prefix_byte[of 192 k] unat_prefix_byte[of 183 k]
    unat_prefix_byte[of 247 k]
  by (simp_all add: EmptyStringCode_def EmptyListCode_def)

text \<open>The slice of a well-formed item: its payload and what follows it.\<close>

lemma go_slice_payload:
  "go_slice (h @ p @ r) (int (length h)) (int (length h) + int (length p)) = Ok p"
  "go_slice (h @ p @ r) (int (length h) + int (length p)) (int (length (h @ p @ r))) = Ok r"
  by (auto simp: go_slice_def nat_add_distrib)

lemma sint_of_nat_u64: "n < 2 ^ 63 \<Longrightarrow> sint (of_nat n :: u64) = int n"
  by (simp add: sint_word_ariths signed_of_nat signed_take_bit_int_eq_self)

text \<open>The long form: a length of at least 56 and below \<open>2 ^ 63\<close>, in at most eight bytes.\<close>

lemma len_bytes_long:
  assumes "56 \<le> n" and "n < 2 ^ 63"
  shows "1 \<le> length (len_bytes n [])" and "length (len_bytes n []) \<le> 8"
    and "get_be (len_bytes n []) = of_nat n" and "hd (len_bytes n []) \<noteq> 0"
proof -
  show "1 \<le> length (len_bytes n [])" "hd (len_bytes n []) \<noteq> 0"
    using hd_len_bytes[of n] assms(1) by (auto simp: Suc_le_eq)
  show "length (len_bytes n []) \<le> 8" using length_len_bytes[of n 8] assms(2) by simp
  show "get_be (len_bytes n []) = of_nat n" by (simp add: get_be_of_nat be_val_len_bytes)
qed

lemma unat_of_nat_u64: "n < 2 ^ 64 \<Longrightarrow> unat (of_nat n :: u64) = n"
  by (simp add: unsigned_of_nat take_bit_eq_mod)

lemma rlp_header_long_Ok:
  assumes n: "56 \<le> n" and p: "length p = n" and total: "length (b # len_bytes n [] @ p @ r) < 2 ^ 63"
  shows "rlp_header_long list (length (len_bytes n [])) (b # len_bytes n [] @ p @ r) = Ok (list, int n)"
proof -
  define k where "k = length (len_bytes n [])"
  have n63: "n < 2 ^ 63" using total p by simp
  note lb = len_bytes_long[OF n n63]
  have l56: "\<not> (of_nat n :: u64) < 56"
    using n n63 unat_of_nat_u64[of n] by (simp add: word_less_nat_alt)
  have "unat (of_nat (1 + k + n) :: u64) \<le> unat (of_nat (1 + k + n + length r) :: u64)"
    using total p by (subst (1 2) unat_of_nat_u64) (simp_all add: k_def)
  then have "\<not> (of_nat (1 + k + n + length r) :: u64) < 1 + of_nat k + of_nat n"
    by (simp only: word_less_nat_alt not_less of_nat_add of_nat_1)
  moreover have "length (b # len_bytes n [] @ p @ r) = 1 + k + n + length r"
    by (simp add: k_def p)
  ultimately show ?thesis
    using lb l56 n63 unfolding rlp_header_long_def
    by (simp only: k_def[symmetric]) (simp add: k_def sint_of_nat_u64 Let_def)
qed

lemma appendLenPrefix_item:
  assumes n: "56 \<le> length p" and total: "length (appendLenPrefix code (length p) @ p @ r) < 2 ^ 63"
    and code: "code = 0xB7 \<or> code = (0xF7 :: u8)"
  shows "rlp_header (appendLenPrefix code (length p) @ p @ r) = Ok (code = 0xF7, int (length p))"
    and "headerSize (appendLenPrefix code (length p) @ p @ r) = int (length (appendLenPrefix code (length p)))"
proof -
  define k where "k = length (len_bytes (length p) [])"
  let ?b = "code + of_nat k"
  have s: "appendLenPrefix code (length p) = ?b # len_bytes (length p) []"
    by (simp add: appendLenPrefix_def k_def Let_def)
  have n63: "length p < 2 ^ 63" using total by simp
  have k: "1 \<le> k" "k \<le> 8" using len_bytes_long[OF n n63] by (simp_all add: k_def)
  have ub: "unat ?b = (if code = 0xF7 then 247 + k else 183 + k)"
    using k code unat_code_add(3,4)[of k] by auto
  have sub: "unat (?b - code) = k"
    using k by (simp add: unsigned_of_nat take_bit_eq_mod)
  have cmp: "\<not> ?b < EmptyStringCode" "\<not> ?b \<le> 0xB7" "(0xF8 \<le> ?b) = (code = 0xF7)"
    "0xB8 \<le> ?b \<and> ?b \<le> 0xBF \<or> 0xF8 \<le> ?b" "\<not> (0xC0 \<le> ?b \<and> ?b \<le> 0xF7)"
    using ub k code by (auto simp: word_le_nat_alt word_less_nat_alt EmptyStringCode_def)
  have code': "(if code = 0xF7 then 0xF7 else 0xB7) = code" using code by auto
  show "rlp_header (appendLenPrefix code (length p) @ p @ r) = Ok (code = 0xF7, int (length p))"
    unfolding s append_Cons rlp_header_def list.case Let_def cmp(3)
    using cmp rlp_header_long_Ok[OF n refl, of ?b r "code = 0xF7"] total s
    by (simp only: code' sub k_def[symmetric] if_False if_True simp_thms) (simp add: k_def)
  show "headerSize (appendLenPrefix code (length p) @ p @ r) = int (length (appendLenPrefix code (length p)))"
    unfolding s headerSize_def append_Cons list.sel Let_def cmp(3)
    using cmp by (simp only: code' sub if_False simp_thms) (simp add: k_def)
qed

text \<open>A read of an item whose header is understood returns the payload and the rest.\<close>

lemma rlp_read_item:
  assumes "rlp_header (h @ p @ r) = Ok (list, int (length p))"
    and "headerSize (h @ p @ r) = int (length h)"
  shows "list \<Longrightarrow> rlp_List (h @ p @ r) = Ok (p, r)"
    and "\<not> list \<Longrightarrow> rlp_Bytes (h @ p @ r) = Ok (p, r)"
  using assms
  by (simp_all only: rlp_List_def rlp_Bytes_def go_bind.simps case_prod_conv Let_def if_False if_True
      simp_thms go_slice_payload)

lemma short_string_item:
  assumes "length p < 56" and "\<not> (length p = 1 \<and> hd p < EmptyStringCode)"
  shows "rlp_header ((EmptyStringCode + of_nat (length p)) # p @ r) = Ok (False, int (length p))"
    and "headerSize ((EmptyStringCode + of_nat (length p)) # p @ r) = 1"
proof -
  let ?b = "EmptyStringCode + of_nat (length p)"
  have ub: "unat ?b = 128 + length p" using assms(1) by (rule unat_code_add)
  have sub: "unat (?b - EmptyStringCode) = length p"
    using assms(1) by (simp add: unsigned_of_nat take_bit_eq_mod)
  have cmp: "\<not> ?b < EmptyStringCode" "?b \<le> 0xB7"
    using ub assms(1) by (auto simp: word_le_nat_alt word_less_nat_alt EmptyStringCode_def)
  have nc: "\<not> (length p = 1 \<and> (?b # p @ r) ! 1 < EmptyStringCode)"
    using assms(2) by (cases p) auto
  show "rlp_header (?b # p @ r) = Ok (False, int (length p))"
    unfolding rlp_header_def list.case Let_def sub
    using cmp nc by simp
  show "headerSize (?b # p @ r) = 1"
    unfolding headerSize_def list.sel Let_def using cmp by simp
qed

lemma short_list_item:
  assumes "length p < 56"
  shows "rlp_header ((EmptyListCode + of_nat (length p)) # p @ r) = Ok (True, int (length p))"
    and "headerSize ((EmptyListCode + of_nat (length p)) # p @ r) = 1"
proof -
  let ?b = "EmptyListCode + of_nat (length p)"
  have ub: "unat ?b = 192 + length p" using assms(1) by (rule unat_code_add)
  have sub: "unat (?b - EmptyListCode) = length p"
    using assms(1) by (simp add: unsigned_of_nat take_bit_eq_mod)
  have cmp: "\<not> ?b < EmptyStringCode" "\<not> ?b \<le> 0xB7" "\<not> (0xB8 \<le> ?b \<and> ?b \<le> 0xBF \<or> 0xF8 \<le> ?b)"
    "0xC0 \<le> ?b \<and> ?b \<le> 0xF7"
    using ub assms(1) by (auto simp: word_le_nat_alt word_less_nat_alt EmptyStringCode_def)
  show "rlp_header (?b # p @ r) = Ok (True, int (length p))"
    unfolding rlp_header_def list.case Let_def sub
    by (simp only: cmp if_False) simp
  show "headerSize (?b # p @ r) = 1"
    unfolding headerSize_def list.sel Let_def using cmp by simp
qed

lemma single_byte_item:
  assumes "b < EmptyStringCode"
  shows "rlp_header (b # r) = Ok (False, 1)" and "headerSize (b # r) = 0"
  using assms by (simp_all add: rlp_header_def headerSize_def)

lemma rlp_Bytes_AppendString:
  assumes "length (AppendString [] s @ rest) < 2 ^ 63"
  shows "rlp_Bytes (AppendString [] s @ rest) = Ok (s, rest)"
proof (cases "length s = 1 \<and> hd s < EmptyStringCode")
  case True
  then obtain b where s: "s = [b]" by (cases s) auto
  then have e: "AppendString [] s = [b]" using True by (simp add: AppendString_def)
  from s True single_byte_item[of b rest] show ?thesis
    using rlp_read_item(2)[of "[]" "[b]" rest False] e by simp
next
  case nosingle: False
  show ?thesis
  proof (cases "length s < 56")
    case True
    then have "AppendString [] s = (EmptyStringCode + of_nat (length s)) # s"
      using nosingle by (auto simp: AppendString_def appendStringHeader_def)
    with short_string_item[OF True nosingle, of rest] show ?thesis
      using rlp_read_item(2)[of "[EmptyStringCode + of_nat (length s)]" s rest False] by simp
  next
    case False
    then have e: "AppendString [] s = appendLenPrefix 0xB7 (length s) @ s"
      using nosingle by (auto simp: AppendString_def appendStringHeader_def)
    have "rlp_header (appendLenPrefix 0xB7 (length s) @ s @ rest) = Ok (False, int (length s))"
      and "headerSize (appendLenPrefix 0xB7 (length s) @ s @ rest) = int (length (appendLenPrefix 0xB7 (length s)))"
      using appendLenPrefix_item[of s "0xB7" rest] assms False e by auto
    from rlp_read_item(2)[OF this] show ?thesis by (simp add: e)
  qed
qed

lemma rlp_List_AppendList:
  assumes "length (AppendList [] build @ rest) < 2 ^ 63"
  shows "rlp_List (AppendList [] build @ rest) = Ok (build [], rest)"
proof (cases "length (build []) < 56")
  case True
  then have "AppendList [] build = (EmptyListCode + of_nat (length (build []))) # build []"
    by (simp add: AppendList_def appendListHeader_def Let_def)
  with short_list_item[OF True, of rest] show ?thesis
    using rlp_read_item(1)[of "[EmptyListCode + of_nat (length (build []))]" "build []" rest True] by simp
next
  case False
  then have e: "AppendList [] build = appendLenPrefix 0xF7 (length (build [])) @ build []"
    by (simp add: AppendList_def appendListHeader_def Let_def)
  have "rlp_header (appendLenPrefix 0xF7 (length (build [])) @ build [] @ rest) = Ok (True, int (length (build [])))"
    and "headerSize (appendLenPrefix 0xF7 (length (build [])) @ build [] @ rest)
           = int (length (appendLenPrefix 0xF7 (length (build []))))"
    using appendLenPrefix_item[of "build []" "0xF7" rest] assms False e by auto
  from rlp_read_item(1)[OF this] show ?thesis by (simp add: e)
qed

lemma length_AppendList_ge: "length (build []) \<le> length (AppendList [] build)"
  by (simp add: AppendList_def appendListHeader_def Let_def)

lemma AppendList_nonempty: "AppendList [] build \<noteq> []"
  by (simp add: AppendList_def appendListHeader_def appendLenPrefix_def Let_def)

text \<open>A list item of known payload, as the struct decoders meet it.\<close>

lemma rlp_List_fields:
  assumes "length (AppendList [] (\<lambda>p. p @ s)) + length rest < 2 ^ 62"
  shows "rlp_List (AppendList [] (\<lambda>p. p @ s) @ rest) = Ok (s, rest)"
    and "length s + length rest < 2 ^ 62"
  using assms rlp_List_AppendList[of "\<lambda>p. p @ s" rest] length_AppendList_ge[of "\<lambda>p. p @ s"]
  by simp_all

lemma rlp_List_empty:
  "length (AppendList [] (\<lambda>p. p)) + length rest < 2 ^ 62 \<Longrightarrow> rlp_List (AppendList [] (\<lambda>p. p) @ rest) = Ok ([], rest)"
  using rlp_List_fields(1)[of "[]" rest] by simp

section \<open>Round trip of integers\<close>

lemma rlp_Bytes_empty: "rlp_Bytes (EmptyStringCode # rest) = Ok ([], rest)"
  using short_string_item[of "[]" rest] rlp_read_item(2)[of "[EmptyStringCode]" "[]" rest False]
  by simp

lemma hd_dropWhile_zero: "dropWhile (\<lambda>b. b = 0) bs \<noteq> [] \<Longrightarrow> hd (dropWhile (\<lambda>b. b = 0) bs) \<noteq> (0 :: u8)"
  using hd_dropWhile by blast

lemma dropWhile_zero_Nil: "dropWhile (\<lambda>b. b = 0) bs = [] \<Longrightarrow> be_val bs = 0"
  by (metis be_val_Nil be_val_dropWhile_zero)

lemma len_bytes_be_val: "bs = [] \<or> hd bs \<noteq> 0 \<Longrightarrow> len_bytes (be_val bs) [] = bs"
proof (induction bs rule: rev_induct)
  case Nil
  then show ?case by (simp add: len_bytes.simps)
next
  case (snoc b bs)
  have ub: "unat b < 256" by (rule unat_byte_less)
  have pos: "be_val (bs @ [b]) \<noteq> 0"
  proof (cases bs)
    case Nil
    with snoc.prems show ?thesis by (simp add: be_val_append unat_eq_0)
  next
    case (Cons c cs)
    with snoc.prems have "0 < unat c" by (simp add: unat_gt_0)
    then have "0 < unat c * 256 ^ length cs" by simp
    with Cons show ?thesis by (simp add: be_val_append)
  qed
  have "be_val (bs @ [b]) div 256 = be_val bs" "be_val (bs @ [b]) mod 256 = unat b"
    using ub by (simp_all add: be_val_append)
  moreover have "len_bytes (be_val bs) [] = bs"
    using snoc by (cases bs) auto
  ultimately show ?case using len_bytes_step[OF pos] by simp
qed

text \<open>Stripping the leading zeros of a big-endian array gives the minimal bytes of its value.\<close>

lemma strip_zeros: "dropWhile (\<lambda>b. b = 0) bs = len_bytes (be_val bs) []"
proof -
  let ?d = "dropWhile (\<lambda>b. b = 0) bs"
  have "?d = [] \<or> hd ?d \<noteq> 0" using hd_dropWhile_zero by blast
  from len_bytes_be_val[OF this] show ?thesis by (simp add: be_val_dropWhile_zero)
qed

lemma AppendString_Nil: "AppendString [] [] = [EmptyStringCode]"
  by (simp add: AppendString_def appendStringHeader_def)

lemma AppendUint64_minimal: "AppendUint64 [] v = AppendString [] (len_bytes (unat v) [])"
  by (simp add: AppendUint64_def strip_zeros AppendString_Nil len_bytes.simps)

lemma AppendUint128_minimal:
  "AppendUint128 [] hi lo = AppendString [] (len_bytes (unat hi * 2 ^ 64 + unat lo) [])"
  by (simp add: AppendUint128_def AppendUint64_minimal strip_zeros put_be_acc[of 8 hi "put_be 8 lo []"]
      be_val_append)

lemma rlp_Uint64_AppendUint64:
  assumes "length (AppendUint64 [] v @ rest) < 2 ^ 63"
  shows "rlp_Uint64 (AppendUint64 [] v @ rest) = Ok (v, rest)"
proof (cases "v = 0")
  case True
  then show ?thesis
    by (simp add: AppendUint64_def rlp_Uint64_def rlp_Bytes_empty leftPadUint64_def)
next
  case False
  define b where "b = dropWhile (\<lambda>b. b = 0) (put_be 8 v [])"
  have "unat v \<noteq> 0" using False by (simp add: unat_eq_0)
  then have ne: "b \<noteq> []" using dropWhile_zero_Nil[of "put_be 8 v []"] by (auto simp: b_def)
  then have hd: "hd b \<noteq> 0" unfolding b_def by (rule hd_dropWhile_zero)
  have len: "length b \<le> 8" using length_dropWhile_le[of _ "put_be 8 v []"] by (simp add: b_def)
  have "rlp_Bytes (AppendString [] b @ rest) = Ok (b, rest)"
    using assms False by (intro rlp_Bytes_AppendString) (simp add: AppendUint64_def b_def)
  moreover have "leftPadUint64 b = Ok v"
    using ne hd len by (simp add: leftPadUint64_def) (simp add: b_def)
  ultimately show ?thesis
    using False by (simp add: AppendUint64_def rlp_Uint64_def b_def[symmetric])
qed

lemma ucast_ucast_u8 [simp]: "ucast (ucast (v :: u8) :: u64) = v"
  by (rule bit_word_eqI) (simp add: bit_simps)

lemma rlp_Uint8_AppendUint8:
  assumes "length (AppendUint8 [] v @ rest) < 2 ^ 63"
  shows "rlp_Uint8 (AppendUint8 [] v @ rest) = Ok (v, rest)"
proof -
  have "\<not> 0xFF < (ucast v :: u64)"
    using unat_byte_less[of v] by (simp add: word_less_nat_alt unsigned_ucast_eq take_bit_eq_mod)
  then show ?thesis
    using assms rlp_Uint64_AppendUint64[of "ucast v" rest]
    by (simp add: rlp_Uint8_def AppendUint8_def)
qed

lemma rlp_Uint32_AppendUint32:
  assumes "length (AppendUint32 [] v @ rest) < 2 ^ 63"
  shows "rlp_Uint32 (AppendUint32 [] v @ rest) = Ok (v, rest)"
proof -
  have "ucast (ucast v :: u64) = v" by (rule bit_word_eqI) (simp add: bit_simps)
  moreover have "\<not> 0xFFFFFFFF < (ucast v :: u64)"
    using unsigned_less[of v, where ?'a = nat] by (simp add: word_less_nat_alt unsigned_ucast_eq take_bit_eq_mod)
  ultimately show ?thesis
    using assms rlp_Uint64_AppendUint64[of "ucast v" rest]
    by (simp add: rlp_Uint32_def AppendUint32_def)
qed

lemma rlp_Uint16_AppendUint16:
  assumes "length (AppendUint16 [] v @ rest) < 2 ^ 63"
  shows "rlp_Uint16 (AppendUint16 [] v @ rest) = Ok (v, rest)"
proof -
  have "ucast (ucast v :: u64) = v" by (rule bit_word_eqI) (simp add: bit_simps)
  moreover have "\<not> 0xFFFF < (ucast v :: u64)"
    using unsigned_less[of v, where ?'a = nat] by (simp add: word_less_nat_alt unsigned_ucast_eq take_bit_eq_mod)
  ultimately show ?thesis
    using assms rlp_Uint64_AppendUint64[of "ucast v" rest]
    by (simp add: rlp_Uint16_def AppendUint16_def)
qed

lemma rlp_Bool_AppendBool:
  assumes "length (AppendBool [] v @ rest) < 2 ^ 63"
  shows "rlp_Bool (AppendBool [] v @ rest) = Ok (v, rest)"
  using assms rlp_Uint64_AppendUint64[of 1 rest] rlp_Uint64_AppendUint64[of 0 rest]
  by (auto simp: rlp_Bool_def rlp_Uint8_def AppendBool_def split: if_splits)

lemma pad_minimal:
  assumes "length bs = n"
  shows "replicate (n - length (len_bytes (be_val bs) [])) 0 @ len_bytes (be_val bs) [] = bs"
proof (rule be_val_inj)
  have "length (len_bytes (be_val bs) []) \<le> n"
    using assms be_val_less[of bs] by (intro length_len_bytes) simp
  then show "length (replicate (n - length (len_bytes (be_val bs) [])) 0 @ len_bytes (be_val bs) []) = length bs"
    using assms by simp
qed (simp add: be_val_append be_val_len_bytes)

lemma rlp_Uint128_AppendUint128:
  assumes "length (AppendUint128 [] hi lo @ rest) < 2 ^ 63"
  shows "rlp_Uint128 (AppendUint128 [] hi lo @ rest) = Ok ((hi, lo), rest)"
proof -
  define a where "a = put_be 8 hi [] @ put_be 8 lo []"
  define b where "b = len_bytes (be_val a) []"
  have av: "be_val a = unat hi * 2 ^ 64 + unat lo" by (simp add: a_def be_val_append)
  have e: "AppendUint128 [] hi lo = AppendString [] b" by (simp add: AppendUint128_minimal b_def av)
  have la: "length a = 16" by (simp add: a_def)
  then have pad: "replicate (16 - length b) 0 @ b = a" unfolding b_def by (rule pad_minimal)
  then have len: "length b \<le> 16" using la by (metis length_append le_add2)
  have z: "b = [] \<Longrightarrow> hi = 0 \<and> lo = 0"
    using be_val_len_bytes[of "be_val a"] av by (auto simp: b_def unat_eq_0)
  have hd: "b \<noteq> [] \<Longrightarrow> hd b \<noteq> 0"
    using hd_len_bytes[of "be_val a"] by (cases "be_val a = 0") (auto simp: b_def len_bytes.simps)
  have "rlp_Bytes (AppendString [] b @ rest) = Ok (b, rest)"
    using assms e by (intro rlp_Bytes_AppendString) simp
  moreover have "get_be (take 8 a) = hi" "get_be (drop 8 a) = lo" by (simp_all add: a_def)
  ultimately show ?thesis
    using len z hd unfolding e rlp_Uint128_def by (cases "b = []") (simp_all add: Let_def pad)
qed

lemma rlp_FixedBytes_AppendString:
  "length s = n \<Longrightarrow> length (AppendString [] s @ rest) < 2 ^ 63 \<Longrightarrow>
     rlp_FixedBytes n (AppendString [] s @ rest) = Ok (s, rest)"
  by (simp add: rlp_FixedBytes_def rlp_Bytes_AppendString)

lemma rlp_Done_Nil [simp]: "rlp_Done [] = Ok ()"
  by (simp add: rlp_Done_def)

lemma rlp_Done_eq_Ok [go_simps]: "rlp_Done s = Ok y \<longleftrightarrow> s = []"
  by (simp add: rlp_Done_def go_simps)

section \<open>Accepted inputs are canonical\<close>

text \<open>The long-form headers the decoder accepts: either the payload is there, or the sum wrapped.\<close>

lemma rlp_header_long_cases:
  assumes h: "rlp_header_long list k s = Ok (list', l)" and k: "1 \<le> k" "k \<le> 8" and len: "length s < 2 ^ 63"
  obtains (fits) b lb p r where "list' = list" "s = b # lb @ p @ r" "length lb = k"
      "lb = len_bytes (length p) []" "56 \<le> length p" "l = int (length p)"
    | (wraps) b lb r where "list' = list" "s = b # lb @ r" "length lb = k"
      "2 ^ 64 - 9 \<le> be_val lb" "k = 8" "l = int (be_val lb) - 2 ^ 64"
proof -
  obtain b t where s: "s = b # t" and kt: "k \<le> length t"
    using h k by (cases s) (auto simp: rlp_header_long_def Let_def split: if_splits)
  define lb where "lb = take k t"
  define u where "u = drop k t"
  have t: "t = lb @ u" and lk: "length lb = k" using kt by (auto simp: lb_def u_def)
  have hd0: "hd lb \<noteq> 0" and l56: "\<not> get_be lb < 56" and l: "l = sint (get_be lb)" and list: "list' = list"
    and chk: "\<not> (of_nat (length s) :: u64) < 1 + of_nat k + get_be lb"
    using h s by (auto simp: rlp_header_long_def Let_def lb_def split: if_splits)
  have ug: "unat (get_be lb) = be_val lb" using lk k by (simp add: unat_get_be)
  then have v56: "56 \<le> be_val lb" using l56 by (simp add: word_less_nat_alt)
  have lb_ne: "lb \<noteq> []" using lk k by auto
  then have can: "lb = len_bytes (be_val lb) []" using len_bytes_be_val[of lb] hd0 by simp
  have us: "unat (of_nat (length s) :: u64) = length s"
    using len by (intro unat_of_nat_u64) simp
  have sum: "(1 + of_nat k + get_be lb :: u64) = of_nat (1 + k + be_val lb)"
    by (simp add: get_be_of_nat)
  show ?thesis
  proof (cases "1 + k + be_val lb < 2 ^ 64")
    case True
    then have "1 + k + be_val lb \<le> length s"
      using chk us unat_of_nat_u64[OF True] by (simp only: sum word_less_nat_alt not_less)
    then have lu: "be_val lb \<le> length u" using s t lk by simp
    define p where "p = take (be_val lb) u"
    define r where "r = drop (be_val lb) u"
    have u: "u = p @ r" and lp: "length p = be_val lb" using lu by (auto simp: p_def r_def)
    have "be_val lb < 2 ^ 63" using lu len s t by simp
    then have "l = int (length p)" using l lp by (simp add: get_be_of_nat sint_of_nat_u64)
    moreover have "lb = len_bytes (length p) []" unfolding lp by (rule can)
    moreover have "s = b # lb @ p @ r" unfolding s t u by (rule refl)
    moreover have "56 \<le> length p" using v56 lp by simp
    ultimately show ?thesis using fits list lk by blast
  next
    case False
    have bv: "be_val lb < 256 ^ k" using be_val_less[of lb] lk by simp
    have k8: "k = 8"
    proof (rule ccontr)
      assume "k \<noteq> 8"
      then have "k \<le> 7" using k by simp
      then have "be_val lb < 256 ^ 7"
        using bv power_increasing[of k 7 "256 :: nat"] by linarith
      with False k show False by simp
    qed
    have "sint (get_be lb) = int (be_val lb) - 2 ^ 64"
    proof -
      have "(of_nat (be_val lb) :: u64) = of_int (int (be_val lb) - 2 ^ 64)"
        by simp
      moreover have "sint (of_int (int (be_val lb) - 2 ^ 64) :: u64) = int (be_val lb) - 2 ^ 64"
        using False k8 bv by (simp only: signed_of_int) (simp add: signed_take_bit_int_eq_self_iff)
      ultimately show ?thesis by (metis get_be_of_nat)
    qed
    then show ?thesis using wraps[of b lb u] list s t lk False k8 l by simp
  qed
qed

text \<open>Every header the decoder accepts, by the form of its first byte.\<close>

lemma byte_split: "m \<le> unat b \<Longrightarrow> b = of_nat m + of_nat (unat b - m)" for b :: u8
  by (simp flip: of_nat_add)

lemma rlp_header_cases:
  assumes h: "rlp_header s = Ok (list, l)" and len: "length s < 2 ^ 63"
  obtains (single) b r where "s = b # r" "b < EmptyStringCode" "\<not> list" "l = 1"
    | (short_string) p r where "s = (EmptyStringCode + of_nat (length p)) # p @ r" "length p < 56"
        "\<not> (length p = 1 \<and> hd p < EmptyStringCode)" "\<not> list" "l = int (length p)"
    | (short_list) p r where "s = (EmptyListCode + of_nat (length p)) # p @ r" "length p < 56"
        "list" "l = int (length p)"
    | (long) code p r where "s = appendLenPrefix code (length p) @ p @ r" "56 \<le> length p"
        "code = (if list then 0xF7 else 0xB7)" "l = int (length p)"
    | (wrapped) lb r where "s = (if list then 0xFF else 0xBF) # lb @ r" "length lb = 8"
        "2 ^ 64 - 9 \<le> be_val lb" "l = int (be_val lb) - 2 ^ 64"
proof -
  obtain b t where s: "s = b # t" using h by (cases s) (auto simp: rlp_header_def)
  consider (1) "b < EmptyStringCode" | (2) "\<not> b < EmptyStringCode" "b \<le> 0xB7"
    | (3) "\<not> b < EmptyStringCode" "\<not> b \<le> 0xB7" "(0xB8 \<le> b \<and> b \<le> 0xBF) \<or> 0xF8 \<le> b"
    | (4) "\<not> b < EmptyStringCode" "\<not> b \<le> 0xB7" "\<not> ((0xB8 \<le> b \<and> b \<le> 0xBF) \<or> 0xF8 \<le> b)"
    by blast
  then show ?thesis
  proof cases
    case 1
    then show ?thesis using h s single by (auto simp: rlp_header_def)
  next
    case 2
    define n where "n = unat (b - EmptyStringCode)"
    have h': "\<not> length s < 1 + n" "\<not> (n = 1 \<and> s ! 1 < EmptyStringCode)" "\<not> list" "l = int n"
      using h 2 by (auto simp: rlp_header_def s n_def Let_def split: if_splits)
    have n: "n = unat b - 128" "128 \<le> unat b" "unat b \<le> 183"
      using 2 by (auto simp: n_def unat_sub word_le_nat_alt word_less_nat_alt EmptyStringCode_def)
    then have b: "b = EmptyStringCode + of_nat n"
      using byte_split[of 128 b] by (simp add: EmptyStringCode_def)
    define p where "p = take n t"
    have lp: "length p = n" using h'(1) s by (simp add: p_def)
    have "\<not> (length p = 1 \<and> hd p < EmptyStringCode)"
    proof
      assume a: "length p = 1 \<and> hd p < EmptyStringCode"
      then have "n = 1" "t \<noteq> []" using lp by (auto simp: p_def)
      then have "s ! 1 = hd p" unfolding s p_def by (simp add: hd_conv_nth)
      with a lp h'(2) show False by simp
    qed
    moreover have "s = (EmptyStringCode + of_nat (length p)) # p @ drop n t"
      unfolding s lp b[symmetric] by (simp add: p_def)
    ultimately show ?thesis using short_string[of p "drop n t"] lp h'(3,4) n by simp
  next
    case 3
    define list' where "list' = (0xF8 \<le> b)"
    define code :: u8 where "code = (if list' then 0xF7 else 0xB7)"
    define k where "k = unat (b - code)"
    have hl: "rlp_header_long list' k s = Ok (list, l)"
      using h 3 by (simp add: rlp_header_def s Let_def list'_def code_def k_def)
    have k: "1 \<le> k" "k \<le> 8" and b: "b = code + of_nat k" and b8: "k = 8 \<Longrightarrow> b = (if list' then 0xFF else 0xBF)"
    proof -
      have ub: "unat b < 256" by (rule unat_byte_less)
      have kk: "k = unat b - unat code" and le: "unat code \<le> unat b"
        using 3 by (auto simp: k_def code_def list'_def unat_sub word_le_nat_alt)
      show "1 \<le> k" "k \<le> 8"
        using 3 ub kk by (auto simp: code_def list'_def word_le_nat_alt split: if_splits)
      show b: "b = code + of_nat k" using byte_split[OF le] kk by simp
      show "k = 8 \<Longrightarrow> b = (if list' then 0xFF else 0xBF)" using b by (auto simp: code_def)
    qed
    show ?thesis
    proof (rule rlp_header_long_cases[OF hl k len])
      fix b' lb p r
      assume a: "list = list'" "s = b' # lb @ p @ r" "length lb = k"
        "lb = len_bytes (length p) []" "56 \<le> length p" "l = int (length p)"
      have "s = appendLenPrefix code (length p) @ p @ r"
        using a s b by (auto simp: appendLenPrefix_def Let_def)
      then show thesis using a(1,5,6) by (intro long[of code p r]) (simp_all add: code_def)
    next
      fix b' lb r
      assume a: "list = list'" "s = b' # lb @ r" "length lb = k"
        "2 ^ 64 - 9 \<le> be_val lb" "k = 8" "l = int (be_val lb) - 2 ^ 64"
      then show thesis using wrapped[of lb r] b8 s by simp
    qed
  next
    case 4
    define n where "n = unat (b - EmptyListCode)"
    have h': "\<not> length s < 1 + n" "list" "l = int n"
      using h 4 by (auto simp: rlp_header_def s n_def Let_def split: if_splits)
    have n: "n = unat b - 192" "192 \<le> unat b" "unat b \<le> 247"
      using 4 by (auto simp: n_def unat_sub word_le_nat_alt word_less_nat_alt EmptyListCode_def)
    then have b: "b = EmptyListCode + of_nat n"
      using byte_split[of 192 b] by (simp add: EmptyListCode_def)
    define p where "p = take n t"
    have lp: "length p = n" using h'(1) s by (simp add: p_def)
    have "s = (EmptyListCode + of_nat (length p)) # p @ drop n t"
      unfolding s lp b[symmetric] by (simp add: p_def)
    then show ?thesis using short_list[of p "drop n t"] lp h'(2,3) n by simp
  qed
qed

text \<open>A wrapped length makes \<open>Bytes\<close> and \<open>List\<close> slice with a negative length.\<close>

lemma rlp_header_wrapped:
  assumes "length lb = 8" and "2 ^ 64 - 9 \<le> be_val lb" and len: "length lb + length r < 2 ^ 62"
  shows "rlp_header ((if list then 0xFF else 0xBF) # lb @ r) = Ok (list, int (be_val lb) - 2 ^ 64)"
    and "headerSize ((if list then 0xFF else 0xBF) # lb @ r) = 9"
proof -
  have bv: "be_val lb < 2 ^ 64" using be_val_less[of lb] assms(1) by simp
  have ug: "unat (get_be lb) = be_val lb" using assms(1) by (simp add: unat_get_be)
  have hd: "hd lb \<noteq> 0"
  proof
    assume h0: "hd lb = 0"
    obtain x xs where x: "lb = x # xs" using assms(1) by (cases lb) auto
    then have "be_val lb < 256 ^ 7" using h0 assms(1) be_val_less[of xs] by simp
    with assms(2) show False by simp
  qed
  have "1 + of_nat 8 + get_be lb = (of_nat (9 + be_val lb) :: u64)" by (simp add: get_be_of_nat)
  also have "\<dots> = of_nat (9 + be_val lb - 2 ^ 64)"
    using assms(2) by (simp add: of_nat_diff)
  finally have sum: "1 + of_nat 8 + get_be lb = (of_nat (9 + be_val lb - 2 ^ 64) :: u64)" .
  have "unat (of_nat (9 + length r) :: u64) = 9 + length r"
    "unat (of_nat (9 + be_val lb - 2 ^ 64) :: u64) = 9 + be_val lb - 2 ^ 64"
    using bv len by (auto intro!: unat_of_nat_u64 simp del: of_nat_add of_nat_diff)
  then have "\<not> (of_nat (9 + length r) :: u64) < 1 + of_nat 8 + get_be lb"
    unfolding sum word_less_nat_alt using bv by simp
  moreover have "sint (get_be lb) = int (be_val lb) - 2 ^ 64"
  proof -
    have "(of_nat (be_val lb) :: u64) = of_int (int (be_val lb) - 2 ^ 64)" by simp
    moreover have "sint (of_int (int (be_val lb) - 2 ^ 64) :: u64) = int (be_val lb) - 2 ^ 64"
      using assms bv by (simp only: signed_of_int) (simp add: signed_take_bit_int_eq_self_iff)
    ultimately show ?thesis by (metis get_be_of_nat)
  qed
  moreover have "\<not> get_be lb < 56" using ug assms(2) by (simp add: word_less_nat_alt)
  ultimately have "\<And>b. rlp_header_long list 8 (b # lb @ r) = Ok (list, int (be_val lb) - 2 ^ 64)"
    using hd assms(1) by (simp add: rlp_header_long_def Let_def)
  then show "rlp_header ((if list then 0xFF else 0xBF) # lb @ r) = Ok (list, int (be_val lb) - 2 ^ 64)"
    by (cases list) (simp_all add: rlp_header_def EmptyStringCode_def)
  show "headerSize ((if list then 0xFF else 0xBF) # lb @ r) = 9"
    by (simp add: headerSize_def EmptyStringCode_def)
qed

lemma rlp_read_wrapped:
  assumes "length lb = 8" and "2 ^ 64 - 9 \<le> be_val lb" and "length lb + length r < 2 ^ 62"
  shows "rlp_Bytes (0xBF # lb @ r) = Panic ''slice bounds out of range''"
    and "rlp_List (0xFF # lb @ r) = Panic ''slice bounds out of range''"
proof -
  have bv: "be_val lb < 2 ^ 64" using be_val_less[of lb] assms(1) by simp
  show "rlp_Bytes (0xBF # lb @ r) = Panic ''slice bounds out of range''"
    using bv rlp_header_wrapped[of lb r False] assms by (simp add: rlp_Bytes_def go_slice_def)
  show "rlp_List (0xFF # lb @ r) = Panic ''slice bounds out of range''"
    using bv rlp_header_wrapped[of lb r True] assms by (simp add: rlp_List_def go_slice_def)
qed

section \<open>Exact behaviour of the readers\<close>

lemma AppendString_cases:
  "b < EmptyStringCode \<Longrightarrow> AppendString [] [b] = [b]"
  "\<not> (length p = 1 \<and> hd p < EmptyStringCode) \<Longrightarrow> length p < 56 \<Longrightarrow>
     AppendString [] p = (EmptyStringCode + of_nat (length p)) # p"
  "56 \<le> length p \<Longrightarrow> AppendString [] p = appendLenPrefix 0xB7 (length p) @ p"
  by (auto simp: AppendString_def appendStringHeader_def)

lemma AppendList_cases:
  "length p < 56 \<Longrightarrow> AppendList [] (\<lambda>dst. dst @ p) = (EmptyListCode + of_nat (length p)) # p"
  "56 \<le> length p \<Longrightarrow> AppendList [] (\<lambda>dst. dst @ p) = appendLenPrefix 0xF7 (length p) @ p"
  by (auto simp: AppendList_def appendListHeader_def)

text \<open>An item with an accepted header is an encoded string, an encoded list, or a wrapped length.\<close>

lemma rlp_header_item:
  assumes "rlp_header s = Ok (list, l)" and "length s < 2 ^ 63"
  obtains (string) p r where "s = AppendString [] p @ r" "\<not> list"
    | (list) p r where "s = AppendList [] (\<lambda>dst. dst @ p) @ r" "list"
    | (wrapped) lb r where "s = (if list then 0xFF else 0xBF) # lb @ r" "length lb = 8"
        "2 ^ 64 - 9 \<le> be_val lb"
proof (rule rlp_header_cases[OF assms])
  fix b r assume "s = b # r" "b < EmptyStringCode" "\<not> list"
  then show thesis using string[of "[b]" r] by (simp add: AppendString_cases(1))
next
  fix p r assume "s = (EmptyStringCode + of_nat (length p)) # p @ r" "length p < 56"
    "\<not> (length p = 1 \<and> hd p < EmptyStringCode)" "\<not> list"
  then show thesis using string[of p r] AppendString_cases(2)[of p] by simp
next
  fix p r assume "s = (EmptyListCode + of_nat (length p)) # p @ r" "length p < 56" "list"
  then show thesis using list[of p r] by (simp add: AppendList_cases(1))
next
  fix code p r assume "s = appendLenPrefix code (length p) @ p @ r" "56 \<le> length p"
    "code = (if list then 0xF7 else 0xB7)"
  then show thesis using list[of p r] string[of p r]
    by (cases list) (simp_all add: AppendList_cases(2) AppendString_cases(3))
next
  fix lb r assume "s = (if list then 0xFF else 0xBF) # lb @ r" "length lb = 8" "2 ^ 64 - 9 \<le> be_val lb"
  then show thesis by (rule wrapped)
qed

lemma rlp_Bytes_eq_Ok:
  assumes "length s < 2 ^ 62"
  shows "rlp_Bytes s = Ok (b, rest) \<longleftrightarrow> s = AppendString [] b @ rest"
proof
  assume r: "rlp_Bytes s = Ok (b, rest)"
  then obtain l where h: "rlp_header s = Ok (False, l)"
    by (auto simp: rlp_Bytes_def go_simps split: if_splits)
  have "length s < 2 ^ 63" using assms by simp
  with h show "s = AppendString [] b @ rest"
  proof (cases rule: rlp_header_item)
    case (string p q)
    then show ?thesis using r assms rlp_Bytes_AppendString[of p q] by simp
  next
    case (wrapped lb q)
    then show ?thesis
      using r assms rlp_read_wrapped(1)[of lb q] by simp
  qed simp
next
  assume "s = AppendString [] b @ rest"
  then show "rlp_Bytes s = Ok (b, rest)" using assms rlp_Bytes_AppendString[of b rest] by simp
qed

lemma rlp_List_eq_Ok:
  assumes "length s < 2 ^ 62"
  shows "rlp_List s = Ok (p, rest) \<longleftrightarrow> s = AppendList [] (\<lambda>dst. dst @ p) @ rest"
proof
  assume r: "rlp_List s = Ok (p, rest)"
  then obtain l where h: "rlp_header s = Ok (True, l)"
    by (auto simp: rlp_List_def go_simps split: if_splits)
  have "length s < 2 ^ 63" using assms by simp
  with h show "s = AppendList [] (\<lambda>dst. dst @ p) @ rest"
  proof (cases rule: rlp_header_item)
    case (list p' q)
    then show ?thesis using r assms rlp_List_AppendList[of "\<lambda>dst. dst @ p'" q] by simp
  next
    case (wrapped lb q)
    then show ?thesis
      using r assms rlp_read_wrapped(2)[of lb q] by simp
  qed simp
next
  assume "s = AppendList [] (\<lambda>dst. dst @ p) @ rest"
  then show "rlp_List s = Ok (p, rest)" using assms rlp_List_AppendList[of "\<lambda>dst. dst @ p" rest] by simp
qed

text \<open>The decoder panics exactly on a long-form header whose length bytes are within 9 of \<open>2 ^ 64\<close>.\<close>

definition overlong_header :: "u8 \<Rightarrow> bytes \<Rightarrow> bool" where
  "overlong_header code s = (9 \<le> length s \<and> hd s = code \<and> 2 ^ 64 - 9 \<le> be_val (take 8 (tl s)))"

lemma overlong_header_split:
  "overlong_header code s \<longleftrightarrow> (\<exists>lb r. s = code # lb @ r \<and> length lb = 8 \<and> 2 ^ 64 - 9 \<le> be_val lb)"
proof
  assume o: "overlong_header code s"
  then obtain t where "s = code # t" "8 \<le> length t" by (cases s) (auto simp: overlong_header_def)
  with o show "\<exists>lb r. s = code # lb @ r \<and> length lb = 8 \<and> 2 ^ 64 - 9 \<le> be_val lb"
    by (intro exI[of _ "take 8 t"] exI[of _ "drop 8 t"]) (simp add: overlong_header_def)
qed (auto simp: overlong_header_def)

lemma rlp_header_no_panic: "rlp_header s \<noteq> Panic m" "rlp_header s \<noteq> Diverge"
  by (auto simp: rlp_header_def rlp_header_long_def Let_def split: list.splits if_splits)

lemma rlp_Bytes_panics:
  assumes "length s < 2 ^ 62"
  shows "(\<exists>m. rlp_Bytes s = Panic m) \<longleftrightarrow> overlong_header 0xBF s"
proof
  assume "\<exists>m. rlp_Bytes s = Panic m"
  then obtain m where m: "rlp_Bytes s = Panic m" ..
  then obtain l where h: "rlp_header s = Ok (False, l)"
    using rlp_header_no_panic[of s]
    by (cases "rlp_header s") (auto simp: rlp_Bytes_def split: if_splits prod.splits)
  have "length s < 2 ^ 63" using assms by simp
  with h show "overlong_header 0xBF s"
  proof (cases rule: rlp_header_item)
    case (string p q)
    then show ?thesis using m assms rlp_Bytes_eq_Ok[of s p q] by simp
  next
    case (wrapped lb q)
    then show ?thesis unfolding overlong_header_split by auto
  qed simp
next
  assume "overlong_header 0xBF s"
  then obtain lb r where "s = 0xBF # lb @ r" "length lb = 8" "2 ^ 64 - 9 \<le> be_val lb"
    unfolding overlong_header_split by blast
  then show "\<exists>m. rlp_Bytes s = Panic m"
    using assms rlp_read_wrapped(1)[of lb r] by simp
qed

lemma rlp_List_panics:
  assumes "length s < 2 ^ 62"
  shows "(\<exists>m. rlp_List s = Panic m) \<longleftrightarrow> overlong_header 0xFF s"
proof
  assume "\<exists>m. rlp_List s = Panic m"
  then obtain m where m: "rlp_List s = Panic m" ..
  then obtain l where h: "rlp_header s = Ok (True, l)"
    using rlp_header_no_panic[of s]
    by (cases "rlp_header s") (auto simp: rlp_List_def split: if_splits prod.splits)
  have "length s < 2 ^ 63" using assms by simp
  with h show "overlong_header 0xFF s"
  proof (cases rule: rlp_header_item)
    case (list p q)
    then show ?thesis using m assms rlp_List_eq_Ok[of s p q] by simp
  next
    case (wrapped lb q)
    then show ?thesis unfolding overlong_header_split by auto
  qed simp
next
  assume "overlong_header 0xFF s"
  then obtain lb r where "s = 0xFF # lb @ r" "length lb = 8" "2 ^ 64 - 9 \<le> be_val lb"
    unfolding overlong_header_split by blast
  then show "\<exists>m. rlp_List s = Panic m"
    using assms rlp_read_wrapped(2)[of lb r] by simp
qed

lemma rlp_Uint64_eq_Ok:
  assumes "length s < 2 ^ 62"
  shows "rlp_Uint64 s = Ok (v, rest) \<longleftrightarrow> s = AppendUint64 [] v @ rest"
proof
  assume "rlp_Uint64 s = Ok (v, rest)"
  then obtain b where b: "s = AppendString [] b @ rest" and v: "leftPadUint64 b = Ok v"
    using assms by (auto simp: rlp_Uint64_def go_simps rlp_Bytes_eq_Ok)
  have "AppendUint64 [] v = AppendString [] b"
  proof (cases "b = []")
    case True
    then show ?thesis
      using v by (simp add: leftPadUint64_def AppendUint64_def AppendString_def appendStringHeader_def)
  next
    case False
    then have b8: "length b \<le> 8" "hd b \<noteq> 0" "v = get_be b"
      using v by (auto simp: leftPadUint64_def split: if_splits)
    then have "len_bytes (unat v) [] = b" using len_bytes_be_val[of b] by (simp add: unat_get_be)
    then show ?thesis by (simp add: AppendUint64_minimal)
  qed
  with b show "s = AppendUint64 [] v @ rest" by simp
qed (use assms rlp_Uint64_AppendUint64[of v rest] in simp)

section \<open>Properties\<close>

text \<open>C33. The decoder reads exactly the canonical encodings: a byte string, a list or a 64-bit integer
  is accepted from the front of a stream if and only if the stream starts with the encoder's output for
  it, and what follows is left unread. So decoding inverts encoding and no value has a second wire form.\<close>

theorem rlp_readers_exact:
  assumes "length s < 2 ^ 62"
  shows "(rlp_Bytes s = Ok (b, rest) \<longleftrightarrow> s = AppendString [] b @ rest)
    \<and> (rlp_List s = Ok (p, rest) \<longleftrightarrow> s = AppendList [] (\<lambda>dst. dst @ p) @ rest)
    \<and> (rlp_Uint64 s = Ok (v, rest) \<longleftrightarrow> s = AppendUint64 [] v @ rest)"
  using rlp_Bytes_eq_Ok[OF assms] rlp_List_eq_Ok[OF assms] rlp_Uint64_eq_Ok[OF assms] by simp

lemma rlp_readers_exact_witness:
  "rlp_Bytes [0x82, 0x12, 0x34, 0x7F] = Ok ([0x12, 0x34], [0x7F])
   \<and> rlp_List [0xC1, 0x34, 0x7F] = Ok ([0x34], [0x7F])"
proof -
  have "[0x82, 0x12, 0x34, 0x7F] = AppendString [] [0x12, 0x34] @ [0x7F :: u8]"
    by (simp add: AppendString_def appendStringHeader_def EmptyStringCode_def)
  moreover have "[0xC1, 0x34, 0x7F] = AppendList [] (\<lambda>dst. dst @ [0x34]) @ [0x7F :: u8]"
    by (simp add: AppendList_def appendListHeader_def EmptyListCode_def)
  ultimately show ?thesis
    using rlp_readers_exact[where s = "[0x82, 0x12, 0x34, 0x7F]" and b = "[0x12, 0x34]" and rest = "[0x7F]"]
      rlp_readers_exact[where s = "[0xC1, 0x34, 0x7F]" and p = "[0x34]" and rest = "[0x7F]"] by simp
qed

text \<open>C34. The decoder panics, instead of returning an error, exactly on an item whose header announces
  eight length bytes with a value of at least \<open>2 ^ 64 - 9\<close>: the length check wraps around, the length
  becomes a negative \<open>int\<close>, and the slice bounds are out of range.\<close>

theorem rlp_readers_panic:
  assumes "length s < 2 ^ 62"
  shows "((\<exists>m. rlp_Bytes s = Panic m) \<longleftrightarrow> overlong_header 0xBF s)
    \<and> ((\<exists>m. rlp_List s = Panic m) \<longleftrightarrow> overlong_header 0xFF s)"
  using rlp_Bytes_panics[OF assms] rlp_List_panics[OF assms] by simp

lemma rlp_readers_panic_witness:
  "\<exists>m. rlp_Bytes [0xBF, 0xFF, 0xFF, 0xFF, 0xFF, 0xFF, 0xFF, 0xFF, 0xFF] = Panic m"
  using rlp_readers_panic[of "[0xBF, 0xFF, 0xFF, 0xFF, 0xFF, 0xFF, 0xFF, 0xFF, 0xFF]"]
  by (simp add: overlong_header_def)

end
