(* ===== verification/Codec.thy ===== *)
theory Codec
  imports Types Rlp
begin

text \<open>
  The contract between an encoder and its decoder, as two locales. \<open>rlp_codec\<close> is what a sender
  relies on: a value that is encoded in front of other bytes is read back, and the other bytes are
  left. \<open>rlp_canonical\<close> adds what a verifier relies on: every accepted input is the encoding of
  the value that is returned, so a signed value has one wire form. The interpretations are the
  \<open>EncodeRLP\<close> and \<open>DecodeRLP\<close> methods of \<open>types/types.go\<close> and \<open>types/u128.go\<close>.
\<close>

named_theorems rlp_read

section \<open>Methods of the domain types\<close>

definition Round_EncodeRLP :: "bytes \<Rightarrow> round \<Rightarrow> bytes" where
  "Round_EncodeRLP dst r = AppendUint64 dst r"

definition Epoch_EncodeRLP :: "bytes \<Rightarrow> epoch \<Rightarrow> bytes" where
  "Epoch_EncodeRLP dst e = AppendUint64 dst e"

definition SeqNum_EncodeRLP :: "bytes \<Rightarrow> seqnum \<Rightarrow> bytes" where
  "SeqNum_EncodeRLP dst s = AppendUint64 dst s"

definition Round_DecodeRLP :: "bytes \<Rightarrow> (rlp_error, round \<times> bytes) go" where
  "Round_DecodeRLP s = rlp_Uint64 s"

definition Epoch_DecodeRLP :: "bytes \<Rightarrow> (rlp_error, epoch \<times> bytes) go" where
  "Epoch_DecodeRLP s = rlp_Uint64 s"

definition SeqNum_DecodeRLP :: "bytes \<Rightarrow> (rlp_error, seqnum \<times> bytes) go" where
  "SeqNum_DecodeRLP s = rlp_Uint64 s"

definition Hash_EncodeRLP :: "bytes \<Rightarrow> hash \<Rightarrow> bytes" where
  "Hash_EncodeRLP dst h = AppendString dst h"

definition Hash_DecodeRLP :: "bytes \<Rightarrow> (rlp_error, hash \<times> bytes) go" where
  "Hash_DecodeRLP s = rlp_FixedBytes 32 s"

definition BlockId_EncodeRLP :: "bytes \<Rightarrow> block_id \<Rightarrow> bytes" where
  "BlockId_EncodeRLP dst b = AppendString dst b"

definition BlockId_DecodeRLP :: "bytes \<Rightarrow> (rlp_error, block_id \<times> bytes) go" where
  "BlockId_DecodeRLP s = rlp_FixedBytes 32 s"

definition Stake_EncodeRLP :: "bytes \<Rightarrow> stake \<Rightarrow> bytes" where
  "Stake_EncodeRLP dst s = AppendString dst (dropWhile (\<lambda>b. b = 0) s)"

definition Stake_DecodeRLP :: "bytes \<Rightarrow> (rlp_error, stake \<times> bytes) go" where
  "Stake_DecodeRLP st = go_bind (rlp_Bytes st) (\<lambda>(b, rest).
     if 32 < length b then Err (ErrOther ''rlp: stake overflow'')
     else if 0 < length b \<and> hd b = 0 then Err ErrLeadingZero
     else Ok (replicate (32 - length b) 0 @ b, rest))"

text \<open>A node id is the 33-byte compressed public key.\<close>

definition SecpPubkeySize :: nat where "SecpPubkeySize = 33"

definition NodeId_EncodeRLP :: "bytes \<Rightarrow> node_id \<Rightarrow> bytes" where
  "NodeId_EncodeRLP dst n = AppendString dst n"

definition NodeId_DecodeRLP :: "bytes \<Rightarrow> (rlp_error, node_id \<times> bytes) go" where
  "NodeId_DecodeRLP s = rlp_FixedBytes SecpPubkeySize s"

definition NodeId_Cmp :: "node_id \<Rightarrow> node_id \<Rightarrow> int" where
  "NodeId_Cmp n x = bytes_compare n x"

definition U128_EncodeRLP :: "bytes \<Rightarrow> u128 \<Rightarrow> bytes" where
  "U128_EncodeRLP dst u = AppendUint128 dst (U128_Hi u) (U128_Lo u)"

definition U128_DecodeRLP :: "bytes \<Rightarrow> (rlp_error, u128 \<times> bytes) go" where
  "U128_DecodeRLP s = go_bind (rlp_Uint128 s) (\<lambda>((hi, lo), rest). Ok (U128FromHiLo hi lo, rest))"

lemma rlp_append_types [rlp_append]:
  "NO_MATCH [] dst \<Longrightarrow> Round_EncodeRLP dst r = dst @ Round_EncodeRLP [] r"
  "NO_MATCH [] dst \<Longrightarrow> Epoch_EncodeRLP dst r = dst @ Epoch_EncodeRLP [] r"
  "NO_MATCH [] dst \<Longrightarrow> SeqNum_EncodeRLP dst r = dst @ SeqNum_EncodeRLP [] r"
  "NO_MATCH [] dst \<Longrightarrow> Hash_EncodeRLP dst h = dst @ Hash_EncodeRLP [] h"
  "NO_MATCH [] dst \<Longrightarrow> BlockId_EncodeRLP dst h = dst @ BlockId_EncodeRLP [] h"
  "NO_MATCH [] dst \<Longrightarrow> Stake_EncodeRLP dst h = dst @ Stake_EncodeRLP [] h"
  "NO_MATCH [] dst \<Longrightarrow> NodeId_EncodeRLP dst h = dst @ NodeId_EncodeRLP [] h"
  "NO_MATCH [] dst \<Longrightarrow> U128_EncodeRLP dst u = dst @ U128_EncodeRLP [] u"
  by (simp_all add: Round_EncodeRLP_def Epoch_EncodeRLP_def SeqNum_EncodeRLP_def Hash_EncodeRLP_def
      BlockId_EncodeRLP_def Stake_EncodeRLP_def NodeId_EncodeRLP_def U128_EncodeRLP_def rlp_append)

section \<open>The contract\<close>

locale rlp_codec =
  fixes enc :: "'a \<Rightarrow> bytes"
    and dec :: "bytes \<Rightarrow> (rlp_error, 'a \<times> bytes) go"
    and wf :: "'a \<Rightarrow> bool"
  assumes dec_enc: "wf x \<Longrightarrow> length (enc x) + length rest < 2 ^ 62 \<Longrightarrow> dec (enc x @ rest) = Ok (x, rest)"
    and enc_nonempty: "wf x \<Longrightarrow> enc x \<noteq> []"
begin

lemma dec_enc_last: "wf x \<Longrightarrow> length (enc x) < 2 ^ 62 \<Longrightarrow> dec (enc x) = Ok (x, [])"
  using dec_enc[of x "[]"] by simp

lemma enc_inj: "wf x \<Longrightarrow> wf y \<Longrightarrow> length (enc x) < 2 ^ 62 \<Longrightarrow> enc x = enc y \<Longrightarrow> x = y"
  using dec_enc[of x "[]"] dec_enc[of y "[]"] by simp

lemma enc_prefix_free:
  assumes "wf x" "wf y" "length (enc x @ r) < 2 ^ 62" "enc x @ r = enc y @ r'"
  shows "x = y \<and> r = r'"
  using assms(3,4) dec_enc[OF assms(1), of r] dec_enc[OF assms(2), of r'] by (metis go.inject(1) length_append prod.inject)

lemma DecodeExact_enc: "wf x \<Longrightarrow> length (enc x) < 2 ^ 62 \<Longrightarrow> DecodeExact (enc x) dec = Ok x"
  using dec_enc[of x "[]"] by (simp add: DecodeExact_def)

lemma rlp_each_fuel_enc:
  assumes "\<forall>x\<in>set xs. wf x" and "length (concat (map enc xs)) < 2 ^ 62" and "length xs \<le> n"
  shows "rlp_each_fuel n dec (concat (map enc xs)) = Ok xs"
  using assms
proof (induction xs arbitrary: n)
  case (Cons x xs)
  obtain b s where bs: "enc x @ concat (map enc xs) = b # s"
    using enc_nonempty[of x] Cons.prems(1) by (cases "enc x") auto
  obtain m where n: "n = Suc m" using Cons.prems(3) by (cases n) auto
  have "dec (enc x @ concat (map enc xs)) = Ok (x, concat (map enc xs))"
    using Cons.prems by (intro dec_enc) simp_all
  moreover have "rlp_each_fuel m dec (concat (map enc xs)) = Ok xs"
    using Cons.prems n by (intro Cons.IH) simp_all
  ultimately show ?case using bs n by simp
qed simp

lemma length_le_concat_enc: "\<forall>x\<in>set xs. wf x \<Longrightarrow> length xs \<le> length (concat (map enc xs))"
proof (induction xs)
  case (Cons x xs)
  have "0 < length (enc x)" using enc_nonempty[of x] Cons.prems by simp
  moreover have "length xs \<le> length (concat (map enc xs))" using Cons by simp
  ultimately show ?case by (simp only: list.map concat.simps length_append list.size)
qed simp

lemma rlp_each_enc:
  "\<forall>x\<in>set xs. wf x \<Longrightarrow> length (concat (map enc xs)) < 2 ^ 62 \<Longrightarrow> rlp_each dec (concat (map enc xs)) = Ok xs"
  unfolding rlp_each_def by (rule rlp_each_fuel_enc[OF _ _ length_le_concat_enc])

lemma rlp_each_payload:
  assumes "\<forall>x\<in>set xs. wf x" and "length (AppendList [] (\<lambda>q. q @ concat (map enc xs))) < 2 ^ 62"
  shows "rlp_each dec (concat (map enc xs)) = Ok xs"
  using assms rlp_List_fields(2)[of "concat (map enc xs)" "[]"] by (intro rlp_each_enc) simp_all

lemmas reads = dec_enc dec_enc_last rlp_each_payload

end

locale rlp_canonical = rlp_codec +
  assumes canonical: "length s < 2 ^ 62 \<Longrightarrow> dec s = Ok (x, rest) \<Longrightarrow> wf x \<and> s = enc x @ rest"
begin

lemma dec_iff: "length s < 2 ^ 62 \<Longrightarrow> dec s = Ok (x, rest) \<longleftrightarrow> wf x \<and> s = enc x @ rest"
  using canonical dec_enc by auto

text \<open>Two inputs that decode to one value are equal: no second wire form.\<close>

lemma DecodeExact_unique:
  assumes "length s < 2 ^ 62" "length t < 2 ^ 62" "DecodeExact s dec = Ok x" "DecodeExact t dec = Ok x"
  shows "s = t"
  using assms canonical[of s x "[]"] canonical[of t x "[]"]
  by (auto simp: DecodeExact_def go_simps split: if_splits)

lemma dec_shorter: "length s < 2 ^ 62 \<Longrightarrow> dec s = Ok (x, rest) \<Longrightarrow> length rest < length s"
  using canonical[of s x rest] enc_nonempty[of x] by fastforce

lemma rlp_each_fuel_canonical:
  assumes "length s < 2 ^ 62" and "rlp_each_fuel n dec s = Ok xs"
  shows "(\<forall>x\<in>set xs. wf x) \<and> s = concat (map enc xs)"
  using assms
proof (induction n arbitrary: s xs)
  case 0
  then show ?case by (cases s) auto
next
  case (Suc n)
  show ?case
  proof (cases s)
    case (Cons b s')
    from Suc.prems(2) Cons obtain x rest ys where d: "dec s = Ok (x, rest)"
      and r: "rlp_each_fuel n dec rest = Ok ys" and xs: "xs = x # ys"
      by (auto simp: go_simps)
    from canonical[OF Suc.prems(1) d] have c: "wf x" "s = enc x @ rest" by auto
    have "length rest < 2 ^ 62" using dec_shorter[OF Suc.prems(1) d] Suc.prems(1) by linarith
    from Suc.IH[OF this r] c xs show ?thesis by simp
  qed (use Suc.prems in auto)
qed

lemma rlp_each_canonical:
  "length s < 2 ^ 62 \<Longrightarrow> rlp_each dec s = Ok xs \<Longrightarrow> (\<forall>x\<in>set xs. wf x) \<and> s = concat (map enc xs)"
  unfolding rlp_each_def by (rule rlp_each_fuel_canonical)

end

section \<open>Items and domain types are canonical codecs\<close>

lemma AppendString_nonempty: "AppendString [] s \<noteq> []"
  by (simp add: AppendString_def appendStringHeader_def appendLenPrefix_def Let_def)

interpretation bytes_rlp: rlp_canonical "AppendString []" rlp_Bytes "\<lambda>_. True"
  by unfold_locales (simp_all add: AppendString_nonempty rlp_Bytes_AppendString rlp_Bytes_eq_Ok)

interpretation u64_rlp: rlp_canonical "AppendUint64 []" rlp_Uint64 "\<lambda>_. True"
  by unfold_locales
    (simp_all add: AppendUint64_minimal AppendString_nonempty rlp_Uint64_eq_Ok)

interpretation fixed_rlp: rlp_canonical "AppendString []" "rlp_FixedBytes n" "\<lambda>s. length s = n" for n
  by unfold_locales
    (auto simp: AppendString_nonempty rlp_FixedBytes_def rlp_Bytes_AppendString rlp_Bytes_eq_Ok go_simps
      split: if_splits)

lemma Stake_EncodeRLP_minimal: "Stake_EncodeRLP [] s = AppendString [] (len_bytes (stake_val s) [])"
  by (simp add: Stake_EncodeRLP_def strip_zeros)

lemma Stake_Decode_Encode:
  assumes "wf_stake x" "length (Stake_EncodeRLP [] x) + length rest < 2 ^ 62"
  shows "Stake_DecodeRLP (Stake_EncodeRLP [] x @ rest) = Ok (x, rest)"
proof -
  let ?b = "len_bytes (be_val x) []"
  have l32: "length x = 32" using assms(1) by (simp add: wf_stake_def)
  have "length ?b \<le> 32" using l32 be_val_less[of x] by (intro length_len_bytes) simp
  moreover have "?b \<noteq> [] \<Longrightarrow> hd ?b \<noteq> 0"
    using hd_len_bytes[of "be_val x"] by (cases "be_val x = 0") (auto simp: len_bytes.simps)
  moreover have "rlp_Bytes (AppendString [] ?b @ rest) = Ok (?b, rest)"
    using assms(2) by (intro rlp_Bytes_AppendString) (simp add: Stake_EncodeRLP_minimal)
  ultimately show ?thesis
    using pad_minimal[OF l32] by (auto simp: Stake_EncodeRLP_minimal Stake_DecodeRLP_def)
qed

lemma Stake_Decode_canonical:
  assumes "length s < 2 ^ 62" "Stake_DecodeRLP s = Ok (x, rest)"
  shows "wf_stake x \<and> s = Stake_EncodeRLP [] x @ rest"
proof -
  obtain b where s: "s = AppendString [] b @ rest" and b: "length b \<le> 32" "b = [] \<or> hd b \<noteq> 0"
    and x: "x = replicate (32 - length b) 0 @ b"
    using assms by (auto simp: Stake_DecodeRLP_def go_simps rlp_Bytes_eq_Ok split: if_splits)
  have "len_bytes (be_val x) [] = b" using len_bytes_be_val[OF b(2)] x by (simp add: be_val_append)
  then show ?thesis using s b x by (simp add: wf_stake_def Stake_EncodeRLP_minimal)
qed

interpretation stake_rlp: rlp_canonical "Stake_EncodeRLP []" Stake_DecodeRLP wf_stake
  by unfold_locales
    (simp_all add: Stake_Decode_Encode Stake_Decode_canonical,
      simp add: Stake_EncodeRLP_def AppendString_nonempty)

lemma U128_FromHiLo_Hi_Lo: "wf_u128 u \<Longrightarrow> U128FromHiLo (U128_Hi u) (U128_Lo u) = u"
  by (rule iffD1[OF u128_val_inj]) (simp_all add: u128_val_split)

interpretation u128_rlp: rlp_codec "U128_EncodeRLP []" U128_DecodeRLP wf_u128
  by unfold_locales
    (simp_all add: U128_EncodeRLP_def U128_DecodeRLP_def rlp_Uint128_AppendUint128 U128_FromHiLo_Hi_Lo,
      simp add: AppendUint128_minimal AppendString_nonempty)

interpretation u8_rlp: rlp_codec "AppendUint8 []" rlp_Uint8 "\<lambda>_. True"
  by unfold_locales
    (simp_all add: rlp_Uint8_AppendUint8, simp add: AppendUint8_def AppendUint64_minimal AppendString_nonempty)

interpretation u32_rlp: rlp_codec "AppendUint32 []" rlp_Uint32 "\<lambda>_. True"
  by unfold_locales
    (simp_all add: rlp_Uint32_AppendUint32, simp add: AppendUint32_def AppendUint64_minimal AppendString_nonempty)

interpretation bool_rlp: rlp_codec "AppendBool []" rlp_Bool "\<lambda>_. True"
  by unfold_locales
    (simp_all add: rlp_Bool_AppendBool, simp add: AppendBool_def AppendUint64_minimal AppendString_nonempty)

interpretation round_rlp: rlp_canonical "Round_EncodeRLP []" Round_DecodeRLP "\<lambda>_. True"
  unfolding Round_EncodeRLP_def Round_DecodeRLP_def by (rule u64_rlp.rlp_canonical_axioms)

interpretation epoch_rlp: rlp_canonical "Epoch_EncodeRLP []" Epoch_DecodeRLP "\<lambda>_. True"
  unfolding Epoch_EncodeRLP_def Epoch_DecodeRLP_def by (rule u64_rlp.rlp_canonical_axioms)

interpretation seqnum_rlp: rlp_canonical "SeqNum_EncodeRLP []" SeqNum_DecodeRLP "\<lambda>_. True"
  unfolding SeqNum_EncodeRLP_def SeqNum_DecodeRLP_def by (rule u64_rlp.rlp_canonical_axioms)

interpretation hash_rlp: rlp_canonical "Hash_EncodeRLP []" Hash_DecodeRLP "\<lambda>h. length h = 32"
  unfolding Hash_EncodeRLP_def Hash_DecodeRLP_def by (rule fixed_rlp.rlp_canonical_axioms)

interpretation block_id_rlp: rlp_canonical "BlockId_EncodeRLP []" BlockId_DecodeRLP "\<lambda>h. length h = 32"
  unfolding BlockId_EncodeRLP_def BlockId_DecodeRLP_def by (rule fixed_rlp.rlp_canonical_axioms)

interpretation node_id_rlp: rlp_canonical "NodeId_EncodeRLP []" NodeId_DecodeRLP "\<lambda>h. length h = SecpPubkeySize"
  unfolding NodeId_EncodeRLP_def NodeId_DecodeRLP_def by (rule fixed_rlp.rlp_canonical_axioms)

text \<open>The collection \<open>rlp_read\<close> reads one field of an encoded struct.\<close>

lemma rlp_Uint64_AppendUint8:
  "length (AppendUint8 [] t) + length rest < 2 ^ 62 \<Longrightarrow> rlp_Uint64 (AppendUint8 [] t @ rest) = Ok (ucast t, rest)"
  using u64_rlp.dec_enc[of "ucast t" rest] by (simp add: AppendUint8_def)

lemma fold_append [rlp_append]: "fold (\<lambda>x q. q @ f x) xs dst = dst @ concat (map f xs)"
  by (induction xs arbitrary: dst) auto

lemmas [rlp_read] = bytes_rlp.reads u64_rlp.reads fixed_rlp.reads stake_rlp.reads u128_rlp.reads
  u8_rlp.reads u32_rlp.reads bool_rlp.reads round_rlp.reads epoch_rlp.reads seqnum_rlp.reads
  hash_rlp.reads block_id_rlp.reads node_id_rlp.reads rlp_Uint64_AppendUint8 rlp_List_fields(1) rlp_List_empty

section \<open>Sizes of encodings\<close>

text \<open>Upper bounds that chain backwards over nested encoders; a header is at most as long as its payload.\<close>

named_theorems enc_size

lemma length_len_bytes_le: "length (len_bytes n []) \<le> n"
proof -
  have "n < 256 ^ n" by (induction n) auto
  then show ?thesis by (rule length_len_bytes)
qed

lemma enc_size_string [enc_size]:
  "length dst \<le> d \<Longrightarrow> length s \<le> n \<Longrightarrow> length (AppendString dst s) \<le> d + (2 * n + 1)"
  using length_len_bytes_le[of "length s"]
  by (simp add: AppendString_def appendStringHeader_def appendLenPrefix_def Let_def)

lemma enc_size_list [enc_size]:
  "length dst \<le> d \<Longrightarrow> length (build []) \<le> n \<Longrightarrow> length (AppendList dst build) \<le> d + (2 * n + 1)"
  using length_len_bytes_le[of "length (build [])"]
  by (simp add: AppendList_def appendListHeader_def appendLenPrefix_def Let_def)

lemma enc_size_uint64 [enc_size]: "length dst \<le> d \<Longrightarrow> length (AppendUint64 dst v) \<le> d + 17"
proof -
  have "length (dropWhile (\<lambda>b. b = 0) (put_be 8 v [])) \<le> 8"
    using length_dropWhile_le[of "\<lambda>b. b = 0" "put_be 8 v []"] by simp
  then show "length dst \<le> d \<Longrightarrow> length (AppendUint64 dst v) \<le> d + 17"
    using enc_size_string[of dst d "dropWhile (\<lambda>b. b = 0) (put_be 8 v [])" 8] by (simp add: AppendUint64_def)
qed

lemma enc_size_u128 [enc_size]:
  assumes "length dst \<le> d" and "length u = 16"
  shows "length (U128_EncodeRLP dst u) \<le> d + 33"
proof -
  let ?s = "dropWhile (\<lambda>b. b = 0) (put_be 8 (U128_Hi u) (put_be 8 (U128_Lo u) []))"
  have "length ?s \<le> 16"
    using length_dropWhile_le[of "\<lambda>b. b = 0" "put_be 8 (U128_Hi u) (put_be 8 (U128_Lo u) [])"] by simp
  then show ?thesis
    using enc_size_string[OF assms(1), of ?s 16] enc_size_uint64[OF assms(1), of "U128_Lo u"]
    by (simp add: U128_EncodeRLP_def AppendUint128_def)
qed

lemma enc_size_domain [enc_size]:
  "length dst \<le> d \<Longrightarrow> length (AppendUint8 dst b) \<le> d + 17"
  "length dst \<le> d \<Longrightarrow> length (AppendUint32 dst w) \<le> d + 17"
  "length dst \<le> d \<Longrightarrow> length (Round_EncodeRLP dst r) \<le> d + 17"
  "length dst \<le> d \<Longrightarrow> length (Epoch_EncodeRLP dst e) \<le> d + 17"
  "length dst \<le> d \<Longrightarrow> length (SeqNum_EncodeRLP dst sn) \<le> d + 17"
  by (simp_all add: AppendUint8_def AppendUint32_def Round_EncodeRLP_def Epoch_EncodeRLP_def SeqNum_EncodeRLP_def
      enc_size_uint64)

lemmas [enc_size] = enc_size_string[folded BlockId_EncodeRLP_def] enc_size_string[folded NodeId_EncodeRLP_def]

lemma enc_size_base [enc_size]:
  "length x \<le> a \<Longrightarrow> length y \<le> b \<Longrightarrow> length (x @ y) \<le> a + b" "length ([] :: 'a list) \<le> 0"
  by simp_all

end
