(* ===== verification/Crypto.thy ===== *)
theory Crypto
  imports Codec
begin

text \<open>
  \<open>crypto/\<close>: the signing domains and the wrappers around the BLS, secp256k1 and BLAKE3 libraries.
  The libraries are not part of the repository: their operations are the fields of the record
  \<open>crypto\<close>, an argument of every definition that signs, verifies or hashes. A BLS point is
  represented by its compressed encoding, which is what \<open>Equal\<close> compares.
\<close>

type_synonym bls_sig = bytes
type_synonym bls_pk = bytes
type_synonym secp_sig = bytes

record crypto =
  blake3_Sum256 :: "bytes \<Rightarrow> hash"
  blst_P2_Uncompress :: "bytes \<Rightarrow> bool"
  blst_SigValidate :: "bls_sig \<Rightarrow> bool"
  blst_Sign :: "bytes \<Rightarrow> bytes \<Rightarrow> bls_sig"
  blst_Verify :: "bls_sig \<Rightarrow> bls_pk \<Rightarrow> bytes \<Rightarrow> bool"
  blst_Verify_agg :: "bls_sig \<Rightarrow> bls_pk \<Rightarrow> bytes \<Rightarrow> bool"
  blst_P2_Aggregate :: "bls_sig list \<Rightarrow> bls_sig"
  blst_P1_Aggregate :: "bls_pk list \<Rightarrow> bls_pk"
  secp_Sign :: "bytes \<Rightarrow> hash \<Rightarrow> secp_sig"
  secp_Recover :: "hash \<Rightarrow> secp_sig \<Rightarrow> node_id option"
  secp_Verify :: "node_id \<Rightarrow> hash \<Rightarrow> secp_sig \<Rightarrow> bool"

section \<open>Signing domains\<close>

text \<open>A string literal as bytes; the escape of the first byte is its length.\<close>

definition ascii :: "string \<Rightarrow> bytes" where
  "ascii s = map of_char s"

definition domain_bytes :: "u8 \<Rightarrow> string \<Rightarrow> bytes" where
  "domain_bytes len s = len # ascii s @ [10]"

definition DomainConsensusMessage :: bytes where
  "DomainConsensusMessage = domain_bytes 0x1a ''monad/consensus-message/1''"
definition DomainTip :: bytes where
  "DomainTip = domain_bytes 0x0c ''monad/tip/1''"
definition DomainVote :: bytes where
  "DomainVote = domain_bytes 0x0d ''monad/vote/1''"
definition DomainTimeout :: bytes where
  "DomainTimeout = domain_bytes 0x10 ''monad/timeout/1''"
definition DomainNoEndorsement :: bytes where
  "DomainNoEndorsement = domain_bytes 0x17 ''monad/no-endorsement/1''"
definition DomainRoundSignature :: bytes where
  "DomainRoundSignature = domain_bytes 0x18 ''monad/round-signature/1''"
definition DomainNameRecord :: bytes where
  "DomainNameRecord = domain_bytes 0x14 ''monad/name-record/1''"
definition DomainTCPAuth :: bytes where
  "DomainTCPAuth = domain_bytes 0x11 ''monad/tcp-auth/1''"
definition DomainRaptorcastAppMsg :: bytes where
  "DomainRaptorcastAppMsg = domain_bytes 0x1f ''monad/raptorcast-app-message/1''"
definition DomainRaptorcastChunk :: bytes where
  "DomainRaptorcastChunk = domain_bytes 0x19 ''monad/raptorcast-chunk/1''"

definition signing_domains :: "bytes list" where
  "signing_domains = [DomainConsensusMessage, DomainTip, DomainVote, DomainTimeout, DomainNoEndorsement,
     DomainRoundSignature, DomainNameRecord, DomainTCPAuth, DomainRaptorcastAppMsg, DomainRaptorcastChunk]"

definition withDomain :: "bytes \<Rightarrow> bytes \<Rightarrow> bytes" where
  "withDomain prefix msg = prefix @ msg"

lemmas domain_defs = DomainConsensusMessage_def DomainTip_def DomainVote_def DomainTimeout_def
  DomainNoEndorsement_def DomainRoundSignature_def DomainNameRecord_def DomainTCPAuth_def
  DomainRaptorcastAppMsg_def DomainRaptorcastChunk_def

lemma length_domain: "d \<in> set signing_domains \<Longrightarrow> length d = 1 + unat (hd d)"
  by (auto simp: signing_domains_def domain_defs domain_bytes_def ascii_def)

lemma distinct_domain_heads: "distinct (map hd signing_domains)"
  by (simp add: signing_domains_def domain_defs domain_bytes_def)

lemma domain_nonempty: "d \<in> set signing_domains \<Longrightarrow> d \<noteq> []"
  using length_domain by fastforce

lemma withDomain_inj:
  assumes "d \<in> set signing_domains" "d' \<in> set signing_domains" "withDomain d m = withDomain d' m'"
  shows "d = d' \<and> m = m'"
proof -
  have "hd d = hd d'" using assms domain_nonempty by (metis hd_append2 withDomain_def)
  then have "d = d'" using distinct_domain_heads assms(1,2) by (meson distinct_map inj_onD)
  with assms(3) show ?thesis by (simp add: withDomain_def)
qed

section \<open>BLS wrappers\<close>

definition BlsSignatureCompressdLen :: nat where "BlsSignatureCompressdLen = 96"

definition BlsSignatureUncompress :: "crypto \<Rightarrow> bytes \<Rightarrow> bls_sig option" where
  "BlsSignatureUncompress cr b =
     (if length b \<noteq> BlsSignatureCompressdLen then None
      else if \<not> blst_P2_Uncompress cr b then None else Some b)"

definition BlsSignatureInfinity :: bls_sig where
  "BlsSignatureInfinity = 0xc0 # replicate 95 0"

definition BlsSignature_IsInfinity :: "bls_sig \<Rightarrow> bool" where
  "BlsSignature_IsInfinity s = (s = BlsSignatureInfinity)"

definition BlsSignature_Validate :: "crypto \<Rightarrow> bls_sig option \<Rightarrow> bool" where
  "BlsSignature_Validate cr s = (case s of None \<Rightarrow> False | Some p \<Rightarrow> blst_SigValidate cr p)"

definition BlsKeyPair_Sign :: "crypto \<Rightarrow> bytes \<Rightarrow> bytes \<Rightarrow> bytes \<Rightarrow> bls_sig" where
  "BlsKeyPair_Sign cr sk domain msg = blst_Sign cr sk (withDomain domain msg)"

definition BlsSignature_Verify :: "crypto \<Rightarrow> bls_sig \<Rightarrow> bytes \<Rightarrow> bytes \<Rightarrow> bls_pk \<Rightarrow> bool" where
  "BlsSignature_Verify cr s domain msg pk = blst_Verify cr s pk (withDomain domain msg)"

definition FastAggregateVerifyPreAggregated :: "crypto \<Rightarrow> bls_sig \<Rightarrow> bytes \<Rightarrow> bytes \<Rightarrow> bls_pk \<Rightarrow> bool" where
  "FastAggregateVerifyPreAggregated cr s domain msg aggPk = blst_Verify_agg cr s aggPk (withDomain domain msg)"

section \<open>secp256k1 wrappers\<close>

definition SecpSignatureSize :: nat where "SecpSignatureSize = 65"

definition msgHash :: "crypto \<Rightarrow> bytes \<Rightarrow> bytes \<Rightarrow> hash" where
  "msgHash cr domain msg = blake3_Sum256 cr (withDomain domain msg)"

definition SecpKeyPair_Sign :: "crypto \<Rightarrow> bytes \<Rightarrow> bytes \<Rightarrow> bytes \<Rightarrow> secp_sig" where
  "SecpKeyPair_Sign cr sk domain msg = secp_Sign cr sk (msgHash cr domain msg)"

definition RecoverPubKey :: "crypto \<Rightarrow> secp_sig \<Rightarrow> bytes \<Rightarrow> bytes \<Rightarrow> node_id option" where
  "RecoverPubKey cr s domain msg = secp_Recover cr (msgHash cr domain msg) s"

definition SecpSignature_Verify :: "crypto \<Rightarrow> secp_sig \<Rightarrow> bytes \<Rightarrow> bytes \<Rightarrow> node_id \<Rightarrow> bool" where
  "SecpSignature_Verify cr s domain msg pk = secp_Verify cr pk (msgHash cr domain msg) (take 64 s)"

definition SecpSignatureFromBytes :: "bytes \<Rightarrow> (rlp_error, secp_sig) go" where
  "SecpSignatureFromBytes b =
     (if length b \<noteq> SecpSignatureSize then Err (ErrOther ''secp256k1: signature must be 65 bytes'')
      else if 3 < b ! 64 then Err (ErrOther ''secp256k1: invalid recovery id'')
      else Ok b)"

section \<open>A concrete library\<close>

text \<open>
  A concrete value of the record, for evaluating the model: hashing pads or cuts to 32 bytes, every
  signature is one fixed non-infinity point and every check succeeds.
\<close>

definition example_sig :: bls_sig where
  "example_sig = 0x80 # replicate 95 0"

definition example_crypto :: crypto where
  "example_crypto = \<lparr>
     blake3_Sum256 = (\<lambda>b. take 32 (b @ replicate 32 0)),
     blst_P2_Uncompress = (\<lambda>_. True),
     blst_SigValidate = (\<lambda>_. True),
     blst_Sign = (\<lambda>_ _. example_sig),
     blst_Verify = (\<lambda>_ _ _. True),
     blst_Verify_agg = (\<lambda>_ _ _. True),
     blst_P2_Aggregate = (\<lambda>_. example_sig),
     blst_P1_Aggregate = (\<lambda>_. []),
     secp_Sign = (\<lambda>_ _. replicate 65 0),
     secp_Recover = (\<lambda>_ _. None),
     secp_Verify = (\<lambda>_ _ _. True)\<rparr>"

lemma example_crypto_simps [simp]:
  "blake3_Sum256 example_crypto b = take 32 (b @ replicate 32 0)"
  "blst_P2_Uncompress example_crypto b = True"
  "blst_SigValidate example_crypto s = True"
  "blst_Sign example_crypto sk b = example_sig"
  "blst_Verify example_crypto s pk b = True"
  "blst_Verify_agg example_crypto s pk b = True"
  "blst_P2_Aggregate example_crypto ss = example_sig"
  "blst_P1_Aggregate example_crypto pks = []"
  "secp_Sign example_crypto sk h = replicate 65 0"
  "secp_Recover example_crypto h ss' = None"
  "secp_Verify example_crypto n h ss' = True"
  by (simp_all add: example_crypto_def)

lemma length_example_sig [simp]: "length example_sig = 96"
  by (simp add: example_sig_def)

lemma example_sig_finite [simp]: "\<not> BlsSignature_IsInfinity example_sig"
  by (simp add: BlsSignature_IsInfinity_def BlsSignatureInfinity_def example_sig_def)

lemma example_Uncompress [simp]:
  "length b = 96 \<Longrightarrow> BlsSignatureUncompress example_crypto b = Some b"
  by (simp add: BlsSignatureUncompress_def BlsSignatureCompressdLen_def)

section \<open>Properties\<close>

text \<open>C39. Domain separation: the bytes that are hashed or signed determine both the signing domain and
  the message, so a signature made in one domain never covers the bytes of a message of another; the
  first byte of a domain is the number of bytes that follow.\<close>

theorem domains_separate:
  assumes "d \<in> set signing_domains" and "d' \<in> set signing_domains"
  shows "(withDomain d m = withDomain d' m' \<longleftrightarrow> d = d' \<and> m = m') \<and> length d = 1 + unat (hd d)"
  using withDomain_inj[OF assms] length_domain[OF assms(1)] by blast

lemma domains_separate_witness:
  "withDomain DomainVote [1, 2] \<noteq> withDomain DomainTimeout [1, 2] \<and> length DomainVote = 14"
  using domains_separate[of DomainVote DomainTimeout "[1, 2]" "[1, 2]"]
  by (simp add: signing_domains_def domain_defs domain_bytes_def ascii_def)

end
