(* ===== verification/Validator.thy ===== *)
theory Validator
  imports Codec
begin

text \<open>
  \<open>validator/validator.go\<close>: the stake-weighted validator set with its thresholds, and the mapping
  from node ids to certificate keys. The lemmas give the byte-array sums as numbers, the exact
  thresholds, and that two super-majorities share an honest vote, as an interpretation of the
  quorum locale.
\<close>

type_synonym bls_pubkey = bytes

record ValidatorData =
  vd_NodeId :: node_id
  vd_Stake :: stake
  vd_CertPubKey :: bls_pubkey

datatype validator_error =
  ErrEmptyValidatorSet | ErrZeroStakeValidator node_id | ErrDuplicateValidator node_id | ErrNotMember

record ValidatorSet =
  vs_members :: "node_id list"
  vs_stakes :: "node_id \<rightharpoonup> stake"
  vs_totalStake :: stake

section \<open>Operations\<close>

text \<open>The loop of \<open>NewValidatorSet\<close>; the stakes, the total and the members grow together.\<close>

fun NewValidatorSet_loop :: "ValidatorData list \<Rightarrow> ValidatorSet \<Rightarrow> (validator_error, ValidatorSet) go" where
  "NewValidatorSet_loop [] vs = Ok vs"
| "NewValidatorSet_loop (v # vals) vs =
     (if Stake_IsZero (vd_Stake v) then Err (ErrZeroStakeValidator (vd_NodeId v))
      else if vs_stakes vs (vd_NodeId v) \<noteq> None then Err (ErrDuplicateValidator (vd_NodeId v))
      else NewValidatorSet_loop vals
        \<lparr>vs_members = vs_members vs @ [vd_NodeId v],
         vs_stakes = (vs_stakes vs)(vd_NodeId v \<mapsto> vd_Stake v),
         vs_totalStake = Stake_Add (vs_totalStake vs) (vd_Stake v)\<rparr>)"

definition NewValidatorSet :: "ValidatorData list \<Rightarrow> (validator_error, ValidatorSet) go" where
  "NewValidatorSet vals =
     (if length vals = 0 then Err ErrEmptyValidatorSet
      else go_bind (NewValidatorSet_loop vals
             \<lparr>vs_members = [], vs_stakes = Map.empty, vs_totalStake = Stake_zero\<rparr>)
           (\<lambda>vs. Ok (vs\<lparr>vs_members := sort (vs_members vs)\<rparr>)))"

definition IsMember :: "ValidatorSet \<Rightarrow> node_id \<Rightarrow> bool" where
  "IsMember v nid = (vs_stakes v nid \<noteq> None)"

text \<open>\<open>Index\<close> of both the set and the mapping: a binary search in the sorted node ids.\<close>

definition Index :: "node_id list \<Rightarrow> node_id \<Rightarrow> int" where
  "Index members nid =
     (let i = sort_Search (length members) (\<lambda>i. 0 \<le> NodeId_Cmp (members ! i) nid) in
      if i < length members \<and> NodeId_Cmp (members ! i) nid = 0 then int i else - 1)"

fun CalculateCurrentStake_loop ::
  "(node_id \<rightharpoonup> stake) \<Rightarrow> node_id list \<Rightarrow> node_id set \<Rightarrow> stake \<Rightarrow> (validator_error, stake) go" where
  "CalculateCurrentStake_loop stakes [] seen acc = Ok acc"
| "CalculateCurrentStake_loop stakes (a # addrs) seen acc =
     (if a \<in> seen then Err (ErrDuplicateValidator a)
      else CalculateCurrentStake_loop stakes addrs (insert a seen)
        (case stakes a of Some s \<Rightarrow> Stake_Add acc s | None \<Rightarrow> acc))"

definition CalculateCurrentStake :: "ValidatorSet \<Rightarrow> node_id list \<Rightarrow> (validator_error, stake) go" where
  "CalculateCurrentStake v addrs = CalculateCurrentStake_loop (vs_stakes v) addrs {} Stake_zero"

definition threshold :: "stake \<Rightarrow> nat \<Rightarrow> nat \<Rightarrow> bool \<Rightarrow> ('e, stake) go" where
  "threshold tot num den plusOne =
     (let t = stake_val tot * num div den in StakeFromBig (if plusOne then t + 1 else t))"

definition hasThresholdVotes :: "ValidatorSet \<Rightarrow> node_id list \<Rightarrow> stake \<Rightarrow> (validator_error, bool) go" where
  "hasThresholdVotes v addrs thr =
     go_bind (CalculateCurrentStake v addrs) (\<lambda>acc. Ok (0 \<le> Stake_Cmp acc thr))"

definition HasSuperMajorityVotes :: "ValidatorSet \<Rightarrow> node_id list \<Rightarrow> (validator_error, bool) go" where
  "HasSuperMajorityVotes v addrs =
     go_bind (threshold (vs_totalStake v) 2 3 True) (hasThresholdVotes v addrs)"

definition HasHonestVote :: "ValidatorSet \<Rightarrow> node_id list \<Rightarrow> (validator_error, bool) go" where
  "HasHonestVote v addrs =
     go_bind (threshold (vs_totalStake v) 1 3 True) (hasThresholdVotes v addrs)"

definition StakeOf :: "ValidatorSet \<Rightarrow> node_id \<Rightarrow> stake \<times> bool" where
  "StakeOf v nid = (case vs_stakes v nid of Some s \<Rightarrow> (s, True) | None \<Rightarrow> (Stake_zero, False))"

record ValidatorMapping =
  vm_nodeIds :: "node_id list"
  vm_pubs :: "node_id \<rightharpoonup> bls_pubkey"

definition NewValidatorMapping :: "(node_id \<times> bls_pubkey) list \<Rightarrow> ValidatorMapping" where
  "NewValidatorMapping entries =
     (let m = fold (\<lambda>(n, pk) m. m\<lparr>vm_pubs := (vm_pubs m)(n \<mapsto> pk), vm_nodeIds := vm_nodeIds m @ [n]\<rparr>)
                entries \<lparr>vm_nodeIds = [], vm_pubs = Map.empty\<rparr> in
      m\<lparr>vm_nodeIds := sort (vm_nodeIds m)\<rparr>)"

definition ValidatorMapping_Has :: "ValidatorMapping \<Rightarrow> node_id \<Rightarrow> bool" where
  "ValidatorMapping_Has m nid = (vm_pubs m nid \<noteq> None)"

text \<open>A key that is absent from the map reads as the zero \<open>BlsPubKey\<close>, whose point is nil.\<close>

definition ValidatorMapping_PubKey :: "ValidatorMapping \<Rightarrow> node_id \<Rightarrow> bls_pubkey option" where
  "ValidatorMapping_PubKey m nid = vm_pubs m nid"

definition ValidatorMapping_At :: "ValidatorMapping \<Rightarrow> nat \<Rightarrow> ('e, node_id \<times> bls_pubkey option) go" where
  "ValidatorMapping_At m i =
     (if i < length (vm_nodeIds m) then let n = vm_nodeIds m ! i in Ok (n, vm_pubs m n)
      else Panic ''index out of range'')"

section \<open>The invariant of a validator set\<close>

text \<open>The exact weight of a set of nodes, as a number; nodes outside the set weigh nothing.\<close>

definition weight :: "ValidatorSet \<Rightarrow> node_id set \<Rightarrow> nat" where
  "weight v A = (\<Sum>x\<in>A \<inter> dom (vs_stakes v). stake_val (the (vs_stakes v x)))"

definition stakes_inv :: "ValidatorSet \<Rightarrow> bool" where
  "stakes_inv v \<longleftrightarrow> distinct (vs_members v) \<and> set (vs_members v) = dom (vs_stakes v)
     \<and> (\<forall>s\<in>ran (vs_stakes v). wf_stake s \<and> 0 < stake_val s)
     \<and> wf_stake (vs_totalStake v)
     \<and> stake_val (vs_totalStake v) = weight v UNIV mod 2 ^ 256"

definition ValidatorSet_inv :: "ValidatorSet \<Rightarrow> bool" where
  "ValidatorSet_inv v \<longleftrightarrow> stakes_inv v \<and> sorted (vs_members v) \<and> vs_members v \<noteq> []"

text \<open>The stakes of the set sum up below \<open>2 ^ 256\<close>, so that the 32-byte total is their sum.\<close>

definition total_fits :: "ValidatorSet \<Rightarrow> bool" where
  "total_fits v \<longleftrightarrow> weight v UNIV < 2 ^ 256"

lemma finite_stakes: "stakes_inv v \<Longrightarrow> finite (dom (vs_stakes v))"
  by (metis List.finite_set stakes_inv_def)

lemma weight_insert:
  assumes "finite (dom m)" and "m k = None"
  shows "weight \<lparr>vs_members = ms, vs_stakes = m(k \<mapsto> s), vs_totalStake = t\<rparr> UNIV
       = stake_val s + weight \<lparr>vs_members = ms', vs_stakes = m, vs_totalStake = t'\<rparr> UNIV"
proof -
  have k: "k \<notin> dom m" using assms(2) by auto
  have "(\<Sum>x\<in>insert k (dom m). stake_val (the ((m(k \<mapsto> s)) x)))
      = stake_val s + (\<Sum>x\<in>dom m. stake_val (the ((m(k \<mapsto> s)) x)))"
    using assms(1) k by simp
  also have "(\<Sum>x\<in>dom m. stake_val (the ((m(k \<mapsto> s)) x))) = (\<Sum>x\<in>dom m. stake_val (the (m x)))"
    using k by (intro sum.cong) auto
  finally show ?thesis by (simp add: weight_def)
qed

lemma NewValidatorSet_loop_inv:
  assumes "NewValidatorSet_loop vals vs = Ok vs'" and "stakes_inv vs" and "\<forall>v\<in>set vals. wf_stake (vd_Stake v)"
  shows "stakes_inv vs' \<and> set (vs_members vs') = set (vs_members vs) \<union> vd_NodeId ` set vals
    \<and> vs_stakes vs' = vs_stakes vs ++ map_of (map (\<lambda>v. (vd_NodeId v, vd_Stake v)) vals)"
  using assms
proof (induction vals vs rule: NewValidatorSet_loop.induct)
  case (2 v vals vs)
  let ?vs = "\<lparr>vs_members = vs_members vs @ [vd_NodeId v],
         vs_stakes = (vs_stakes vs)(vd_NodeId v \<mapsto> vd_Stake v),
         vs_totalStake = Stake_Add (vs_totalStake vs) (vd_Stake v)\<rparr>"
  have nz: "\<not> Stake_IsZero (vd_Stake v)" and new: "vs_stakes vs (vd_NodeId v) = None"
    and rest: "NewValidatorSet_loop vals ?vs = Ok vs'"
    using "2.prems"(1) by (auto split: if_splits)
  have wf: "wf_stake (vd_Stake v)" "0 < stake_val (vd_Stake v)"
    using "2.prems"(3) nz Stake_IsZero_val by auto
  have inv: "stakes_inv ?vs"
  proof -
    have "weight ?vs UNIV = stake_val (vd_Stake v) + weight vs UNIV"
      using weight_insert[OF finite_stakes[OF "2.prems"(2)] new, of _ _ _ "vs_members vs" "vs_totalStake vs"]
      by (simp add: weight_def)
    moreover have "vd_NodeId v \<notin> set (vs_members vs)" using new "2.prems"(2) by (auto simp: stakes_inv_def)
    ultimately show ?thesis
      using "2.prems"(2) wf new
      by (auto simp: stakes_inv_def stake_val_Add ran_map_upd mod_simps add.commute)
  qed
  have disj: "map_of (map (\<lambda>v. (vd_NodeId v, vd_Stake v)) vals) (vd_NodeId v) = None"
  proof -
    have "vd_NodeId v \<notin> vd_NodeId ` set vals"
    proof -
      { fix ws w assume "NewValidatorSet_loop ws w = Ok vs'" "vs_stakes w (vd_NodeId v) \<noteq> None"
        then have "vd_NodeId v \<notin> vd_NodeId ` set ws"
          by (induction ws w rule: NewValidatorSet_loop.induct) (auto split: if_splits) }
      from this[OF rest] show ?thesis by simp
    qed
    then show ?thesis by (auto simp: map_of_eq_None_iff)
  qed
  from "2.IH"[OF nz _ rest inv] new "2.prems"(3) disj show ?case
    by (auto simp: map_add_def fun_eq_iff split: option.splits)
qed auto

lemma stakes_inv_empty: "stakes_inv \<lparr>vs_members = [], vs_stakes = Map.empty, vs_totalStake = Stake_zero\<rparr>"
  by (simp add: stakes_inv_def weight_def)

lemma stakes_inv_sort: "stakes_inv v \<Longrightarrow> stakes_inv (v\<lparr>vs_members := sort (vs_members v)\<rparr>)"
  by (simp add: stakes_inv_def weight_def)

lemma NewValidatorSet_inv:
  assumes "NewValidatorSet vals = Ok v" and "\<forall>x\<in>set vals. wf_stake (vd_Stake x)"
  shows "ValidatorSet_inv v" and "set (vs_members v) = vd_NodeId ` set vals"
    and "vs_stakes v = map_of (map (\<lambda>x. (vd_NodeId x, vd_Stake x)) vals)"
proof -
  obtain w where w: "NewValidatorSet_loop vals \<lparr>vs_members = [], vs_stakes = Map.empty, vs_totalStake = Stake_zero\<rparr> = Ok w"
    and v: "v = w\<lparr>vs_members := sort (vs_members w)\<rparr>" and ne: "vals \<noteq> []"
    using assms(1) by (auto simp: NewValidatorSet_def go_simps split: if_splits)
  note inv = NewValidatorSet_loop_inv[OF w stakes_inv_empty assms(2)]
  have "vs_members w \<noteq> []" using inv ne by auto
  with inv v show "ValidatorSet_inv v"
    by (simp add: ValidatorSet_inv_def stakes_inv_sort sorted_sort) (metis length_0_conv length_sort)
  show "set (vs_members v) = vd_NodeId ` set vals"
    "vs_stakes v = map_of (map (\<lambda>x. (vd_NodeId x, vd_Stake x)) vals)"
    using inv v by simp_all
qed

section \<open>Sums and thresholds as numbers\<close>

lemma weight_mono: "finite (dom (vs_stakes v)) \<Longrightarrow> A \<subseteq> B \<Longrightarrow> weight v A \<le> weight v B"
  unfolding weight_def by (intro sum_mono2) auto

lemma weight_Un_Int:
  "finite (dom (vs_stakes v)) \<Longrightarrow> weight v (A \<union> B) + weight v (A \<inter> B) = weight v A + weight v B"
  using sum.union_inter[of "A \<inter> dom (vs_stakes v)" "B \<inter> dom (vs_stakes v)" "\<lambda>x. stake_val (the (vs_stakes v x))"]
  by (simp add: weight_def Int_Un_distrib2 Int_ac)

lemma weight_insert_node:
  assumes "finite (dom (vs_stakes v))" and "a \<notin> A"
  shows "weight v (insert a A) = (case vs_stakes v a of Some s \<Rightarrow> stake_val s | None \<Rightarrow> 0) + weight v A"
proof (cases "vs_stakes v a")
  case None
  then have "insert a A \<inter> dom (vs_stakes v) = A \<inter> dom (vs_stakes v)" by auto
  with None show ?thesis by (simp add: weight_def)
next
  case (Some s)
  then have "insert a A \<inter> dom (vs_stakes v) = insert a (A \<inter> dom (vs_stakes v))" by auto
  with Some assms show ?thesis by (simp add: weight_def)
qed

lemma CalculateCurrentStake_loop_Ok:
  assumes "stakes_inv v" and "distinct addrs" and "set addrs \<inter> seen = {}" and "wf_stake acc"
  shows "\<exists>s. CalculateCurrentStake_loop (vs_stakes v) addrs seen acc = Ok s \<and> wf_stake s
    \<and> stake_val s = (stake_val acc + weight v (set addrs)) mod 2 ^ 256"
  using assms(2-4)
proof (induction addrs arbitrary: seen acc)
  case Nil
  then show ?case using stake_val_less[of acc] by (simp add: weight_def)
next
  case (Cons a addrs)
  let ?acc = "case vs_stakes v a of Some s \<Rightarrow> Stake_Add acc s | None \<Rightarrow> acc"
  have wf: "wf_stake ?acc"
    using Cons.prems(3) assms(1) by (auto simp: stakes_inv_def ran_def split: option.splits)
  have val: "stake_val ?acc = (stake_val acc + (case vs_stakes v a of Some s \<Rightarrow> stake_val s | None \<Rightarrow> 0)) mod 2 ^ 256"
    using Cons.prems(3) assms(1) stake_val_less[of acc]
    by (auto simp: stakes_inv_def ran_def stake_val_Add split: option.splits)
  have "set addrs \<inter> insert a seen = {}" using Cons.prems(1,2) by auto
  from Cons.IH[OF _ this wf] Cons.prems(1) obtain s where
    s: "CalculateCurrentStake_loop (vs_stakes v) addrs (insert a seen) ?acc = Ok s" "wf_stake s"
      "stake_val s = (stake_val ?acc + weight v (set addrs)) mod 2 ^ 256" by auto
  have "a \<notin> seen" using Cons.prems(2) by auto
  with s val weight_insert_node[OF finite_stakes[OF assms(1)], of a "set addrs"] Cons.prems(1)
  show ?case by (simp add: mod_simps add.assoc)
qed

lemma CalculateCurrentStake_loop_dup:
  "\<not> distinct addrs \<or> set addrs \<inter> seen \<noteq> {} \<Longrightarrow>
     \<exists>a. CalculateCurrentStake_loop stakes addrs seen acc = Err (ErrDuplicateValidator a)"
proof (induction addrs arbitrary: seen acc)
  case (Cons a addrs)
  show ?case
  proof (cases "a \<in> seen")
    case False
    with Cons.prems have "\<not> distinct addrs \<or> set addrs \<inter> insert a seen \<noteq> {}" by auto
    from Cons.IH[OF this] False show ?thesis by simp
  qed simp
qed simp

lemma CalculateCurrentStake_spec:
  assumes "stakes_inv v" and "total_fits v"
  shows "distinct addrs \<Longrightarrow> \<exists>s. CalculateCurrentStake v addrs = Ok s \<and> wf_stake s
      \<and> stake_val s = weight v (set addrs)"
    and "\<not> distinct addrs \<Longrightarrow> \<exists>a. CalculateCurrentStake v addrs = Err (ErrDuplicateValidator a)"
proof -
  have lt: "weight v (set addrs) < 2 ^ 256"
    using weight_mono[OF finite_stakes[OF assms(1)], of "set addrs" UNIV] assms(2)
    by (simp add: total_fits_def)
  show "distinct addrs \<Longrightarrow> \<exists>s. CalculateCurrentStake v addrs = Ok s \<and> wf_stake s
      \<and> stake_val s = weight v (set addrs)"
    using CalculateCurrentStake_loop_Ok[OF assms(1), of addrs "{}" Stake_zero] lt
    by (auto simp: CalculateCurrentStake_def)
  show "\<not> distinct addrs \<Longrightarrow> \<exists>a. CalculateCurrentStake v addrs = Err (ErrDuplicateValidator a)"
    using CalculateCurrentStake_loop_dup[of addrs "{}"] by (simp add: CalculateCurrentStake_def)
qed

lemma threshold_Ok:
  assumes "wf_stake tot" and "0 < den" and "num < den"
  shows "\<exists>t. threshold tot num den True = Ok t \<and> wf_stake t \<and> stake_val t = stake_val tot * num div den + 1"
proof -
  have lt: "stake_val tot < 2 ^ 256" using assms(1) by (rule stake_val_less)
  have "stake_val tot * num div den + 1 < 2 ^ 256"
  proof (cases "stake_val tot = 0")
    case False
    then have "stake_val tot * num < stake_val tot * den" using assms(3) by simp
    then have "stake_val tot * num div den < stake_val tot" by (simp add: less_mult_imp_div_less)
    with lt show ?thesis by linarith
  qed simp
  from StakeFromBig_Ok[OF this] show ?thesis by (auto simp: threshold_def Let_def)
qed

lemma hasThreshold_spec:
  assumes "stakes_inv v" and "total_fits v" and "distinct addrs" and "num < den"
  shows "go_bind (threshold (vs_totalStake v) num den True) (hasThresholdVotes v addrs)
       = Ok (weight v UNIV * num div den + 1 \<le> weight v (set addrs))"
proof -
  have wf: "wf_stake (vs_totalStake v)" and tot: "stake_val (vs_totalStake v) = weight v UNIV"
    using assms(1,2) by (simp_all add: stakes_inv_def total_fits_def)
  obtain t where t: "(threshold (vs_totalStake v) num den True :: (validator_error, stake) go) = Ok t" "wf_stake t"
    "stake_val t = stake_val (vs_totalStake v) * num div den + 1"
    using threshold_Ok[OF wf, of den num] assms(4) by auto
  obtain s where "CalculateCurrentStake v addrs = Ok s" "wf_stake s" "stake_val s = weight v (set addrs)"
    using CalculateCurrentStake_spec(1)[OF assms(1-3)] by blast
  with t tot show ?thesis by (simp add: hasThresholdVotes_def Stake_Cmp_val)
qed

lemma floor_third: "w * k div 3 + 1 \<le> x \<longleftrightarrow> k * w < 3 * x" for w k x :: nat
  by (simp add: Suc_le_eq div_less_iff_less_mult mult.commute)

lemma HasSuperMajorityVotes_weight:
  assumes "stakes_inv v" and "total_fits v" and "distinct addrs"
  shows "HasSuperMajorityVotes v addrs = Ok (2 * weight v UNIV < 3 * weight v (set addrs))"
  using hasThreshold_spec[OF assms, of 2 3] unfolding HasSuperMajorityVotes_def floor_third by simp

lemma HasHonestVote_weight:
  assumes "stakes_inv v" and "total_fits v" and "distinct addrs"
  shows "HasHonestVote v addrs = Ok (weight v UNIV < 3 * weight v (set addrs))"
  using hasThreshold_spec[OF assms, of 1 3] unfolding HasHonestVote_def floor_third by simp

lemma hasThresholdVotes_distinct:
  "hasThresholdVotes v addrs thr = Ok b \<Longrightarrow> distinct addrs"
  using CalculateCurrentStake_loop_dup[of addrs "{}" "vs_stakes v" Stake_zero]
  by (cases "distinct addrs") (auto simp: hasThresholdVotes_def CalculateCurrentStake_def)

lemma HasSuperMajorityVotes_distinct: "HasSuperMajorityVotes v addrs = Ok b \<Longrightarrow> distinct addrs"
  by (auto simp: HasSuperMajorityVotes_def go_simps dest: hasThresholdVotes_distinct)

lemma HasHonestVote_distinct: "HasHonestVote v addrs = Ok b \<Longrightarrow> distinct addrs"
  by (auto simp: HasHonestVote_def go_simps dest: hasThresholdVotes_distinct)

lemma CalculateCurrentStake_loop_total:
  "(\<exists>s. CalculateCurrentStake_loop stakes addrs seen acc = Ok s) \<or> (\<exists>e. CalculateCurrentStake_loop stakes addrs seen acc = Err e)"
  by (induction stakes addrs seen acc rule: CalculateCurrentStake_loop.induct) (auto split: option.splits)

lemma HasVotes_total:
  assumes "wf_stake (vs_totalStake v)"
  obtains (ok) b where "HasSuperMajorityVotes v addrs = Ok b" | (err) e where "HasSuperMajorityVotes v addrs = Err e"
proof -
  obtain t where "(threshold (vs_totalStake v) 2 3 True :: (validator_error, stake) go) = Ok t"
    using threshold_Ok[OF assms, of 3 2] by auto
  then show ?thesis
    using that CalculateCurrentStake_loop_total[of "vs_stakes v" addrs "{}" Stake_zero]
    by (auto simp: HasSuperMajorityVotes_def hasThresholdVotes_def CalculateCurrentStake_def)
qed

section \<open>Quorums\<close>

text \<open>
  What the protocol needs of a voting rule: two quorums overlap in a blocking set, one that the
  faulty nodes alone cannot form. The lemmas are the agreement arguments built on it.
\<close>

locale quorum_system =
  fixes quorum :: "'n set \<Rightarrow> bool"
    and blocking :: "'n set \<Rightarrow> bool"
  assumes quorum_inter: "quorum A \<Longrightarrow> quorum B \<Longrightarrow> blocking (A \<inter> B)"
    and blocking_mono: "blocking A \<Longrightarrow> A \<subseteq> B \<Longrightarrow> blocking B"
begin

lemma honest_in_both:
  assumes "quorum A" "quorum B" "\<not> blocking F"
  shows "\<exists>n\<in>A \<inter> B. n \<notin> F"
proof (rule ccontr)
  assume "\<not> ?thesis"
  then have "A \<inter> B \<subseteq> F" by blast
  from blocking_mono[OF quorum_inter[OF assms(1,2)] this] assms(3) show False by blast
qed

lemma agreement:
  assumes "quorum A" "quorum B" "\<not> blocking F"
    and "\<And>n. n \<in> A \<Longrightarrow> n \<notin> F \<Longrightarrow> voted n x" and "\<And>n. n \<in> B \<Longrightarrow> n \<notin> F \<Longrightarrow> voted n y"
    and "\<And>n u w. n \<notin> F \<Longrightarrow> voted n u \<Longrightarrow> voted n w \<Longrightarrow> u = w"
  shows "x = y"
  using honest_in_both[OF assms(1-3)] assms(4-6) by blast

lemma quorum_blocking: "quorum A \<Longrightarrow> blocking A"
  using quorum_inter[of A A] by simp

end

definition super_majority :: "ValidatorSet \<Rightarrow> node_id set \<Rightarrow> bool" where
  "super_majority v A \<longleftrightarrow> stakes_inv v \<and> total_fits v \<and> 2 * weight v UNIV < 3 * weight v A"

definition honest_share :: "ValidatorSet \<Rightarrow> node_id set \<Rightarrow> bool" where
  "honest_share v A \<longleftrightarrow> stakes_inv v \<and> total_fits v \<and> weight v UNIV < 3 * weight v A"

lemma super_majority_inter: "super_majority v A \<Longrightarrow> super_majority v B \<Longrightarrow> honest_share v (A \<inter> B)"
  using weight_Un_Int[of v A B] weight_mono[of v "A \<union> B" UNIV] finite_stakes[of v]
  by (auto simp: super_majority_def honest_share_def)

lemma honest_share_mono: "honest_share v A \<Longrightarrow> A \<subseteq> B \<Longrightarrow> honest_share v B"
  using weight_mono[of v A B] finite_stakes[of v] by (auto simp: honest_share_def)

interpretation stake_quorum: quorum_system "super_majority v" "honest_share v" for v
  by unfold_locales (simp_all add: super_majority_inter honest_share_mono)

lemma HasSuperMajorityVotes_iff:
  assumes "stakes_inv v" and "total_fits v"
  shows "HasSuperMajorityVotes v addrs = Ok True \<longleftrightarrow> distinct addrs \<and> super_majority v (set addrs)"
  using HasSuperMajorityVotes_weight[OF assms] HasSuperMajorityVotes_distinct[of v addrs] assms
  by (cases "distinct addrs") (auto simp: super_majority_def)

lemma HasHonestVote_iff:
  assumes "stakes_inv v" and "total_fits v"
  shows "HasHonestVote v addrs = Ok True \<longleftrightarrow> distinct addrs \<and> honest_share v (set addrs)"
  using HasHonestVote_weight[OF assms] HasHonestVote_distinct[of v addrs] assms
  by (cases "distinct addrs") (auto simp: honest_share_def)

section \<open>Positions in the sorted member list\<close>

lemma NodeId_Cmp_less:
  "0 \<le> NodeId_Cmp a b \<longleftrightarrow> b \<le> a" "NodeId_Cmp a b = 0 \<longleftrightarrow> a = b" "NodeId_Cmp a b < 0 \<longleftrightarrow> a < b"
  by (auto simp: NodeId_Cmp_def bytes_compare_def bytes_lt_less)

lemma Index_nth:
  assumes "sorted ms" and "distinct ms" and i: "i < length ms"
  shows "Index ms (ms ! i) = int i"
proof -
  let ?g = "\<lambda>k. 0 \<le> NodeId_Cmp (ms ! k) (ms ! i)"
  let ?j = "sort_Search (length ms) ?g"
  have mono: "?g l" if "k \<le> l" "l < length ms" "?g k" for k l
    using that assms(1) by (auto simp: NodeId_Cmp_less sorted_iff_nth_mono intro: order_trans)
  have below: "\<not> ?g k" if "k < ?j" for k using mono that by (rule sort_Search_spec(2))
  have above: "?g k" if "k < length ms" "?j \<le> k" for k using mono that by (rule sort_Search_spec(3))
  have ji: "?j \<le> i" using below[of i] by (auto simp: NodeId_Cmp_less not_le[symmetric])
  then have "ms ! i \<le> ms ! ?j" using above[of ?j] i by (simp add: NodeId_Cmp_less)
  moreover have "ms ! ?j \<le> ms ! i" using assms(1) i ji by (auto simp: sorted_iff_nth_mono)
  ultimately have "ms ! ?j = ms ! i" by (rule antisym[rotated])
  then have "?j = i" using nth_eq_iff_index_eq[OF assms(2), of ?j i] i ji by simp
  then show ?thesis using i by (simp add: Index_def Let_def NodeId_Cmp_less)
qed

lemma Index_absent: "x \<notin> set ms \<Longrightarrow> Index ms x = - 1"
  by (simp add: Index_def Let_def NodeId_Cmp_less) (metis nth_mem)

lemma vm_fold:
  "fold (\<lambda>(n, pk) m. m\<lparr>vm_pubs := (vm_pubs m)(n \<mapsto> pk), vm_nodeIds := vm_nodeIds m @ [n]\<rparr>) es m
   = m\<lparr>vm_pubs := vm_pubs m ++ map_of (rev es), vm_nodeIds := vm_nodeIds m @ map fst es\<rparr>"
  by (induction es arbitrary: m) (auto simp: map_add_def fun_eq_iff split: option.splits)

lemma NewValidatorMapping_spec:
  "vm_nodeIds (NewValidatorMapping es) = sort (map fst es)"
  "vm_pubs (NewValidatorMapping es) = map_of (rev es)"
  by (simp_all add: NewValidatorMapping_def vm_fold Let_def)

section \<open>Properties\<close>

text \<open>C38. A validator set that \<open>NewValidatorSet\<close> accepts is well formed: its members are the given node
  ids, sorted and without duplicates, every stake is positive, and the total is the sum modulo \<open>2 ^ 256\<close>.\<close>

theorem NewValidatorSet_well_formed:
  assumes "NewValidatorSet vals = Ok v" and "\<forall>x\<in>set vals. wf_stake (vd_Stake x)"
  shows "sorted (vs_members v) \<and> distinct (vs_members v) \<and> set (vs_members v) = vd_NodeId ` set vals
    \<and> (\<forall>n s. vs_stakes v n = Some s \<longrightarrow> 0 < stake_val s)
    \<and> stake_val (vs_totalStake v) = weight v UNIV mod 2 ^ 256"
  using NewValidatorSet_inv[OF assms] by (auto simp: ValidatorSet_inv_def stakes_inv_def ran_def)

definition example_validators :: "ValidatorData list" where
  "example_validators =
     [\<lparr>vd_NodeId = [2], vd_Stake = StakeFromUint64 1, vd_CertPubKey = [2]\<rparr>,
      \<lparr>vd_NodeId = [1], vd_Stake = StakeFromUint64 1, vd_CertPubKey = [1]\<rparr>,
      \<lparr>vd_NodeId = [4], vd_Stake = StakeFromUint64 1, vd_CertPubKey = [4]\<rparr>,
      \<lparr>vd_NodeId = [3], vd_Stake = StakeFromUint64 1, vd_CertPubKey = [3]\<rparr>]"

definition example_set :: ValidatorSet where
  "example_set = (case NewValidatorSet example_validators of Ok v \<Rightarrow> v | _ \<Rightarrow>
     \<lparr>vs_members = [], vs_stakes = Map.empty, vs_totalStake = Stake_zero\<rparr>)"

lemma StakeFromUint64_not_zero: "v \<noteq> 0 \<Longrightarrow> \<not> Stake_IsZero (StakeFromUint64 v)"
  by (simp add: Stake_IsZero_val unat_eq_0)

lemma example_set_Ok: "NewValidatorSet example_validators = Ok example_set"
  and example_set_wf: "\<forall>x\<in>set example_validators. wf_stake (vd_Stake x)"
  by (simp_all add: example_set_def NewValidatorSet_def example_validators_def StakeFromUint64_not_zero)

lemma example_set_stakes: "vs_stakes example_set = [[1] \<mapsto> StakeFromUint64 1, [2] \<mapsto> StakeFromUint64 1,
    [3] \<mapsto> StakeFromUint64 1, [4] \<mapsto> StakeFromUint64 1]"
  using NewValidatorSet_inv(3)[OF example_set_Ok example_set_wf]
  by (auto simp: example_validators_def fun_eq_iff)

lemma example_set_inv: "stakes_inv example_set" "total_fits example_set"
proof -
  show "stakes_inv example_set"
    using NewValidatorSet_inv(1)[OF example_set_Ok example_set_wf] by (simp add: ValidatorSet_inv_def)
  have d: "dom (vs_stakes example_set) = {[1], [2], [3], [4]}" by (auto simp: example_set_stakes)
  show "total_fits example_set"
    by (simp add: total_fits_def weight_def d) (simp add: example_set_stakes)
qed

lemma NewValidatorSet_well_formed_witness:
  "sorted (vs_members example_set) \<and> set (vs_members example_set) = {[1], [2], [3], [4]}"
  using NewValidatorSet_well_formed[OF example_set_Ok example_set_wf] by (auto simp: example_validators_def)

text \<open>C11. The thresholds are exact: as long as the stakes sum up below \<open>2 ^ 256\<close>, a list of distinct nodes
  has a super-majority if and only if it holds more than two thirds of the stake, and an honest vote if
  and only if it holds more than one third; a repeated node is an error in both.\<close>

theorem vote_thresholds_exact:
  assumes "stakes_inv v" and "total_fits v"
  shows "(HasSuperMajorityVotes v addrs = Ok True \<longleftrightarrow>
        distinct addrs \<and> 2 * weight v UNIV < 3 * weight v (set addrs))
    \<and> (HasHonestVote v addrs = Ok True \<longleftrightarrow> distinct addrs \<and> weight v UNIV < 3 * weight v (set addrs))
    \<and> (distinct addrs \<longrightarrow> (\<exists>a b. HasSuperMajorityVotes v addrs = Ok a \<and> HasHonestVote v addrs = Ok b))"
  using HasSuperMajorityVotes_iff[OF assms] HasHonestVote_iff[OF assms]
    HasSuperMajorityVotes_weight[OF assms] HasHonestVote_weight[OF assms] assms
  by (simp add: super_majority_def honest_share_def)

lemma example_weight: "weight example_set A = card (A \<inter> {[1], [2], [3], [4]})"
proof -
  have d: "dom (vs_stakes example_set) = {[1], [2], [3], [4]}" by (auto simp: example_set_stakes)
  have "(\<Sum>x\<in>A \<inter> {[1], [2], [3], [4]}. stake_val (the (vs_stakes example_set x))) = (\<Sum>x\<in>A \<inter> {[1], [2], [3], [4]}. 1)"
    by (rule sum.cong) (auto simp: example_set_stakes)
  then show ?thesis by (simp add: weight_def d)
qed

lemma vote_thresholds_exact_witness:
  "HasSuperMajorityVotes example_set [[1], [2], [3]] = Ok True
   \<and> HasSuperMajorityVotes example_set [[1], [2]] \<noteq> Ok True \<and> HasHonestVote example_set [[1], [2]] = Ok True"
  using vote_thresholds_exact[OF example_set_inv, of "[[1], [2], [3]]"]
    vote_thresholds_exact[OF example_set_inv, of "[[1], [2]]"]
  by (simp add: example_weight)

text \<open>C10. Quorum intersection: the nodes common to two super-majorities of one validator set hold enough
  stake for an honest vote, so no two super-majorities are disjoint and the faulty third alone cannot be
  their overlap.\<close>

theorem super_majorities_share_honest_vote:
  assumes "stakes_inv v" and "total_fits v"
    and "HasSuperMajorityVotes v A = Ok True" and "HasSuperMajorityVotes v B = Ok True"
  shows "HasHonestVote v (filter (\<lambda>n. n \<in> set B) A) = Ok True"
proof -
  have "set (filter (\<lambda>n. n \<in> set B) A) = set A \<inter> set B" by auto
  then show ?thesis
    using assms stake_quorum.quorum_inter[of v "set A" "set B"]
    by (simp add: HasSuperMajorityVotes_iff HasHonestVote_iff)
qed

lemma super_majorities_share_honest_vote_witness:
  "HasHonestVote example_set [[2], [3]] = Ok True"
  using super_majorities_share_honest_vote[OF example_set_inv, of "[[1], [2], [3]]" "[[2], [3], [4]]"]
  by (simp add: HasSuperMajorityVotes_weight[OF example_set_inv] example_weight)



end
