(* ===== verification/Sigcol.thy ===== *)
theory Sigcol
  imports Crypto Validator "HOL-Library.Multiset"
begin

text \<open>
  \<open>sigcol/sigcol.go\<close>: the signer bit map and its wire form, and the aggregated signature
  collection of a certificate. The lemmas give the round trip of both and that a collection built
  by \<open>New\<close> verifies and names exactly the nodes whose signatures went in.
\<close>

definition MaxSignersLen :: nat where "MaxSignersLen = 1024 * 16"

datatype sigcol_error =
    ErrNodeIdNotInMapping node_id | ErrConflictingSignatures | ErrInvalidSignatures
  | ErrSignersLenMismatch | ErrSignersLenExceeded
  | InvalidSignaturesCreate "(node_id \<times> bls_sig) list"

section \<open>Signer map\<close>

type_synonym SignerMap = "bool list"

definition NewSignerMap :: "nat \<Rightarrow> SignerMap" where
  "NewSignerMap n = replicate n False"

definition SignerMap_NumSignatures :: "SignerMap \<Rightarrow> nat" where
  "SignerMap_NumSignatures bits = length (filter (\<lambda>b. b) bits)"

definition SignerMap_buf :: "SignerMap \<Rightarrow> bytes" where
  "SignerMap_buf bits =
     (let numBits = length bits; numBytes = (numBits + 7) div 8 in
      fold (\<lambda>j buf. if bits ! (numBits - 1 - j)
                    then buf[numBytes - 1 - j div 8 := buf ! (numBytes - 1 - j div 8) OR push_bit (j mod 8) 1]
                    else buf)
        [0..<numBits] (replicate numBytes 0))"

definition SignerMap_EncodeRLP :: "bytes \<Rightarrow> SignerMap \<Rightarrow> bytes" where
  "SignerMap_EncodeRLP dst bits =
     AppendList dst (\<lambda>p. AppendString (AppendUint32 p (of_nat (length bits))) (SignerMap_buf bits))"

definition SignerMap_DecodeRLP :: "bytes \<Rightarrow> (rlp_error, SignerMap \<times> bytes) go" where
  "SignerMap_DecodeRLP s =
     go_bind (rlp_List s) (\<lambda>(l, rest).
     go_bind (rlp_Uint64 l) (\<lambda>(numBits64, l).
     if of_nat MaxSignersLen < numBits64 then Err ErrCustom
     else let numBits = unat numBits64; numBytes = (numBits + 7) div 8 in
     go_bind (rlp_Bytes l) (\<lambda>(decoded, l).
     if length decoded \<noteq> numBytes then Err ErrUnexpectedLength
     else go_bind (rlp_Done l) (\<lambda>_.
       Ok (map (\<lambda>i. let k = numBits - 1 - i in
                  drop_bit (k mod 8) (decoded ! (numBytes - 1 - k div 8)) AND 1 = 1)
             [0..<numBits], rest)))))"

section \<open>Signature collection\<close>

record BlsSignatureCollection =
  sc_Signers :: SignerMap
  sc_Sig :: "bls_sig option"
  sc_RawSig :: bytes

definition sigcol_Empty :: "BlsSignatureCollection" where
  "sigcol_Empty = \<lparr>sc_Signers = NewSignerMap 0, sc_Sig = Some BlsSignatureInfinity,
                    sc_RawSig = BlsSignatureInfinity\<rparr>"

definition sigcol_NumSignatures :: "BlsSignatureCollection \<Rightarrow> nat" where
  "sigcol_NumSignatures c = SignerMap_NumSignatures (sc_Signers c)"

definition sigcol_EncodeRLP :: "bytes \<Rightarrow> BlsSignatureCollection \<Rightarrow> bytes" where
  "sigcol_EncodeRLP dst c =
     AppendList dst (\<lambda>p. AppendString (SignerMap_EncodeRLP p (sc_Signers c)) (sc_RawSig c))"

definition sigcol_DecodeRLP :: "crypto \<Rightarrow> bytes \<Rightarrow> (rlp_error, BlsSignatureCollection \<times> bytes) go" where
  "sigcol_DecodeRLP cr s =
     go_bind (rlp_List s) (\<lambda>(l, rest).
     go_bind (SignerMap_DecodeRLP l) (\<lambda>(signers, l).
     go_bind (rlp_FixedBytes BlsSignatureCompressdLen l) (\<lambda>(sigBytes, l).
     go_bind (rlp_Done l) (\<lambda>_.
       Ok (\<lparr>sc_Signers = signers, sc_Sig = BlsSignatureUncompress cr sigBytes, sc_RawSig = sigBytes\<rparr>,
           rest)))))"

text \<open>
  The first loop of \<open>New\<close>: one signature per node. \<open>seen\<close> is a Go map that is ranged over below;
  the association list is one of the orders it may be ranged in.
\<close>

fun sigcol_seen :: "ValidatorMapping \<Rightarrow> (node_id \<times> bls_sig) list \<Rightarrow> (node_id \<times> bls_sig) list
    \<Rightarrow> (sigcol_error, (node_id \<times> bls_sig) list) go" where
  "sigcol_seen mapping [] seen = Ok seen"
| "sigcol_seen mapping ((n, s) # sigs) seen =
     (if \<not> ValidatorMapping_Has mapping n then Err (ErrNodeIdNotInMapping n)
      else case map_of seen n of
        Some prev \<Rightarrow> if prev \<noteq> s then Err ErrConflictingSignatures else sigcol_seen mapping sigs seen
      | None \<Rightarrow> sigcol_seen mapping sigs (seen @ [(n, s)]))"

text \<open>The second loop: the bit of every signer, and the keys that are aggregated.\<close>

fun sigcol_mark :: "ValidatorMapping \<Rightarrow> (node_id \<times> bls_sig) list \<Rightarrow> SignerMap \<Rightarrow> bls_pk list
    \<Rightarrow> (sigcol_error, SignerMap \<times> bls_pk list) go" where
  "sigcol_mark mapping [] bits pks = Ok (bits, pks)"
| "sigcol_mark mapping ((n, s) # seen) bits pks =
     (let idx = Index (vm_nodeIds mapping) n in
      if idx < 0 \<or> int (length bits) \<le> idx then Panic ''index out of range''
      else case ValidatorMapping_PubKey mapping n of
        None \<Rightarrow> Panic ''nil pointer dereference''
      | Some pk \<Rightarrow> sigcol_mark mapping seen (bits[nat idx := True]) (pks @ [pk]))"

definition sigcol_New :: "crypto \<Rightarrow> bytes \<Rightarrow> (node_id \<times> bls_sig) list \<Rightarrow> ValidatorMapping \<Rightarrow> bytes
    \<Rightarrow> (sigcol_error, BlsSignatureCollection) go" where
  "sigcol_New cr domain sigs mapping msg =
     go_bind (sigcol_seen mapping sigs []) (\<lambda>seen.
     go_bind (sigcol_mark mapping seen (NewSignerMap (length (vm_nodeIds mapping))) []) (\<lambda>(bits, pks).
     if seen \<noteq> [] then
       let aggSig = blst_P2_Aggregate cr (map snd seen); aggPk = blst_P1_Aggregate cr pks in
       if \<not> FastAggregateVerifyPreAggregated cr aggSig domain msg aggPk then
         let bad = filter (\<lambda>(n, s). case ValidatorMapping_PubKey mapping n of
                      None \<Rightarrow> True | Some pk \<Rightarrow> \<not> BlsSignature_Verify cr s domain msg pk) seen in
         if bad = [] then Err ErrInvalidSignatures else Err (InvalidSignaturesCreate bad)
       else Ok \<lparr>sc_Signers = bits, sc_Sig = BlsSignatureUncompress cr aggSig, sc_RawSig = aggSig\<rparr>
     else Ok \<lparr>sc_Signers = bits, sc_Sig = BlsSignatureUncompress cr BlsSignatureInfinity,
               sc_RawSig = BlsSignatureInfinity\<rparr>))"

text \<open>The signers of a bit map, in the order of the mapping, with their keys.\<close>

fun sigcol_signers :: "ValidatorMapping \<Rightarrow> nat \<Rightarrow> SignerMap \<Rightarrow> (sigcol_error, (node_id \<times> bls_pk) list) go" where
  "sigcol_signers mapping i [] = Ok []"
| "sigcol_signers mapping i (b # bits) =
     (if b then go_bind (ValidatorMapping_At mapping i) (\<lambda>(n, pk).
        case pk of None \<Rightarrow> Panic ''nil pointer dereference''
        | Some pk \<Rightarrow> go_bind (sigcol_signers mapping (Suc i) bits) (\<lambda>ss. Ok ((n, pk) # ss)))
      else sigcol_signers mapping (Suc i) bits)"

definition sigcol_Verify :: "crypto \<Rightarrow> BlsSignatureCollection \<Rightarrow> bytes \<Rightarrow> ValidatorMapping \<Rightarrow> bytes
    \<Rightarrow> (sigcol_error, node_id list) go" where
  "sigcol_Verify cr c domain mapping msg =
     (if length (sc_Signers c) \<noteq> length (vm_nodeIds mapping) then Err ErrSignersLenMismatch
      else if MaxSignersLen < length (sc_Signers c) then Err ErrSignersLenExceeded
      else case (case sc_Sig c of Some s \<Rightarrow> Some s | None \<Rightarrow> BlsSignatureUncompress cr (sc_RawSig c)) of
        None \<Rightarrow> Err ErrInvalidSignatures
      | Some sig \<Rightarrow>
          go_bind (sigcol_signers mapping 0 (sc_Signers c)) (\<lambda>ss.
          if BlsSignature_IsInfinity sig then
            if ss = [] \<and> length (sc_Signers c) = 0 then Ok (map fst ss) else Err ErrInvalidSignatures
          else if \<not> FastAggregateVerifyPreAggregated cr sig domain msg (blst_P1_Aggregate cr (map snd ss))
          then Err ErrInvalidSignatures
          else Ok (map fst ss)))"

definition sigcol_Serialize :: "BlsSignatureCollection \<Rightarrow> bytes" where
  "sigcol_Serialize c = sigcol_EncodeRLP [] c"

definition sigcol_Deserialize :: "crypto \<Rightarrow> bytes \<Rightarrow> (rlp_error, BlsSignatureCollection) go" where
  "sigcol_Deserialize cr data = DecodeExact data (sigcol_DecodeRLP cr)"

lemma rlp_append_sigcol [rlp_append]:
  "NO_MATCH [] dst \<Longrightarrow> SignerMap_EncodeRLP dst m = dst @ SignerMap_EncodeRLP [] m"
  "NO_MATCH [] dst \<Longrightarrow> sigcol_EncodeRLP dst c = dst @ sigcol_EncodeRLP [] c"
  by (simp_all add: SignerMap_EncodeRLP_def sigcol_EncodeRLP_def AppendList_dst[of dst])

section \<open>Round trips\<close>

lemma bit_step:
  fixes n j i nb :: nat and buf :: bytes
  assumes "length buf = (n + 7) div 8" "j < n" "i < n"
  defines "nb \<equiv> (n + 7) div 8"
  shows "bit ((buf[nb - 1 - j div 8 := buf ! (nb - 1 - j div 8) OR push_bit (j mod 8) 1]) ! (nb - 1 - i div 8)) (i mod 8)
     \<longleftrightarrow> i = j \<or> bit (buf ! (nb - 1 - i div 8)) (i mod 8)"
proof -
  have b: "j div 8 < nb" "i div 8 < nb" using assms by (auto simp: nb_def)
  then have idx: "nb - 1 - j div 8 = nb - 1 - i div 8 \<longleftrightarrow> j div 8 = i div 8" by auto
  have ij: "i = j \<longleftrightarrow> i div 8 = j div 8 \<and> i mod 8 = j mod 8" by (metis div_mult_mod_eq)
  show ?thesis
  proof (cases "i div 8 = j div 8")
    case True
    then have "nb - 1 - j div 8 < length buf" using assms b by simp
    with True ij show ?thesis by (auto simp: bit_simps)
  next
    case False
    with idx ij show ?thesis by (metis nth_list_update_neq)
  qed
qed

lemma SignerMap_buf_bits:
  defines "step bits \<equiv> (\<lambda>j (buf :: bytes). if bits ! (length bits - 1 - j)
      then buf[(length bits + 7) div 8 - 1 - j div 8 :=
             buf ! ((length bits + 7) div 8 - 1 - j div 8) OR push_bit (j mod 8) 1] else buf)"
  assumes "m \<le> length bits"
  shows "length (fold (step bits) [0..<m] (replicate ((length bits + 7) div 8) 0)) = (length bits + 7) div 8
    \<and> (\<forall>i<length bits. bit (fold (step bits) [0..<m] (replicate ((length bits + 7) div 8) 0)
          ! ((length bits + 7) div 8 - 1 - i div 8)) (i mod 8) \<longleftrightarrow> i < m \<and> bits ! (length bits - 1 - i))"
  using assms(2)
proof (induction m)
  case 0
  have "(length bits + 7) div 8 - 1 - i div 8 < (length bits + 7) div 8" if "i < length bits" for i
    using that by auto
  then show ?case by simp
next
  case (Suc m)
  let ?buf = "fold (step bits) [0..<m] (replicate ((length bits + 7) div 8) 0)"
  have IH: "length ?buf = (length bits + 7) div 8"
    "\<And>i. i < length bits \<Longrightarrow> bit (?buf ! ((length bits + 7) div 8 - 1 - i div 8)) (i mod 8)
        \<longleftrightarrow> i < m \<and> bits ! (length bits - 1 - i)"
    using Suc by auto
  have f: "fold (step bits) [0..<Suc m] (replicate ((length bits + 7) div 8) 0) = step bits m ?buf" by simp
  show ?case
  proof (cases "bits ! (length bits - 1 - m)")
    case True
    then show ?thesis
      unfolding f using IH bit_step[OF IH(1), of m] Suc.prems by (auto simp: step_def less_Suc_eq)
  next
    case False
    then show ?thesis unfolding f using IH by (auto simp: step_def less_Suc_eq)
  qed
qed

lemma SignerMap_buf_spec:
  "length (SignerMap_buf bits) = (length bits + 7) div 8"
  "i < length bits \<Longrightarrow> bit (SignerMap_buf bits ! ((length bits + 7) div 8 - 1 - i div 8)) (i mod 8)
     \<longleftrightarrow> bits ! (length bits - 1 - i)"
  using SignerMap_buf_bits[of "length bits" bits] by (simp_all add: SignerMap_buf_def Let_def)

lemma and_one_bit: "(drop_bit k (x :: u8) AND 1 = 1) \<longleftrightarrow> bit x k"
  by (metis and_one_eq bit_iff_odd_drop_bit odd_iff_mod_2_eq_one)

definition wf_signers :: "SignerMap \<Rightarrow> bool" where
  "wf_signers bits \<longleftrightarrow> length bits \<le> MaxSignersLen"

lemma SignerMap_Decode_Encode:
  assumes "wf_signers bits" and "length (SignerMap_EncodeRLP [] bits) + length rest < 2 ^ 62"
  shows "SignerMap_DecodeRLP (SignerMap_EncodeRLP [] bits @ rest) = Ok (bits, rest)"
proof -
  have n: "length bits \<le> 16384" using assms(1) by (simp add: wf_signers_def MaxSignersLen_def)
  have u: "(ucast (of_nat (length bits) :: u32) :: u64) = of_nat (length bits)"
    using n by (simp add: word_unat_eq_iff unsigned_ucast_eq unsigned_of_nat take_bit_eq_mod)
  have un: "unat (of_nat (length bits) :: u64) = length bits"
    using n by (intro unat_of_nat_u64) simp
  then have le: "\<not> of_nat MaxSignersLen < (of_nat (length bits) :: u64)"
    using n by (simp add: word_less_nat_alt MaxSignersLen_def)
  let ?e1 = "AppendUint64 [] (of_nat (length bits))" and ?e2 = "AppendString [] (SignerMap_buf bits)"
  have e: "SignerMap_EncodeRLP [] bits = AppendList [] (\<lambda>p. p @ ?e1 @ ?e2)"
    by (simp add: SignerMap_EncodeRLP_def AppendUint32_def u rlp_append)
  note 1 = rlp_List_fields[OF assms(2)[unfolded e]]
  then have len: "length (?e1 @ ?e2) + length rest < 2 ^ 62" by simp
  have 2: "rlp_Uint64 (?e1 @ ?e2) = Ok (of_nat (length bits), ?e2)"
    using len by (intro u64_rlp.dec_enc) simp_all
  have 3: "rlp_Bytes ?e2 = Ok (SignerMap_buf bits, [])"
    using bytes_rlp.dec_enc[of "SignerMap_buf bits" "[]"] len by simp
  have "map (\<lambda>i. drop_bit ((length bits - 1 - i) mod 8)
       (SignerMap_buf bits ! ((length bits + 7) div 8 - 1 - (length bits - 1 - i) div 8)) AND 1 = 1)
     [0..<length bits] = bits" (is "?m = bits")
  proof (rule nth_equalityI)
    fix i assume "i < length ?m"
    then have i: "i < length bits" by simp
    then have "length bits - 1 - (length bits - 1 - i) = i" by simp
    with i SignerMap_buf_spec(2)[of "length bits - 1 - i" bits] show "?m ! i = bits ! i"
      by (simp add: and_one_bit)
  qed simp
  then show ?thesis
    unfolding e SignerMap_DecodeRLP_def
    by (simp add: 1 2 3 le un SignerMap_buf_spec Let_def)
qed

interpretation signers_rlp: rlp_codec "SignerMap_EncodeRLP []" SignerMap_DecodeRLP wf_signers
  by unfold_locales
    (simp_all add: SignerMap_Decode_Encode,
      simp add: SignerMap_EncodeRLP_def AppendList_nonempty)

definition wf_sigcol :: "crypto \<Rightarrow> BlsSignatureCollection \<Rightarrow> bool" where
  "wf_sigcol cr c \<longleftrightarrow> wf_signers (sc_Signers c) \<and> length (sc_RawSig c) = BlsSignatureCompressdLen
     \<and> sc_Sig c = BlsSignatureUncompress cr (sc_RawSig c)"

lemma sigcol_Decode_Encode:
  assumes "wf_sigcol cr c" and "length (sigcol_EncodeRLP [] c) + length rest < 2 ^ 62"
  shows "sigcol_DecodeRLP cr (sigcol_EncodeRLP [] c @ rest) = Ok (c, rest)"
proof -
  have e: "sigcol_EncodeRLP [] c
      = AppendList [] (\<lambda>p. p @ SignerMap_EncodeRLP [] (sc_Signers c) @ AppendString [] (sc_RawSig c))"
    by (simp add: sigcol_EncodeRLP_def rlp_append)
  note f = rlp_List_fields[OF assms(2)[unfolded e]]
  have "rlp_FixedBytes BlsSignatureCompressdLen (AppendString [] (sc_RawSig c)) = Ok (sc_RawSig c, [])"
    using fixed_rlp.dec_enc[of "sc_RawSig c" BlsSignatureCompressdLen "[]"] f(2) assms(1)
    by (simp add: wf_sigcol_def)
  with f assms(1) show ?thesis
    by (simp add: e sigcol_DecodeRLP_def signers_rlp.dec_enc wf_sigcol_def)
qed

interpretation sigcol_rlp: rlp_codec "sigcol_EncodeRLP []" "sigcol_DecodeRLP cr" "wf_sigcol cr" for cr
  by unfold_locales (simp_all add: sigcol_Decode_Encode, simp add: sigcol_EncodeRLP_def AppendList_nonempty)

section \<open>Building and verifying a collection\<close>

definition wf_mapping :: "ValidatorMapping \<Rightarrow> bool" where
  "wf_mapping m \<longleftrightarrow> sorted (vm_nodeIds m) \<and> distinct (vm_nodeIds m) \<and> set (vm_nodeIds m) = dom (vm_pubs m)"

lemma wf_NewValidatorMapping: "distinct (map fst es) \<Longrightarrow> wf_mapping (NewValidatorMapping es)"
  by (auto simp: wf_mapping_def NewValidatorMapping_spec dom_map_of_conv_image_fst)

lemma sigcol_seen_Ok:
  assumes "sigcol_seen m sigs seen = Ok seen'" and "distinct (map fst seen)"
    and "fst ` set seen \<subseteq> dom (vm_pubs m)"
  shows "distinct (map fst seen') \<and> set seen' = set seen \<union> set sigs \<and> fst ` set seen' \<subseteq> dom (vm_pubs m)"
  using assms
proof (induction m sigs seen rule: sigcol_seen.induct)
  case (2 m n s sigs seen)
  have has: "ValidatorMapping_Has m n" using "2.prems"(1) by (auto split: if_splits)
  show ?case
  proof (cases "map_of seen n")
    case None
    then have "n \<notin> fst ` set seen" by (simp add: map_of_eq_None_iff)
    moreover have "n \<in> dom (vm_pubs m)" using has by (auto simp: ValidatorMapping_Has_def)
    ultimately have "distinct (map fst seen') \<and> set seen' = set (seen @ [(n, s)]) \<union> set sigs
        \<and> fst ` set seen' \<subseteq> dom (vm_pubs m)"
      using "2.prems" None has by (intro "2.IH"(1)) simp_all
    then show ?thesis by (elim conjE) (intro conjI, assumption, simp, assumption)
  next
    case (Some prev)
    then have "prev = s" using "2.prems"(1) has by (auto split: if_splits)
    then have "(n, s) \<in> set seen" using Some by (auto dest: map_of_SomeD)
    moreover have "distinct (map fst seen') \<and> set seen' = set seen \<union> set sigs
        \<and> fst ` set seen' \<subseteq> dom (vm_pubs m)"
      using "2.prems" Some has \<open>prev = s\<close> by (intro "2.IH"(2)[OF _ Some]) simp_all
    ultimately show ?thesis by (elim conjE) (intro conjI, assumption, auto)
  qed
qed auto

lemma sigcol_mark_Ok:
  assumes "wf_mapping m" and "fst ` set seen \<subseteq> dom (vm_pubs m)" and "length bits = length (vm_nodeIds m)"
  shows "\<exists>bits'. sigcol_mark m seen bits pks = Ok (bits', pks @ map (\<lambda>(n, s). the (vm_pubs m n)) seen)
    \<and> length bits' = length bits
    \<and> (\<forall>i<length bits. bits' ! i \<longleftrightarrow> bits ! i \<or> vm_nodeIds m ! i \<in> fst ` set seen)"
  using assms(2,3)
proof (induction seen arbitrary: bits pks)
  case (Cons x seen)
  obtain n s where x: "x = (n, s)" by (cases x)
  have nd: "n \<in> dom (vm_pubs m)" using Cons.prems(1) x by auto
  then have "n \<in> set (vm_nodeIds m)" using assms(1) by (simp add: wf_mapping_def)
  then obtain k where k: "k < length (vm_nodeIds m)" "n = vm_nodeIds m ! k" by (auto simp: in_set_conv_nth)
  have idx: "Index (vm_nodeIds m) n = int k"
    using assms(1) Index_nth[of "vm_nodeIds m" k] k by (simp add: wf_mapping_def)
  obtain pk where pk: "vm_pubs m n = Some pk" using nd by auto
  have pre: "fst ` set seen \<subseteq> dom (vm_pubs m)" "length (bits[k := True]) = length (vm_nodeIds m)"
    using Cons.prems by auto
  from Cons.IH[OF pre, of "pks @ [pk]"] obtain bits' where
    IH: "sigcol_mark m seen (bits[k := True]) (pks @ [pk])
        = Ok (bits', (pks @ [pk]) @ map (\<lambda>(n, s). the (vm_pubs m n)) seen)"
      "length bits' = length (bits[k := True])"
      "\<forall>i<length (bits[k := True]). bits' ! i \<longleftrightarrow> bits[k := True] ! i \<or> vm_nodeIds m ! i \<in> fst ` set seen"
    by auto
  have "sigcol_mark m (x # seen) bits pks = sigcol_mark m seen (bits[k := True]) (pks @ [pk])"
    using x idx k(1) Cons.prems(2) pk by (simp add: Let_def ValidatorMapping_PubKey_def)
  moreover have "\<forall>i<length bits. bits' ! i \<longleftrightarrow> bits ! i \<or> vm_nodeIds m ! i \<in> fst ` set (x # seen)"
  proof (intro allI impI)
    fix i assume i: "i < length bits"
    have "vm_nodeIds m ! i = n \<longleftrightarrow> i = k"
      using assms(1) k i Cons.prems(2) nth_eq_iff_index_eq by (auto simp: wf_mapping_def)
    with IH(3) i x k show "bits' ! i \<longleftrightarrow> bits ! i \<or> vm_nodeIds m ! i \<in> fst ` set (x # seen)"
      by (auto simp: nth_list_update)
  qed
  ultimately show ?case using IH x pk by auto
qed simp

lemma sigcol_signers_Ok:
  assumes "i + length bits \<le> length (vm_nodeIds m)" and "set (vm_nodeIds m) \<subseteq> dom (vm_pubs m)"
  shows "sigcol_signers m i bits =
    Ok (map (\<lambda>(n, b). (n, the (vm_pubs m n))) (filter snd (zip (drop i (vm_nodeIds m)) bits)))"
  using assms(1)
proof (induction bits arbitrary: i)
  case (Cons b bits)
  have i: "i < length (vm_nodeIds m)" using Cons.prems by simp
  then have "vm_nodeIds m ! i \<in> dom (vm_pubs m)" using assms(2) nth_mem by blast
  then obtain pk where "vm_pubs m (vm_nodeIds m ! i) = Some pk" by auto
  with i Cons.IH[of "Suc i"] Cons.prems show ?case
    by (simp add: ValidatorMapping_At_def Let_def Cons_nth_drop_Suc[symmetric])
qed simp

lemma filter_zip_nth:
  "length bits = length xs \<Longrightarrow> (\<And>i. i < length xs \<Longrightarrow> bits ! i \<longleftrightarrow> P (xs ! i)) \<Longrightarrow>
     map (\<lambda>(n, b). f n) (filter snd (zip xs bits)) = map f (filter P xs)"
proof (induction xs arbitrary: bits)
  case (Cons x xs)
  then obtain b bs where b: "bits = b # bs" by (cases bits) auto
  have "bs ! i \<longleftrightarrow> P (xs ! i)" if "i < length xs" for i using Cons.prems(2)[of "Suc i"] that b by simp
  moreover have "b \<longleftrightarrow> P x" using Cons.prems(2)[of 0] b by simp
  ultimately show ?case using Cons.IH[of bs] Cons.prems(1) b by simp
qed simp

text \<open>
  What is used of the BLS library: aggregating public keys does not depend on the order, and an
  aggregate signature has a compressed encoding.
\<close>

definition bls_aggregation :: "crypto \<Rightarrow> bool" where
  "bls_aggregation cr \<longleftrightarrow>
     (\<forall>xs ys. mset xs = mset ys \<longrightarrow> blst_P1_Aggregate cr xs = blst_P1_Aggregate cr ys)
     \<and> (\<forall>xs. BlsSignatureUncompress cr (blst_P2_Aggregate cr xs) = Some (blst_P2_Aggregate cr xs))"

lemma bls_aggregationD:
  assumes "bls_aggregation cr"
  shows "mset xs = mset ys \<Longrightarrow> blst_P1_Aggregate cr xs = blst_P1_Aggregate cr ys"
    and "BlsSignatureUncompress cr (blst_P2_Aggregate cr xs) = Some (blst_P2_Aggregate cr xs)"
  using assms unfolding bls_aggregation_def by blast+

lemma sigcol_New_shape:
  assumes "sigcol_New cr domain sigs m msg = Ok c" and "wf_mapping m" and "sigs \<noteq> []"
  obtains seen where "distinct (map fst seen)" "set seen = set sigs"
    "length (sc_Signers c) = length (vm_nodeIds m)"
    "\<And>i. i < length (vm_nodeIds m) \<Longrightarrow> sc_Signers c ! i \<longleftrightarrow> vm_nodeIds m ! i \<in> fst ` set sigs"
    "fst ` set sigs \<subseteq> set (vm_nodeIds m)"
    "sc_RawSig c = blst_P2_Aggregate cr (map snd seen)" "sc_Sig c = BlsSignatureUncompress cr (sc_RawSig c)"
    "FastAggregateVerifyPreAggregated cr (sc_RawSig c) domain msg
       (blst_P1_Aggregate cr (map (\<lambda>n. the (vm_pubs m n)) (map fst seen)))"
proof -
  obtain seen where seen: "sigcol_seen m sigs [] = Ok seen" using assms(1) by (auto simp: sigcol_New_def go_simps)
  note s = sigcol_seen_Ok[OF seen]
  have set: "set seen = set sigs" and d: "distinct (map fst seen)" and dm: "fst ` set seen \<subseteq> dom (vm_pubs m)"
    using s by auto
  have ne: "seen \<noteq> []" using set assms(3) by auto
  obtain bits where bits: "sigcol_mark m seen (NewSignerMap (length (vm_nodeIds m))) []
      = Ok (bits, map (\<lambda>(n, s). the (vm_pubs m n)) seen)"
    "length bits = length (vm_nodeIds m)"
    "\<forall>i<length (vm_nodeIds m). bits ! i \<longleftrightarrow> vm_nodeIds m ! i \<in> fst ` set seen"
    using sigcol_mark_Ok[OF assms(2) dm, of "NewSignerMap (length (vm_nodeIds m))" "[]"]
    by (auto simp: NewSignerMap_def)
  have pks: "map (\<lambda>(n, s). the (vm_pubs m n)) seen = map (\<lambda>n. the (vm_pubs m n)) (map fst seen)"
    by (simp add: case_prod_beta)
  have c: "c = \<lparr>sc_Signers = bits, sc_Sig = BlsSignatureUncompress cr (blst_P2_Aggregate cr (map snd seen)),
      sc_RawSig = blst_P2_Aggregate cr (map snd seen)\<rparr>"
    "FastAggregateVerifyPreAggregated cr (blst_P2_Aggregate cr (map snd seen)) domain msg
       (blst_P1_Aggregate cr (map (\<lambda>n. the (vm_pubs m n)) (map fst seen)))"
    using assms(1) ne unfolding sigcol_New_def seen go_bind.simps bits(1) pks
    by (auto simp: Let_def split: if_splits)
  have "fst ` set sigs \<subseteq> set (vm_nodeIds m)" using dm set assms(2) by (simp add: wf_mapping_def)
  with c bits set d show ?thesis by (intro that[of seen]) simp_all
qed

lemma sigcol_New_Verify:
  assumes new: "sigcol_New cr domain sigs m msg = Ok c" and wf: "wf_mapping m" and ne: "sigs \<noteq> []"
    and bls: "bls_aggregation cr" and fits: "length (vm_nodeIds m) \<le> MaxSignersLen"
    and inf: "\<not> BlsSignature_IsInfinity (sc_RawSig c)"
  shows "sigcol_Verify cr c domain m msg = Ok (filter (\<lambda>n. n \<in> fst ` set sigs) (vm_nodeIds m))"
proof (rule sigcol_New_shape[OF new wf ne])
  fix seen
  let ?pk = "\<lambda>n. the (vm_pubs m n)" and ?A = "filter (\<lambda>n. n \<in> fst ` set sigs) (vm_nodeIds m)"
  assume d: "distinct (map fst seen)" and set: "set seen = set sigs"
    and len: "length (sc_Signers c) = length (vm_nodeIds m)"
    and bits: "\<And>i. i < length (vm_nodeIds m) \<Longrightarrow> sc_Signers c ! i \<longleftrightarrow> vm_nodeIds m ! i \<in> fst ` set sigs"
    and sub: "fst ` set sigs \<subseteq> set (vm_nodeIds m)"
    and raw: "sc_RawSig c = blst_P2_Aggregate cr (map snd seen)"
    and sig: "sc_Sig c = BlsSignatureUncompress cr (sc_RawSig c)"
    and ver: "FastAggregateVerifyPreAggregated cr (sc_RawSig c) domain msg
       (blst_P1_Aggregate cr (map ?pk (map fst seen)))"
  have "set (vm_nodeIds m) \<subseteq> dom (vm_pubs m)" using wf by (simp add: wf_mapping_def)
  then have "sigcol_signers m 0 (sc_Signers c) =
      Ok (map (\<lambda>(n, b). (n, ?pk n)) (filter snd (zip (vm_nodeIds m) (sc_Signers c))))"
    using sigcol_signers_Ok[of 0 "sc_Signers c" m] len by simp
  moreover have "map (\<lambda>(n, b). (n, ?pk n)) (filter snd (zip (vm_nodeIds m) (sc_Signers c)))
      = map (\<lambda>n. (n, ?pk n)) ?A"
    by (rule filter_zip_nth[OF len bits])
  ultimately have ss: "sigcol_signers m 0 (sc_Signers c) = Ok (map (\<lambda>n. (n, ?pk n)) ?A)"
    by (simp only:)
  have dA: "distinct ?A" using wf by (simp add: wf_mapping_def)
  have "set ?A = set (map fst seen)" by (simp only: set_filter set_map set) (use sub in blast)
  then have "mset ?A = mset (map fst seen)" by (simp only: set_eq_iff_mset_eq_distinct[OF dA d])
  then have "mset (map ?pk ?A) = mset (map ?pk (map fst seen))" by (simp only: mset_map)
  then have agg: "blst_P1_Aggregate cr (map ?pk ?A) = blst_P1_Aggregate cr (map ?pk (map fst seen))"
    by (rule bls_aggregationD(1)[OF bls])
  have sg: "sc_Sig c = Some (sc_RawSig c)" using sig raw bls_aggregationD(2)[OF bls] by simp
  have m1: "map fst (map (\<lambda>n. (n, ?pk n)) ?A) = ?A" "map snd (map (\<lambda>n. (n, ?pk n)) ?A) = map ?pk ?A"
    by (simp_all add: comp_def)
  show ?thesis
    unfolding sigcol_Verify_def using len fits inf ver
    by (simp only: ss sg go_bind.simps option.case m1 agg if_False if_True simp_thms) simp
qed

text \<open>Whoever a verified collection names is a member of the mapping, once.\<close>

lemma sigcol_Verify_signers:
  assumes "sigcol_Verify cr c domain m msg = Ok signers" and "wf_mapping m"
  shows "set signers \<subseteq> set (vm_nodeIds m)" and "distinct signers"
    and "length signers = sigcol_NumSignatures c"
proof -
  have len: "length (sc_Signers c) = length (vm_nodeIds m)"
    using assms(1) by (auto simp: sigcol_Verify_def split: if_splits)
  have ss: "sigcol_signers m 0 (sc_Signers c) =
      Ok (map (\<lambda>(n, b). (n, the (vm_pubs m n))) (filter snd (zip (vm_nodeIds m) (sc_Signers c))))"
    using sigcol_signers_Ok[of 0 "sc_Signers c" m] len assms(2) by (simp add: wf_mapping_def)
  have s: "signers = map fst (filter snd (zip (vm_nodeIds m) (sc_Signers c)))"
    using assms(1) ss unfolding sigcol_Verify_def
    by (auto split: if_splits option.splits simp: case_prod_beta comp_def)
  show "set signers \<subseteq> set (vm_nodeIds m)" using s by (auto dest: set_zip_leftD)
  have "map fst (zip (vm_nodeIds m) (sc_Signers c)) = vm_nodeIds m" using len by simp
  then show "distinct signers"
    using assms(2) s by (metis distinct_map_filter wf_mapping_def)
  have "length (filter (\<lambda>b. b) bs) = length (filter snd (zip xs bs))" if "length xs = length bs"
    for xs :: "node_id list" and bs
    using that by (induction xs bs rule: list_induct2) auto
  then have "length (filter (\<lambda>b. b) (sc_Signers c)) = length (filter snd (zip (vm_nodeIds m) (sc_Signers c)))"
    using len by simp
  then show "length signers = sigcol_NumSignatures c"
    using s by (simp add: sigcol_NumSignatures_def SignerMap_NumSignatures_def)
qed

text \<open>The outcome of \<open>New\<close> on signatures of distinct nodes.\<close>

definition sig_valid :: "crypto \<Rightarrow> bytes \<Rightarrow> ValidatorMapping \<Rightarrow> bytes \<Rightarrow> node_id \<Rightarrow> bls_sig \<Rightarrow> bool" where
  "sig_valid cr domain m msg n s = (case vm_pubs m n of None \<Rightarrow> False | Some pk \<Rightarrow> BlsSignature_Verify cr s domain msg pk)"

lemma sigcol_seen_distinct:
  "distinct (map fst (seen @ sigs)) \<Longrightarrow> fst ` set sigs \<subseteq> dom (vm_pubs m) \<Longrightarrow> sigcol_seen m sigs seen = Ok (seen @ sigs)"
proof (induction m sigs seen rule: sigcol_seen.induct)
  case (2 m n s sigs seen)
  have "ValidatorMapping_Has m n" using "2.prems"(2) by (auto simp: ValidatorMapping_Has_def)
  moreover have n: "map_of seen n = None" using "2.prems"(1) by (auto simp: map_of_eq_None_iff)
  moreover have "sigcol_seen m sigs (seen @ [(n, s)]) = Ok ((seen @ [(n, s)]) @ sigs)"
    using "2.IH"(1)[OF _ n] "2.prems" \<open>ValidatorMapping_Has m n\<close> by simp
  ultimately show ?case by simp
qed simp

lemma sigcol_seen_missing:
  "\<not> fst ` set sigs \<subseteq> dom (vm_pubs m) \<Longrightarrow> \<exists>e. sigcol_seen m sigs seen = Err e \<and> (\<forall>bad. e \<noteq> InvalidSignaturesCreate bad)"
proof (induction m sigs seen rule: sigcol_seen.induct)
  case (2 m n s sigs seen)
  show ?case
  proof (cases "n \<in> dom (vm_pubs m)")
    case True
    then have "\<not> fst ` set sigs \<subseteq> dom (vm_pubs m)" using "2.prems" by auto
    with 2 True show ?thesis by (simp add: ValidatorMapping_Has_def dom_def split: option.splits)
  qed (auto simp: ValidatorMapping_Has_def)
qed simp

lemma sigcol_New_distinct:
  assumes "wf_mapping m" and "distinct (map fst sigs)" and "sigs \<noteq> []" and "fst ` set sigs \<subseteq> set (vm_nodeIds m)"
  shows "\<exists>c. sigcol_New cr domain sigs m msg =
    (if FastAggregateVerifyPreAggregated cr (blst_P2_Aggregate cr (map snd sigs)) domain msg
          (blst_P1_Aggregate cr (map (\<lambda>(n, s). the (vm_pubs m n)) sigs)) then Ok c
     else let bad = filter (\<lambda>(n, s). \<not> sig_valid cr domain m msg n s) sigs in
       if bad = [] then Err ErrInvalidSignatures else Err (InvalidSignaturesCreate bad))"
proof -
  have dm: "fst ` set sigs \<subseteq> dom (vm_pubs m)" using assms(1,4) by (simp add: wf_mapping_def)
  have seen: "sigcol_seen m sigs [] = Ok sigs" using sigcol_seen_distinct[of "[]" sigs m] assms(2) dm by simp
  obtain bits where bits: "sigcol_mark m sigs (NewSignerMap (length (vm_nodeIds m))) []
      = Ok (bits, map (\<lambda>(n, s). the (vm_pubs m n)) sigs)"
    using sigcol_mark_Ok[OF assms(1) dm, of "NewSignerMap (length (vm_nodeIds m))" "[]"]
    by (auto simp: NewSignerMap_def)
  have bad: "(\<lambda>(n, s). case ValidatorMapping_PubKey m n of None \<Rightarrow> True | Some pk \<Rightarrow> \<not> BlsSignature_Verify cr s domain msg pk)
      = (\<lambda>(n, s). \<not> sig_valid cr domain m msg n s)"
    by (auto simp: fun_eq_iff sig_valid_def ValidatorMapping_PubKey_def split: option.splits)
  show ?thesis
    unfolding sigcol_New_def seen go_bind.simps bits bad by (simp add: Let_def assms(3))
qed

lemma sigcol_New_missing:
  assumes "wf_mapping m" and "\<not> fst ` set sigs \<subseteq> set (vm_nodeIds m)"
  shows "\<exists>e. sigcol_New cr domain sigs m msg = Err e \<and> (\<forall>bad. e \<noteq> InvalidSignaturesCreate bad)"
  using sigcol_seen_missing[of sigs m "[]"] assms by (auto simp: sigcol_New_def wf_mapping_def)

lemmas [rlp_read] = signers_rlp.reads sigcol_rlp.reads

section \<open>Properties\<close>

lemma example_bls_aggregation: "bls_aggregation example_crypto"
  by (simp add: bls_aggregation_def)

definition example_mapping :: ValidatorMapping where
  "example_mapping = NewValidatorMapping [([2], [12]), ([1], [11]), ([3], [13])]"

lemma example_mapping_wf: "wf_mapping example_mapping"
  by (simp add: example_mapping_def wf_NewValidatorMapping)

lemma example_mapping_fields:
  "vm_nodeIds example_mapping = [[1], [2], [3]]"
  "vm_pubs example_mapping = [[1] \<mapsto> [11], [2] \<mapsto> [12], [3] \<mapsto> [13]]"
  by (auto simp: example_mapping_def NewValidatorMapping_spec)

text \<open>C35. The signer bitmap survives the wire: decoding the encoding of any bitmap within the size limit,
  in front of any other bytes, gives the bitmap back and leaves the other bytes.\<close>

theorem SignerMap_roundtrip:
  assumes "length bits \<le> MaxSignersLen" and "length (SignerMap_EncodeRLP [] bits) + length rest < 2 ^ 62"
  shows "SignerMap_DecodeRLP (SignerMap_EncodeRLP [] bits @ rest) = Ok (bits, rest)"
  using assms by (intro signers_rlp.dec_enc) (simp_all add: wf_signers_def)

lemma SignerMap_roundtrip_witness:
  "SignerMap_DecodeRLP (SignerMap_EncodeRLP [] [True, False, True, True, False, False, True, False, True]) =
     Ok ([True, False, True, True, False, False, True, False, True], [])"
proof -
  let ?b = "[True, False, True, True, False, False, True, False, True]"
  have b: "length (SignerMap_buf ?b) \<le> 2" by (simp add: SignerMap_buf_spec)
  have "length (SignerMap_EncodeRLP [] ?b) < 2 ^ 62"
    unfolding SignerMap_EncodeRLP_def by (rule le_less_trans, (rule enc_size b)+) simp
  then show ?thesis using SignerMap_roundtrip[of ?b "[]"] by (simp add: MaxSignersLen_def)
qed

text \<open>C31. A collection that \<open>New\<close> builds verifies under the same domain, message and mapping, and \<open>Verify\<close>
  reports exactly the nodes whose signatures went in, in the order of the mapping.\<close>

theorem sigcol_New_verifies:
  assumes "sigcol_New cr domain sigs m msg = Ok c" and "wf_mapping m" and "sigs \<noteq> []"
    and "bls_aggregation cr" and "length (vm_nodeIds m) \<le> MaxSignersLen"
    and "\<not> BlsSignature_IsInfinity (sc_RawSig c)"
  shows "sigcol_Verify cr c domain m msg = Ok (filter (\<lambda>n. n \<in> fst ` set sigs) (vm_nodeIds m))"
  by (rule sigcol_New_Verify[OF assms])

lemma sigcol_New_verifies_witness:
  "\<exists>c. sigcol_New example_crypto DomainVote [([3], example_sig), ([1], example_sig)] example_mapping [7] = Ok c
     \<and> sigcol_Verify example_crypto c DomainVote example_mapping [7] = Ok [[1], [3]]"
proof -
  let ?s = "[([3], example_sig), ([1], example_sig)]"
  obtain c where c: "sigcol_New example_crypto DomainVote ?s example_mapping [7] = Ok c"
    "sc_RawSig c = example_sig"
    using Index_nth[of "vm_nodeIds example_mapping" 0] Index_nth[of "vm_nodeIds example_mapping" 2]
    by (simp add: sigcol_New_def ValidatorMapping_Has_def ValidatorMapping_PubKey_def example_mapping_fields
        NewSignerMap_def Let_def FastAggregateVerifyPreAggregated_def)
  from sigcol_New_verifies[OF c(1) example_mapping_wf _ example_bls_aggregation] c(2)
  have "sigcol_Verify example_crypto c DomainVote example_mapping [7] = Ok [[1], [3]]"
    by (simp add: MaxSignersLen_def example_mapping_fields)
  with c(1) show ?thesis by blast
qed

text \<open>\<open>Verify\<close> never reports a node twice or a node outside the mapping, and reports as many nodes as
  the bitmap has bits: the reported list is a valid argument of the stake thresholds.\<close>

theorem sigcol_Verify_reports_members:
  assumes "sigcol_Verify cr c domain m msg = Ok signers" and "wf_mapping m"
  shows "distinct signers \<and> set signers \<subseteq> set (vm_nodeIds m) \<and> length signers = sigcol_NumSignatures c"
  using sigcol_Verify_signers[OF assms] by simp

lemma sigcol_Verify_reports_members_witness:
  "sigcol_Verify example_crypto
     \<lparr>sc_Signers = [True, False, True], sc_Sig = Some example_sig, sc_RawSig = example_sig\<rparr>
     DomainVote example_mapping [7] = Ok [[1], [3]] \<and> distinct [[1 :: u8], [3]]"
proof -
  let ?c = "\<lparr>sc_Signers = [True, False, True], sc_Sig = Some example_sig, sc_RawSig = example_sig\<rparr>"
  have v: "sigcol_Verify example_crypto ?c DomainVote example_mapping [7] = Ok [[1], [3]]"
    by (simp add: sigcol_Verify_def MaxSignersLen_def example_mapping_fields ValidatorMapping_At_def Let_def
        FastAggregateVerifyPreAggregated_def)
  from sigcol_Verify_reports_members[OF this example_mapping_wf] v show ?thesis by simp
qed

end
