(* ===== verification/Exec.thy ===== *)
theory Exec
  imports Codec
begin

text \<open>
  \<open>exec/\<close>: the seam to the execution protocol. Consensus sees a protocol value only through its
  methods: its RLP encoding and, for a finalized header, its sequence number. A value is modelled
  by these observations, and the factory \<open>Protocol\<close> by the decoders of its three types. The mock
  protocol of \<open>exec/mock.go\<close> is the concrete instance.
\<close>

type_synonym ProposedHeader = bytes
type_synonym Body = bytes

record FinalizedHeader =
  fh_Encoded :: bytes
  fh_SeqNum :: seqnum

record exec_protocol =
  ep_ProposedHeader :: "bytes \<Rightarrow> (rlp_error, ProposedHeader \<times> bytes) go"
  ep_Body :: "bytes \<Rightarrow> (rlp_error, Body \<times> bytes) go"
  ep_FinalizedHeader :: "bytes \<Rightarrow> (rlp_error, FinalizedHeader \<times> bytes) go"

text \<open>What the block codecs rely on: a decoder of the protocol reads back what it encoded.\<close>

definition exec_wf :: "('a \<Rightarrow> bytes) \<Rightarrow> (bytes \<Rightarrow> (rlp_error, 'a \<times> bytes) go) \<Rightarrow> 'a \<Rightarrow> bool" where
  "exec_wf enc dec x \<longleftrightarrow> enc x \<noteq> [] \<and>
     (\<forall>rest. length (enc x) + length rest < 2 ^ 62 \<longrightarrow> dec (enc x @ rest) = Ok (x, rest))"

interpretation proposed_rlp: rlp_codec "\<lambda>h. h" "ep_ProposedHeader ep" "exec_wf (\<lambda>h. h) (ep_ProposedHeader ep)" for ep
  by unfold_locales (simp_all add: exec_wf_def)

interpretation body_rlp: rlp_codec "\<lambda>b. b" "ep_Body ep" "exec_wf (\<lambda>b. b) (ep_Body ep)" for ep
  by unfold_locales (simp_all add: exec_wf_def)

interpretation finalized_rlp: rlp_codec fh_Encoded "ep_FinalizedHeader ep"
    "exec_wf fh_Encoded (ep_FinalizedHeader ep)" for ep
  by unfold_locales (simp_all add: exec_wf_def)

section \<open>The mock protocol\<close>

definition MockProposedHeader_EncodeRLP :: "bytes \<Rightarrow> bytes" where
  "MockProposedHeader_EncodeRLP dst = AppendList dst (\<lambda>p. p)"

definition MockProposedHeader_DecodeRLP :: "bytes \<Rightarrow> (rlp_error, unit \<times> bytes) go" where
  "MockProposedHeader_DecodeRLP s =
     go_bind (rlp_List s) (\<lambda>(l, rest). go_bind (rlp_Done l) (\<lambda>_. Ok ((), rest)))"

definition MockBody_EncodeRLP :: "bytes \<Rightarrow> bytes \<Rightarrow> bytes" where
  "MockBody_EncodeRLP dst Data = AppendList dst (\<lambda>p. AppendString p Data)"

definition MockBody_DecodeRLP :: "bytes \<Rightarrow> (rlp_error, bytes \<times> bytes) go" where
  "MockBody_DecodeRLP s =
     go_bind (rlp_List s) (\<lambda>(l, rest).
     go_bind (rlp_Bytes l) (\<lambda>(Data, l).
     go_bind (rlp_Done l) (\<lambda>_. Ok (Data, rest))))"

definition MockFinalizedHeader_EncodeRLP :: "bytes \<Rightarrow> seqnum \<Rightarrow> bytes" where
  "MockFinalizedHeader_EncodeRLP dst Number = AppendList dst (\<lambda>p. SeqNum_EncodeRLP p Number)"

definition MockFinalizedHeader_DecodeRLP :: "bytes \<Rightarrow> (rlp_error, seqnum \<times> bytes) go" where
  "MockFinalizedHeader_DecodeRLP s =
     go_bind (rlp_List s) (\<lambda>(l, rest).
     go_bind (SeqNum_DecodeRLP l) (\<lambda>(n, l).
     go_bind (rlp_Done l) (\<lambda>_. Ok (n, rest))))"

definition MockFinalizedHeader_obs :: "seqnum \<Rightarrow> FinalizedHeader" where
  "MockFinalizedHeader_obs n = \<lparr>fh_Encoded = MockFinalizedHeader_EncodeRLP [] n, fh_SeqNum = n\<rparr>"

definition Mock :: exec_protocol where
  "Mock = \<lparr>
     ep_ProposedHeader = (\<lambda>s. go_bind (MockProposedHeader_DecodeRLP s)
        (\<lambda>(_, rest). Ok (MockProposedHeader_EncodeRLP [], rest))),
     ep_Body = (\<lambda>s. go_bind (MockBody_DecodeRLP s) (\<lambda>(d, rest). Ok (MockBody_EncodeRLP [] d, rest))),
     ep_FinalizedHeader = (\<lambda>s. go_bind (MockFinalizedHeader_DecodeRLP s)
        (\<lambda>(n, rest). Ok (MockFinalizedHeader_obs n, rest)))\<rparr>"

lemma MockProposedHeader_Decode_Encode:
  assumes "length (MockProposedHeader_EncodeRLP []) + length rest < 2 ^ 62"
  shows "MockProposedHeader_DecodeRLP (MockProposedHeader_EncodeRLP [] @ rest) = Ok ((), rest)"
  using assms rlp_List_empty[of rest]
  by (simp add: MockProposedHeader_EncodeRLP_def MockProposedHeader_DecodeRLP_def)

interpretation mock_body_rlp: rlp_codec "MockBody_EncodeRLP []" MockBody_DecodeRLP "\<lambda>_. True"
proof
  fix x and rest :: bytes
  assume len: "length (MockBody_EncodeRLP [] x) + length rest < 2 ^ 62"
  have e: "MockBody_EncodeRLP [] x = AppendList [] (\<lambda>p. p @ AppendString [] x)"
    by (simp add: MockBody_EncodeRLP_def rlp_append)
  note f = rlp_List_fields[OF len[unfolded e]]
  show "MockBody_DecodeRLP (MockBody_EncodeRLP [] x @ rest) = Ok (x, rest)"
    using f bytes_rlp.dec_enc[of x "[]"] by (simp add: e MockBody_DecodeRLP_def)
qed (simp add: MockBody_EncodeRLP_def AppendList_nonempty)

interpretation mock_finalized_rlp: rlp_codec "MockFinalizedHeader_EncodeRLP []" MockFinalizedHeader_DecodeRLP "\<lambda>_. True"
proof
  fix x and rest :: bytes
  assume len: "length (MockFinalizedHeader_EncodeRLP [] x) + length rest < 2 ^ 62"
  have e: "MockFinalizedHeader_EncodeRLP [] x = AppendList [] (\<lambda>p. p @ SeqNum_EncodeRLP [] x)"
    by (simp add: MockFinalizedHeader_EncodeRLP_def rlp_append)
  note f = rlp_List_fields[OF len[unfolded e]]
  show "MockFinalizedHeader_DecodeRLP (MockFinalizedHeader_EncodeRLP [] x @ rest) = Ok (x, rest)"
    using f seqnum_rlp.dec_enc[of x "[]"] by (simp add: e MockFinalizedHeader_DecodeRLP_def)
qed (simp add: MockFinalizedHeader_EncodeRLP_def AppendList_nonempty)

lemma Mock_exec_wf:
  "exec_wf (\<lambda>h. h) (ep_ProposedHeader Mock) (MockProposedHeader_EncodeRLP [])"
  "exec_wf (\<lambda>b. b) (ep_Body Mock) (MockBody_EncodeRLP [] d)"
  "exec_wf fh_Encoded (ep_FinalizedHeader Mock) (MockFinalizedHeader_obs n)"
  using mock_body_rlp.enc_nonempty[of d] mock_finalized_rlp.enc_nonempty[of n]
  by (auto simp: exec_wf_def Mock_def MockProposedHeader_Decode_Encode mock_body_rlp.dec_enc
      mock_finalized_rlp.dec_enc MockFinalizedHeader_obs_def)
    (simp add: MockProposedHeader_EncodeRLP_def AppendList_nonempty)

lemmas [rlp_read] = proposed_rlp.reads body_rlp.reads finalized_rlp.reads mock_body_rlp.reads mock_finalized_rlp.reads

end
