(* ===== verification/Cstypes.thy ===== *)
theory Cstypes
  imports Sigcol Exec
begin

text \<open>
  \<open>cstypes/\<close>: votes, certificates, block headers, tips, timeouts and their RLP encoders, the block
  id (the hash of the encoded header), the 2-chain commit rule, the rank of a timeout certificate's
  high extend, and the construction of a timeout certificate.
\<close>

section \<open>Votes and quorum certificates\<close>

record Vote =
  v_ID :: block_id
  v_Round :: round
  v_Epoch :: epoch

definition Vote_EncodeRLP :: "bytes \<Rightarrow> Vote \<Rightarrow> bytes" where
  "Vote_EncodeRLP dst v = AppendList dst (\<lambda>p.
     let p = BlockId_EncodeRLP p (v_ID v);
         p = Round_EncodeRLP p (v_Round v) in
     Epoch_EncodeRLP p (v_Epoch v))"

record QuorumCertificate =
  qc_Info :: Vote
  qc_Signatures :: BlsSignatureCollection

definition GenesisQC :: QuorumCertificate where
  "GenesisQC = \<lparr>qc_Info = \<lparr>v_ID = GENESIS_BLOCK_ID, v_Round = GENESIS_ROUND, v_Epoch = GENESIS_EPOCH\<rparr>,
                 qc_Signatures = sigcol_Empty\<rparr>"

definition QuorumCertificate_EncodeRLP :: "bytes \<Rightarrow> QuorumCertificate \<Rightarrow> bytes" where
  "QuorumCertificate_EncodeRLP dst q = AppendList dst (\<lambda>p.
     sigcol_EncodeRLP (Vote_EncodeRLP p (qc_Info q)) (qc_Signatures q))"

definition qc_GetRound :: "QuorumCertificate \<Rightarrow> round" where
  "qc_GetRound q = v_Round (qc_Info q)"

definition qc_GetEpoch :: "QuorumCertificate \<Rightarrow> epoch" where
  "qc_GetEpoch q = v_Epoch (qc_Info q)"

definition qc_GetBlockId :: "QuorumCertificate \<Rightarrow> block_id" where
  "qc_GetBlockId q = v_ID (qc_Info q)"

definition qc_getCommittableId ::
  "QuorumCertificate \<Rightarrow> block_id \<Rightarrow> round \<Rightarrow> block_id \<Rightarrow> ('e, block_id option) go" where
  "qc_getCommittableId q parentId parentQcRound parentParentId =
     (if qc_GetBlockId q \<noteq> parentId then Panic ''cstypes: qc does not point to parent block''
      else if v_Round (qc_Info q) = parentQcRound + 1 then Ok (Some parentParentId)
      else Ok None)"

definition qc_RankCmp :: "QuorumCertificate \<Rightarrow> QuorumCertificate \<Rightarrow> int" where
  "qc_RankCmp q x =
     (if v_Round (qc_Info q) < v_Round (qc_Info x) then - 1
      else if v_Round (qc_Info q) > v_Round (qc_Info x) then 1 else 0)"

datatype TimestampAdjustmentDirection = TimestampAdjustForward | TimestampAdjustBackward

record TimestampAdjustment =
  ta_Delta :: u128
  ta_Direction :: TimestampAdjustmentDirection

definition TimestampAdjustment_EncodeRLP :: "bytes \<Rightarrow> TimestampAdjustment \<Rightarrow> bytes" where
  "TimestampAdjustment_EncodeRLP dst t = AppendList dst (\<lambda>p.
     AppendUint8 (U128_EncodeRLP p (ta_Delta t))
       (case ta_Direction t of TimestampAdjustForward \<Rightarrow> 0 | TimestampAdjustBackward \<Rightarrow> 1))"

section \<open>No-endorsement and fresh-proposal certificates\<close>

record NoEndorsement =
  ne_Epoch :: epoch
  ne_Round :: round
  ne_TipQcRound :: round

definition NoEndorsement_EncodeRLP :: "bytes \<Rightarrow> NoEndorsement \<Rightarrow> bytes" where
  "NoEndorsement_EncodeRLP dst n = AppendList dst (\<lambda>p.
     let p = Epoch_EncodeRLP p (ne_Epoch n);
         p = Round_EncodeRLP p (ne_Round n) in
     Round_EncodeRLP p (ne_TipQcRound n))"

record NoEndorsementCertificate =
  nec_Msg :: NoEndorsement
  nec_Signatures :: BlsSignatureCollection

definition NoEndorsementCertificate_EncodeRLP :: "bytes \<Rightarrow> NoEndorsementCertificate \<Rightarrow> bytes" where
  "NoEndorsementCertificate_EncodeRLP dst n = AppendList dst (\<lambda>p.
     sigcol_EncodeRLP (NoEndorsement_EncodeRLP p (nec_Msg n)) (nec_Signatures n))"

record HighTipRoundSigColTuple =
  ht_HighQcRound :: round
  ht_HighTipRound :: round
  ht_Sigs :: BlsSignatureCollection

definition HighTipRoundSigColTuple_EncodeRLP :: "bytes \<Rightarrow> HighTipRoundSigColTuple \<Rightarrow> bytes" where
  "HighTipRoundSigColTuple_EncodeRLP dst t = AppendList dst (\<lambda>p.
     let p = Round_EncodeRLP p (ht_HighQcRound t);
         p = Round_EncodeRLP p (ht_HighTipRound t) in
     sigcol_EncodeRLP p (ht_Sigs t))"

record NoTipCertificate =
  nt_Epoch :: epoch
  nt_Round :: round
  nt_TipRounds :: "HighTipRoundSigColTuple list"
  nt_HighQc :: QuorumCertificate

definition NoTipCertificate_EncodeRLP :: "bytes \<Rightarrow> NoTipCertificate \<Rightarrow> bytes" where
  "NoTipCertificate_EncodeRLP dst t = AppendList dst (\<lambda>p.
     let p = Epoch_EncodeRLP p (nt_Epoch t);
         p = Round_EncodeRLP p (nt_Round t);
         p = AppendList p (\<lambda>q. fold (\<lambda>tr q. HighTipRoundSigColTuple_EncodeRLP q tr) (nt_TipRounds t) q) in
     QuorumCertificate_EncodeRLP p (nt_HighQc t))"

datatype FreshProposalCertificate = FPC_Nec NoEndorsementCertificate | FPC_NoTip NoTipCertificate

definition FreshProposalCertificate_EncodeRLP :: "bytes \<Rightarrow> FreshProposalCertificate \<Rightarrow> bytes" where
  "FreshProposalCertificate_EncodeRLP dst f = AppendList dst (\<lambda>p. case f of
     FPC_Nec nec \<Rightarrow> NoEndorsementCertificate_EncodeRLP (AppendUint8 p 1) nec
   | FPC_NoTip nt \<Rightarrow> NoTipCertificate_EncodeRLP (AppendUint8 p 2) nt)"

section \<open>Blocks\<close>

definition MaxDelayedResults :: nat where "MaxDelayedResults = 4"

record ConsensusBlockHeader =
  bh_BlockRound :: round
  bh_Epoch :: epoch
  bh_QC :: QuorumCertificate
  bh_Author :: node_id
  bh_SeqNum :: seqnum
  bh_TimestampNs :: u128
  bh_RoundSignature :: bls_sig
  bh_DelayedExecutionResults :: "FinalizedHeader list"
  bh_ExecutionInputs :: ProposedHeader
  bh_BlockBodyId :: body_id
  bh_BaseFee :: u64
  bh_BaseFeeTrend :: u64
  bh_BaseFeeMoment :: u64

definition ConsensusBlockHeader_EncodeRLP :: "bytes \<Rightarrow> ConsensusBlockHeader \<Rightarrow> bytes" where
  "ConsensusBlockHeader_EncodeRLP dst h = AppendList dst (\<lambda>p.
     let p = Round_EncodeRLP p (bh_BlockRound h);
         p = Epoch_EncodeRLP p (bh_Epoch h);
         p = QuorumCertificate_EncodeRLP p (bh_QC h);
         p = NodeId_EncodeRLP p (bh_Author h);
         p = SeqNum_EncodeRLP p (bh_SeqNum h);
         p = U128_EncodeRLP p (bh_TimestampNs h);
         p = AppendString p (bh_RoundSignature h);
         p = AppendList p (\<lambda>q. fold (\<lambda>fh q. q @ fh_Encoded fh) (bh_DelayedExecutionResults h) q);
         p = p @ bh_ExecutionInputs h;
         p = AppendString p (bh_BlockBodyId h);
         p = AppendUint64 p (bh_BaseFee h);
         p = AppendUint64 p (bh_BaseFeeTrend h) in
     AppendUint64 p (bh_BaseFeeMoment h))"

definition header_GetId :: "crypto \<Rightarrow> ConsensusBlockHeader \<Rightarrow> block_id" where
  "header_GetId cr h = blake3_Sum256 cr (ConsensusBlockHeader_EncodeRLP [] h)"

definition header_GetParentId :: "ConsensusBlockHeader \<Rightarrow> block_id" where
  "header_GetParentId h = qc_GetBlockId (bh_QC h)"

definition NewRoundSignature :: "crypto \<Rightarrow> round \<Rightarrow> bytes \<Rightarrow> bls_sig" where
  "NewRoundSignature cr round kp = BlsKeyPair_Sign cr kp DomainRoundSignature (Round_EncodeRLP [] round)"

definition VerifyRoundSignature :: "crypto \<Rightarrow> bls_sig \<Rightarrow> round \<Rightarrow> bls_pk \<Rightarrow> bool" where
  "VerifyRoundSignature cr sig round pk = BlsSignature_Verify cr sig DomainRoundSignature (Round_EncodeRLP [] round) pk"

type_synonym ConsensusBlockBody = Body

definition ConsensusBlockBody_EncodeRLP :: "bytes \<Rightarrow> ConsensusBlockBody \<Rightarrow> bytes" where
  "ConsensusBlockBody_EncodeRLP dst b = AppendList dst (\<lambda>p. p @ b)"

definition body_GetId :: "crypto \<Rightarrow> ConsensusBlockBody \<Rightarrow> body_id" where
  "body_GetId cr b = blake3_Sum256 cr (ConsensusBlockBody_EncodeRLP [] b)"

record ConsensusFullBlock =
  fb_Header :: ConsensusBlockHeader
  fb_Body :: ConsensusBlockBody

definition NewFullBlock :: "crypto \<Rightarrow> ConsensusBlockHeader \<Rightarrow> ConsensusBlockBody \<Rightarrow> (string, ConsensusFullBlock) go" where
  "NewFullBlock cr h b =
     (if body_GetId cr b \<noteq> bh_BlockBodyId h then Err ''header payload mismatch''
      else Ok \<lparr>fb_Header = h, fb_Body = b\<rparr>)"

definition ConsensusFullBlock_EncodeRLP :: "bytes \<Rightarrow> ConsensusFullBlock \<Rightarrow> bytes" where
  "ConsensusFullBlock_EncodeRLP dst b = AppendList dst (\<lambda>p.
     ConsensusBlockBody_EncodeRLP (ConsensusBlockHeader_EncodeRLP p (fb_Header b)) (fb_Body b))"

definition block_GetId :: "crypto \<Rightarrow> ConsensusFullBlock \<Rightarrow> block_id" where
  "block_GetId cr b = header_GetId cr (fb_Header b)"

definition block_GetParentId :: "ConsensusFullBlock \<Rightarrow> block_id" where
  "block_GetParentId b = header_GetParentId (fb_Header b)"

definition qc_GetCommittableId :: "crypto \<Rightarrow> QuorumCertificate \<Rightarrow> ConsensusFullBlock \<Rightarrow> ('e, block_id option) go" where
  "qc_GetCommittableId cr q qcParent =
     qc_getCommittableId q (block_GetId cr qcParent) (v_Round (qc_Info (bh_QC (fb_Header qcParent))))
       (qc_GetBlockId (bh_QC (fb_Header qcParent)))"

definition qc_GetCommittableIdForHeader ::
  "crypto \<Rightarrow> QuorumCertificate \<Rightarrow> ConsensusBlockHeader \<Rightarrow> ('e, block_id option) go" where
  "qc_GetCommittableIdForHeader cr q qcParent =
     qc_getCommittableId q (header_GetId cr qcParent) (v_Round (qc_Info (bh_QC qcParent)))
       (qc_GetBlockId (bh_QC qcParent))"

record BlockRange =
  br_LastBlockId :: block_id
  br_NumBlocks :: seqnum

definition BlockRange_EncodeRLP :: "bytes \<Rightarrow> BlockRange \<Rightarrow> bytes" where
  "BlockRange_EncodeRLP dst r = AppendList dst (\<lambda>p.
     SeqNum_EncodeRLP (BlockId_EncodeRLP p (br_LastBlockId r)) (br_NumBlocks r))"

section \<open>Tips\<close>

record ConsensusTip =
  tip_BlockHeader :: ConsensusBlockHeader
  tip_Signature :: secp_sig
  tip_FreshCertificate :: "FreshProposalCertificate option"

definition NewConsensusTip :: "crypto \<Rightarrow> bytes \<Rightarrow> ConsensusBlockHeader \<Rightarrow> FreshProposalCertificate option \<Rightarrow> ConsensusTip" where
  "NewConsensusTip cr keypair header freshCert =
     \<lparr>tip_BlockHeader = header,
      tip_Signature = SecpKeyPair_Sign cr keypair DomainTip (ConsensusBlockHeader_EncodeRLP [] header),
      tip_FreshCertificate = freshCert\<rparr>"

definition tip_SignatureAuthor :: "crypto \<Rightarrow> ConsensusTip \<Rightarrow> node_id option" where
  "tip_SignatureAuthor cr t =
     RecoverPubKey cr (tip_Signature t) DomainTip (ConsensusBlockHeader_EncodeRLP [] (tip_BlockHeader t))"

definition ConsensusTip_EncodeRLP :: "bytes \<Rightarrow> ConsensusTip \<Rightarrow> bytes" where
  "ConsensusTip_EncodeRLP dst t = AppendList dst (\<lambda>p.
     let p = ConsensusBlockHeader_EncodeRLP p (tip_BlockHeader t);
         p = AppendString p (tip_Signature t) in
     case tip_FreshCertificate t of None \<Rightarrow> p | Some f \<Rightarrow> FreshProposalCertificate_EncodeRLP p f)"

definition tip_GetRound :: "ConsensusTip \<Rightarrow> round" where
  "tip_GetRound t = bh_BlockRound (tip_BlockHeader t)"

section \<open>Timeouts\<close>

record TimeoutInfo =
  ti_Epoch :: epoch
  ti_Round :: round
  ti_HighQcRound :: round
  ti_HighTipRound :: round

definition TimeoutInfo_EncodeRLP :: "bytes \<Rightarrow> TimeoutInfo \<Rightarrow> bytes" where
  "TimeoutInfo_EncodeRLP dst t = AppendList dst (\<lambda>p.
     let p = Epoch_EncodeRLP p (ti_Epoch t);
         p = Round_EncodeRLP p (ti_Round t);
         p = Round_EncodeRLP p (ti_HighQcRound t) in
     Round_EncodeRLP p (ti_HighTipRound t))"

text \<open>\<open>HighExtendRank\<close>: the struct's flag \<open>IsTip\<close> is the constructor.\<close>

datatype HighExtendRank = RankQc (rank_QcRound: round) | RankTip (rank_TipRound: round) (rank_QcRound: round)

definition TimeoutInfo_Rank :: "TimeoutInfo \<Rightarrow> HighExtendRank" where
  "TimeoutInfo_Rank t =
     (if ti_HighTipRound t = GENESIS_ROUND then RankQc (ti_HighQcRound t)
      else RankTip (ti_HighTipRound t) (ti_HighQcRound t))"

definition cmpR :: "round \<Rightarrow> round \<Rightarrow> int" where
  "cmpR x y = (if x < y then - 1 else if x > y then 1 else 0)"

fun HighExtendRank_Cmp :: "HighExtendRank \<Rightarrow> HighExtendRank \<Rightarrow> int" where
  "HighExtendRank_Cmp (RankQc aq) (RankQc bq) = cmpR aq bq"
| "HighExtendRank_Cmp (RankTip at aq) (RankTip bt bq) = (if at \<noteq> bt then cmpR at bt else cmpR aq bq)"
| "HighExtendRank_Cmp (RankQc aq) (RankTip bt bq) = (if aq = bt then 1 else cmpR aq bt)"
| "HighExtendRank_Cmp (RankTip at aq) (RankQc bq) = (if at = bq then - 1 else cmpR at bq)"

datatype HighExtend = HE_Tip ConsensusTip | HE_QC QuorumCertificate

definition HighExtend_EncodeRLP :: "bytes \<Rightarrow> HighExtend \<Rightarrow> bytes" where
  "HighExtend_EncodeRLP dst h = AppendList dst (\<lambda>p. case h of
     HE_Tip t \<Rightarrow> ConsensusTip_EncodeRLP (AppendUint8 p 1) t
   | HE_QC q \<Rightarrow> QuorumCertificate_EncodeRLP (AppendUint8 p 2) q)"

fun HighExtend_Rank :: "HighExtend \<Rightarrow> HighExtendRank" where
  "HighExtend_Rank (HE_Tip t) = RankTip (bh_BlockRound (tip_BlockHeader t)) (qc_GetRound (bh_QC (tip_BlockHeader t)))"
| "HighExtend_Rank (HE_QC q) = RankQc (qc_GetRound q)"

fun HighExtend_GetQC :: "HighExtend \<Rightarrow> QuorumCertificate" where
  "HighExtend_GetQC (HE_Tip t) = bh_QC (tip_BlockHeader t)"
| "HighExtend_GetQC (HE_QC q) = q"

datatype HighExtendVote = HEV_Tip ConsensusTip "bls_sig option" | HEV_QC QuorumCertificate

definition HighExtendVote_EncodeRLP :: "bytes \<Rightarrow> HighExtendVote \<Rightarrow> bytes" where
  "HighExtendVote_EncodeRLP dst h = AppendList dst (\<lambda>p. case h of
     HEV_Tip t vs \<Rightarrow>
       let p = ConsensusTip_EncodeRLP (AppendUint8 p 1) t in
       (case vs of None \<Rightarrow> p | Some s \<Rightarrow> AppendString p s)
   | HEV_QC q \<Rightarrow> QuorumCertificate_EncodeRLP (AppendUint8 p 2) q)"

fun AsHighExtend :: "HighExtendVote \<Rightarrow> HighExtend" where
  "AsHighExtend (HEV_Tip t vs) = HE_Tip t"
| "AsHighExtend (HEV_QC q) = HE_QC q"

definition HighExtendVote_Rank :: "HighExtendVote \<Rightarrow> HighExtendRank" where
  "HighExtendVote_Rank h = HighExtend_Rank (AsHighExtend h)"

definition HighExtendVote_GetQC :: "HighExtendVote \<Rightarrow> QuorumCertificate" where
  "HighExtendVote_GetQC h = HighExtend_GetQC (AsHighExtend h)"

definition HighTipRoundSigColTuple_Rank :: "HighTipRoundSigColTuple \<Rightarrow> HighExtendRank" where
  "HighTipRoundSigColTuple_Rank t =
     (if ht_HighTipRound t = GENESIS_ROUND then RankQc (ht_HighQcRound t)
      else RankTip (ht_HighTipRound t) (ht_HighQcRound t))"

record TimeoutCertificate =
  tc_Epoch :: epoch
  tc_Round :: round
  tc_TipRounds :: "HighTipRoundSigColTuple list"
  tc_HighExtend :: HighExtend

definition TimeoutCertificate_EncodeRLP :: "bytes \<Rightarrow> TimeoutCertificate \<Rightarrow> bytes" where
  "TimeoutCertificate_EncodeRLP dst t = AppendList dst (\<lambda>p.
     let p = Epoch_EncodeRLP p (tc_Epoch t);
         p = Round_EncodeRLP p (tc_Round t);
         p = AppendList p (\<lambda>q. fold (\<lambda>tr q. HighTipRoundSigColTuple_EncodeRLP q tr) (tc_TipRounds t) q) in
     HighExtend_EncodeRLP p (tc_HighExtend t))"

datatype RoundCertificate = RC_QC QuorumCertificate | RC_TC TimeoutCertificate

definition RoundCertificate_EncodeRLP :: "bytes \<Rightarrow> RoundCertificate \<Rightarrow> bytes" where
  "RoundCertificate_EncodeRLP dst r = AppendList dst (\<lambda>p. case r of
     RC_QC q \<Rightarrow> QuorumCertificate_EncodeRLP (AppendUint8 p 1) q
   | RC_TC t \<Rightarrow> TimeoutCertificate_EncodeRLP (AppendUint8 p 2) t)"

fun rc_Round :: "RoundCertificate \<Rightarrow> round" where
  "rc_Round (RC_QC q) = v_Round (qc_Info q)"
| "rc_Round (RC_TC t) = tc_Round t"

fun rc_GetTC :: "RoundCertificate \<Rightarrow> TimeoutCertificate option" where
  "rc_GetTC (RC_QC q) = None"
| "rc_GetTC (RC_TC t) = Some t"

fun rc_GetQC :: "RoundCertificate \<Rightarrow> QuorumCertificate" where
  "rc_GetQC (RC_QC q) = q"
| "rc_GetQC (RC_TC t) = HighExtend_GetQC (tc_HighExtend t)"

record Timeout =
  tm_TmInfo :: TimeoutInfo
  tm_TimeoutSignature :: bls_sig
  tm_HighExtend :: HighExtendVote
  tm_LastRoundCertificate :: "RoundCertificate option"

definition NewTimeout :: "crypto \<Rightarrow> bytes \<Rightarrow> TimeoutInfo \<Rightarrow> HighExtend \<Rightarrow> bool \<Rightarrow> RoundCertificate option \<Rightarrow> Timeout" where
  "NewTimeout cr certKey tinfo highExtend safeToVote lastRoundCert =
     \<lparr>tm_TmInfo = tinfo,
      tm_TimeoutSignature = BlsKeyPair_Sign cr certKey DomainTimeout (TimeoutInfo_EncodeRLP [] tinfo),
      tm_HighExtend = (case highExtend of
         HE_Tip t \<Rightarrow> HEV_Tip t
           (if safeToVote then
              let vote = \<lparr>v_ID = header_GetId cr (tip_BlockHeader t), v_Round = ti_Round tinfo,
                           v_Epoch = ti_Epoch tinfo\<rparr> in
              Some (BlsKeyPair_Sign cr certKey DomainVote (Vote_EncodeRLP [] vote))
            else None)
       | HE_QC q \<Rightarrow> HEV_QC q),
      tm_LastRoundCertificate = lastRoundCert\<rparr>"

definition Timeout_EncodeRLP :: "bytes \<Rightarrow> Timeout \<Rightarrow> bytes" where
  "Timeout_EncodeRLP dst t = AppendList dst (\<lambda>p.
     let p = TimeoutInfo_EncodeRLP p (tm_TmInfo t);
         p = AppendString p (tm_TimeoutSignature t);
         p = HighExtendVote_EncodeRLP p (tm_HighExtend t) in
     case tm_LastRoundCertificate t of None \<Rightarrow> p | Some rc \<Rightarrow> RoundCertificate_EncodeRLP p rc)"

text \<open>
  \<open>NewTimeoutCertificate\<close>: the loop groups the signatures by timeout info, in the order the infos
  first appear (\<open>order\<close> is the key list of \<open>groups\<close>), and keeps the highest high extend.
\<close>

type_synonym tc_groups = "(TimeoutInfo \<times> (node_id \<times> bls_sig) list) list"

fun NewTimeoutCertificate_group :: "(node_id \<times> Timeout) list \<Rightarrow> tc_groups \<Rightarrow> HighExtend \<Rightarrow> tc_groups \<times> HighExtend" where
  "NewTimeoutCertificate_group [] groups highest = (groups, highest)"
| "NewTimeoutCertificate_group ((n, t) # tms) groups highest =
     (let key = tm_TmInfo t;
          sigs = (case map_of groups key of None \<Rightarrow> [] | Some xs \<Rightarrow> xs);
          he = AsHighExtend (tm_HighExtend t) in
      NewTimeoutCertificate_group tms (aput key (sigs @ [(n, tm_TimeoutSignature t)]) groups)
        (if 0 < HighExtendRank_Cmp (HighExtend_Rank he) (HighExtend_Rank highest) then he else highest))"

fun NewTimeoutCertificate_tips :: "crypto \<Rightarrow> ValidatorMapping \<Rightarrow> tc_groups
    \<Rightarrow> (sigcol_error, HighTipRoundSigColTuple list) go" where
  "NewTimeoutCertificate_tips cr mapping [] = Ok []"
| "NewTimeoutCertificate_tips cr mapping ((ti, sigs) # groups) =
     go_bind (sigcol_New cr DomainTimeout sigs mapping (TimeoutInfo_EncodeRLP [] ti)) (\<lambda>sc.
     go_bind (NewTimeoutCertificate_tips cr mapping groups) (\<lambda>rest.
       Ok (\<lparr>ht_HighQcRound = ti_HighQcRound ti, ht_HighTipRound = ti_HighTipRound ti, ht_Sigs = sc\<rparr> # rest)))"

definition NewTimeoutCertificate :: "crypto \<Rightarrow> epoch \<Rightarrow> round \<Rightarrow> (node_id \<times> Timeout) list \<Rightarrow> ValidatorMapping
    \<Rightarrow> (sigcol_error, TimeoutCertificate) go" where
  "NewTimeoutCertificate cr epoch round timeouts mapping =
     (let (groups, highest) = NewTimeoutCertificate_group timeouts [] (HE_QC GenesisQC) in
      go_bind (NewTimeoutCertificate_tips cr mapping groups) (\<lambda>tipRounds.
        Ok \<lparr>tc_Epoch = epoch, tc_Round = round, tc_TipRounds = tipRounds, tc_HighExtend = highest\<rparr>))"

section \<open>Checkpoints\<close>

record LockedEpoch =
  le_Epoch :: epoch
  le_Round :: round

definition LockedEpoch_EncodeRLP :: "bytes \<Rightarrow> LockedEpoch \<Rightarrow> bytes" where
  "LockedEpoch_EncodeRLP dst l = AppendList dst (\<lambda>p. Round_EncodeRLP (Epoch_EncodeRLP p (le_Epoch l)) (le_Round l))"

definition MaxValidatorSets :: nat where "MaxValidatorSets = 4"

record Checkpoint =
  cp_Root :: block_id
  cp_HighCertificate :: RoundCertificate
  cp_ValidatorSets :: "LockedEpoch list"

definition Checkpoint_EncodeRLP :: "bytes \<Rightarrow> Checkpoint \<Rightarrow> bytes" where
  "Checkpoint_EncodeRLP dst c = AppendList dst (\<lambda>p.
     let p = BlockId_EncodeRLP p (cp_Root c);
         p = RoundCertificate_EncodeRLP p (cp_HighCertificate c) in
     AppendList p (\<lambda>q. fold (\<lambda>le q. LockedEpoch_EncodeRLP q le) (cp_ValidatorSets c) q))"

section \<open>The order of high extends\<close>

text \<open>
  \<open>Cmp\<close> is the comparison of a key: a tip ranks at its own round, a certificate just above the
  tips of its round, and tips of one round rank by the round of the certificate they carry.
\<close>

fun rank_key :: "HighExtendRank \<Rightarrow> nat \<times> nat \<times> nat" where
  "rank_key (RankQc q) = (unat q, 1, 0)"
| "rank_key (RankTip t q) = (unat t, 0, unat q)"

definition key_less :: "nat \<times> nat \<times> nat \<Rightarrow> nat \<times> nat \<times> nat \<Rightarrow> bool" where
  "key_less a b \<longleftrightarrow> fst a < fst b \<or> fst a = fst b \<and> (fst (snd a) < fst (snd b)
     \<or> fst (snd a) = fst (snd b) \<and> snd (snd a) < snd (snd b))"

lemma cmpR_sign:
  "cmpR x y < 0 \<longleftrightarrow> unat x < unat y" "0 < cmpR x y \<longleftrightarrow> unat y < unat x" "cmpR x y = 0 \<longleftrightarrow> x = y"
  by (auto simp: cmpR_def word_less_nat_alt word_unat_eq_iff)

lemma Cmp_key:
  "HighExtendRank_Cmp a b < 0 \<longleftrightarrow> key_less (rank_key a) (rank_key b)"
  "0 < HighExtendRank_Cmp a b \<longleftrightarrow> key_less (rank_key b) (rank_key a)"
  by (cases a; cases b; auto simp: key_less_def cmpR_sign word_unat_eq_iff[symmetric])+

lemma rank_key_inj: "rank_key a = rank_key b \<longleftrightarrow> a = b"
  by (cases a; cases b) (auto simp: word_unat_eq_iff)

lemma key_less_total: "key_less a b \<or> a = b \<or> key_less b a"
  by (cases a; cases b) (auto simp: key_less_def)

lemma key_less_trans: "key_less a b \<Longrightarrow> key_less b c \<Longrightarrow> key_less a c"
  by (auto simp: key_less_def)

lemma key_less_irrefl: "\<not> key_less a a"
  by (simp add: key_less_def)

instantiation HighExtendRank :: linorder
begin
definition less_HighExtendRank :: "HighExtendRank \<Rightarrow> HighExtendRank \<Rightarrow> bool" where
  "less_HighExtendRank a b \<longleftrightarrow> HighExtendRank_Cmp a b < 0"
definition less_eq_HighExtendRank :: "HighExtendRank \<Rightarrow> HighExtendRank \<Rightarrow> bool" where
  "less_eq_HighExtendRank a b \<longleftrightarrow> HighExtendRank_Cmp a b \<le> 0"
instance
proof
  fix a b c :: HighExtendRank
  have le: "a \<le> b \<longleftrightarrow> key_less (rank_key a) (rank_key b) \<or> a = b" for a b :: HighExtendRank
    unfolding less_eq_HighExtendRank_def not_less[symmetric] Cmp_key
    using key_less_total[of "rank_key a" "rank_key b"] key_less_trans key_less_irrefl
    by (metis rank_key_inj)
  have lt: "a < b \<longleftrightarrow> key_less (rank_key a) (rank_key b)" for a b :: HighExtendRank
    by (simp add: less_HighExtendRank_def Cmp_key)
  show "a < b \<longleftrightarrow> a \<le> b \<and> \<not> b \<le> a" using key_less_trans key_less_irrefl by (metis le lt)
  show "a \<le> a" by (simp add: le)
  show "a \<le> b \<Longrightarrow> b \<le> c \<Longrightarrow> a \<le> c" using key_less_trans by (metis le)
  show "a \<le> b \<Longrightarrow> b \<le> a \<Longrightarrow> a = b" using key_less_trans key_less_irrefl by (metis le)
  show "a \<le> b \<or> b \<le> a" using key_less_total by (metis le rank_key_inj)
qed
end

lemma Cmp_greater: "0 < HighExtendRank_Cmp a b \<longleftrightarrow> b < a"
  unfolding less_HighExtendRank_def Cmp_key ..

lemma HighExtendRank_less:
  "RankQc q < RankQc q' \<longleftrightarrow> q < q'"
  "RankTip t q < RankTip t' q' \<longleftrightarrow> t < t' \<or> t = t' \<and> q < q'"
  "RankQc q < RankTip t q' \<longleftrightarrow> q < t"
  "RankTip t q' < RankQc q \<longleftrightarrow> t \<le> q"
  by (auto simp: less_HighExtendRank_def cmpR_def)

section \<open>Construction of a timeout certificate\<close>

lemma NewTimeoutCertificate_group_highest:
  assumes "NewTimeoutCertificate_group tms groups h0 = (groups', h)"
  shows "HighExtend_Rank h0 \<le> HighExtend_Rank h"
    and "(n, t) \<in> set tms \<Longrightarrow> HighExtendVote_Rank (tm_HighExtend t) \<le> HighExtend_Rank h"
    and "h = h0 \<or> (\<exists>(n, t)\<in>set tms. h = AsHighExtend (tm_HighExtend t))"
proof -
  have "HighExtend_Rank h0 \<le> HighExtend_Rank h
    \<and> (\<forall>(n, t)\<in>set tms. HighExtendVote_Rank (tm_HighExtend t) \<le> HighExtend_Rank h)
    \<and> (h = h0 \<or> (\<exists>(n, t)\<in>set tms. h = AsHighExtend (tm_HighExtend t)))"
    using assms
  proof (induction tms groups h0 rule: NewTimeoutCertificate_group.induct)
    case (2 n t tms groups h0)
    let ?he = "AsHighExtend (tm_HighExtend t)"
    let ?h1 = "if HighExtend_Rank h0 < HighExtend_Rank ?he then ?he else h0"
    have IH: "HighExtend_Rank ?h1 \<le> HighExtend_Rank h"
      "\<forall>(n, t)\<in>set tms. HighExtendVote_Rank (tm_HighExtend t) \<le> HighExtend_Rank h"
      "h = ?h1 \<or> (\<exists>(n, t)\<in>set tms. h = AsHighExtend (tm_HighExtend t))"
      using "2.IH"[OF refl refl refl] "2.prems" by (simp_all add: Let_def Cmp_greater)
    have "HighExtend_Rank h0 \<le> HighExtend_Rank ?h1" "HighExtend_Rank ?he \<le> HighExtend_Rank ?h1" by auto
    with IH(1) have "HighExtend_Rank h0 \<le> HighExtend_Rank h" "HighExtend_Rank ?he \<le> HighExtend_Rank h"
      by (auto intro: order_trans)
    with IH(2,3) show ?case by (auto simp: HighExtendVote_Rank_def split: if_splits)
  qed simp
  then show "HighExtend_Rank h0 \<le> HighExtend_Rank h"
    "(n, t) \<in> set tms \<Longrightarrow> HighExtendVote_Rank (tm_HighExtend t) \<le> HighExtend_Rank h"
    "h = h0 \<or> (\<exists>(n, t)\<in>set tms. h = AsHighExtend (tm_HighExtend t))" by auto
qed

text \<open>Every timeout is in exactly the group of its info, and groups hold nothing else.\<close>

lemma NewTimeoutCertificate_group_groups:
  assumes "NewTimeoutCertificate_group tms groups h0 = (groups', h)" and "distinct (akeys groups)"
  shows "distinct (akeys groups')
    \<and> (\<forall>k. (case map_of groups' k of None \<Rightarrow> [] | Some xs \<Rightarrow> xs)
        = (case map_of groups k of None \<Rightarrow> [] | Some xs \<Rightarrow> xs)
          @ map (\<lambda>(n, t). (n, tm_TimeoutSignature t)) (filter (\<lambda>(n, t). tm_TmInfo t = k) tms))
    \<and> set (akeys groups') = set (akeys groups) \<union> (\<lambda>(n, t). tm_TmInfo t) ` set tms"
  using assms
proof (induction tms groups h0 rule: NewTimeoutCertificate_group.induct)
  case (2 n t tms groups h0)
  let ?k = "tm_TmInfo t"
  let ?sigs = "case map_of groups ?k of None \<Rightarrow> [] | Some xs \<Rightarrow> xs"
  let ?g = "aput ?k (?sigs @ [(n, tm_TimeoutSignature t)]) groups"
  have "distinct (akeys ?g)" using "2.prems"(2) by simp
  note IH = "2.IH"[OF refl refl refl _ this]
  have "distinct (akeys groups')
    \<and> (\<forall>k. (case map_of groups' k of None \<Rightarrow> [] | Some xs \<Rightarrow> xs)
        = (case map_of ?g k of None \<Rightarrow> [] | Some xs \<Rightarrow> xs)
          @ map (\<lambda>(n, t). (n, tm_TimeoutSignature t)) (filter (\<lambda>(n, t). tm_TmInfo t = k) tms))
    \<and> set (akeys groups') = set (akeys ?g) \<union> (\<lambda>(n, t). tm_TmInfo t) ` set tms"
    using "2.prems"(1) by (intro IH) (simp add: Let_def)
  then show ?case by auto
qed simp

lemma NewTimeoutCertificate_tips_Ok:
  assumes "NewTimeoutCertificate_tips cr m groups = Ok trs"
  shows "length trs = length groups" and "i < length groups \<Longrightarrow>
     ht_HighQcRound (trs ! i) = ti_HighQcRound (fst (groups ! i))
     \<and> ht_HighTipRound (trs ! i) = ti_HighTipRound (fst (groups ! i))
     \<and> sigcol_New cr DomainTimeout (snd (groups ! i)) m (TimeoutInfo_EncodeRLP [] (fst (groups ! i)))
        = Ok (ht_Sigs (trs ! i))"
  using assms
proof (induction cr m groups arbitrary: trs i rule: NewTimeoutCertificate_tips.induct)
  case (2 cr m ti sigs groups)
  case 1
  then show ?case using 2 by (auto simp: go_simps)
next
  case (2 cr m ti sigs groups)
  case 2
  then show ?case using "2.IH" by (cases i) (auto simp: go_simps)
qed auto

section \<open>The commit rule\<close>

lemma GetCommittableId_consecutive:
  assumes "qc_GetCommittableId cr q b = Ok (Some i)"
  shows "qc_GetBlockId q = block_GetId cr b" and "i = block_GetParentId b"
    and "qc_GetRound q = qc_GetRound (bh_QC (fb_Header b)) + 1"
  using assms
  by (auto simp: qc_GetCommittableId_def qc_getCommittableId_def block_GetParentId_def header_GetParentId_def
      qc_GetRound_def split: if_splits)

section \<open>Properties\<close>

lemma NewTimeoutCertificate_covers:
  assumes "NewTimeoutCertificate_group tms [] h0 = (groups, h)"
    and "NewTimeoutCertificate_tips cr m groups = Ok trs" and "(n, t) \<in> set tms"
  shows "\<exists>tr\<in>set trs. ht_HighQcRound tr = ti_HighQcRound (tm_TmInfo t)
    \<and> ht_HighTipRound tr = ti_HighTipRound (tm_TmInfo t)"
proof -
  have "tm_TmInfo t \<in> (\<lambda>(n, t). tm_TmInfo t) ` set tms" using assms(3) by (rule rev_image_eqI) simp
  then have "tm_TmInfo t \<in> set (akeys groups)"
    using NewTimeoutCertificate_group_groups[OF assms(1)] by (simp add: akeys_def)
  then obtain i where "i < length groups" "fst (groups ! i) = tm_TmInfo t"
    by (auto simp: in_set_conv_nth akeys_def)
  with NewTimeoutCertificate_tips_Ok[OF assms(2)] show ?thesis by (metis nth_mem)
qed

text \<open>C30. A timeout certificate carries the best information of its timeouts: its high extend ranks at least
  as high as that of every timeout and is one of theirs (or the genesis certificate), and for every
  timeout there is a tuple with its high rounds.\<close>

theorem NewTimeoutCertificate_highest:
  assumes "NewTimeoutCertificate cr epoch round tms m = Ok tc"
  shows "tc_Epoch tc = epoch \<and> tc_Round tc = round
    \<and> (\<forall>(n, t)\<in>set tms. HighExtendRank_Cmp (HighExtendVote_Rank (tm_HighExtend t)) (HighExtend_Rank (tc_HighExtend tc)) \<le> 0)
    \<and> (tc_HighExtend tc = HE_QC GenesisQC \<or> (\<exists>(n, t)\<in>set tms. tc_HighExtend tc = AsHighExtend (tm_HighExtend t)))
    \<and> (\<forall>(n, t)\<in>set tms. \<exists>tr\<in>set (tc_TipRounds tc). ht_HighQcRound tr = ti_HighQcRound (tm_TmInfo t)
         \<and> ht_HighTipRound tr = ti_HighTipRound (tm_TmInfo t))"
proof -
  obtain groups h trs where g: "NewTimeoutCertificate_group tms [] (HE_QC GenesisQC) = (groups, h)"
    "NewTimeoutCertificate_tips cr m groups = Ok trs"
    and tc: "tc = \<lparr>tc_Epoch = epoch, tc_Round = round, tc_TipRounds = trs, tc_HighExtend = h\<rparr>"
    using assms by (auto simp: NewTimeoutCertificate_def go_simps split: prod.splits)
  note high = NewTimeoutCertificate_group_highest[OF g(1)]
  show ?thesis
    using high(2,3) NewTimeoutCertificate_covers[OF g]
    by (auto simp: tc less_eq_HighExtendRank_def split_beta)
qed

definition example_qc :: QuorumCertificate where
  "example_qc = GenesisQC\<lparr>qc_Info := \<lparr>v_ID = replicate 32 7, v_Round = 5, v_Epoch = 1\<rparr>\<rparr>"

definition example_timeout :: Timeout where
  "example_timeout = NewTimeout example_crypto []
     \<lparr>ti_Epoch = 1, ti_Round = 6, ti_HighQcRound = 5, ti_HighTipRound = 0\<rparr> (HE_QC example_qc) False None"

lemma NewTimeoutCertificate_highest_witness:
  "\<exists>tc. NewTimeoutCertificate example_crypto 1 6 [([2], example_timeout)] example_mapping = Ok tc
     \<and> tc_Round tc = 6 \<and> (tc_HighExtend tc = HE_QC GenesisQC \<or> tc_HighExtend tc = HE_QC example_qc)"
proof -
  have "\<exists>tc. NewTimeoutCertificate example_crypto 1 6 [([2], example_timeout)] example_mapping = Ok tc"
    using Index_nth[of "vm_nodeIds example_mapping" 1]
    by (simp add: NewTimeoutCertificate_def example_timeout_def NewTimeout_def sigcol_New_def ValidatorMapping_Has_def
        ValidatorMapping_PubKey_def example_mapping_fields NewSignerMap_def Let_def
        FastAggregateVerifyPreAggregated_def)
  then obtain tc where tc: "NewTimeoutCertificate example_crypto 1 6 [([2], example_timeout)] example_mapping = Ok tc" ..
  have "AsHighExtend (tm_HighExtend example_timeout) = HE_QC example_qc"
    by (simp add: example_timeout_def NewTimeout_def)
  with NewTimeoutCertificate_highest[OF tc] tc show ?thesis by auto
qed

end
