(* ===== verification/CstypesCodec.thy ===== *)
theory CstypesCodec
  imports Cstypes
begin

text \<open>
  The decoders of \<open>cstypes/\<close> and their round trips: every message and certificate that goes over the
  wire or to disk is read back as the value that was written. Each type is an interpretation of
  \<open>rlp_codec\<close>; its well-formedness predicate states the lengths and limits the decoder enforces.
\<close>

lemma rlp_append_cstypes [rlp_append]:
  "NO_MATCH [] dst \<Longrightarrow> Vote_EncodeRLP dst vt = dst @ Vote_EncodeRLP [] vt"
  "NO_MATCH [] dst \<Longrightarrow> QuorumCertificate_EncodeRLP dst qc = dst @ QuorumCertificate_EncodeRLP [] qc"
  "NO_MATCH [] dst \<Longrightarrow> NoEndorsement_EncodeRLP dst ne = dst @ NoEndorsement_EncodeRLP [] ne"
  "NO_MATCH [] dst \<Longrightarrow> NoEndorsementCertificate_EncodeRLP dst nec = dst @ NoEndorsementCertificate_EncodeRLP [] nec"
  "NO_MATCH [] dst \<Longrightarrow> HighTipRoundSigColTuple_EncodeRLP dst ht = dst @ HighTipRoundSigColTuple_EncodeRLP [] ht"
  "NO_MATCH [] dst \<Longrightarrow> NoTipCertificate_EncodeRLP dst nt = dst @ NoTipCertificate_EncodeRLP [] nt"
  "NO_MATCH [] dst \<Longrightarrow> FreshProposalCertificate_EncodeRLP dst fpc = dst @ FreshProposalCertificate_EncodeRLP [] fpc"
  "NO_MATCH [] dst \<Longrightarrow> ConsensusBlockHeader_EncodeRLP dst h = dst @ ConsensusBlockHeader_EncodeRLP [] h"
  "NO_MATCH [] dst \<Longrightarrow> ConsensusBlockBody_EncodeRLP dst b = dst @ ConsensusBlockBody_EncodeRLP [] b"
  "NO_MATCH [] dst \<Longrightarrow> ConsensusFullBlock_EncodeRLP dst fb = dst @ ConsensusFullBlock_EncodeRLP [] fb"
  "NO_MATCH [] dst \<Longrightarrow> ConsensusTip_EncodeRLP dst tip = dst @ ConsensusTip_EncodeRLP [] tip"
  "NO_MATCH [] dst \<Longrightarrow> TimeoutInfo_EncodeRLP dst ti = dst @ TimeoutInfo_EncodeRLP [] ti"
  "NO_MATCH [] dst \<Longrightarrow> HighExtend_EncodeRLP dst he = dst @ HighExtend_EncodeRLP [] he"
  "NO_MATCH [] dst \<Longrightarrow> HighExtendVote_EncodeRLP dst hev = dst @ HighExtendVote_EncodeRLP [] hev"
  "NO_MATCH [] dst \<Longrightarrow> TimeoutCertificate_EncodeRLP dst tc = dst @ TimeoutCertificate_EncodeRLP [] tc"
  "NO_MATCH [] dst \<Longrightarrow> RoundCertificate_EncodeRLP dst rc = dst @ RoundCertificate_EncodeRLP [] rc"
  "NO_MATCH [] dst \<Longrightarrow> Timeout_EncodeRLP dst tm = dst @ Timeout_EncodeRLP [] tm"
  "NO_MATCH [] dst \<Longrightarrow> LockedEpoch_EncodeRLP dst le = dst @ LockedEpoch_EncodeRLP [] le"
  "NO_MATCH [] dst \<Longrightarrow> Checkpoint_EncodeRLP dst cp = dst @ Checkpoint_EncodeRLP [] cp"
  "NO_MATCH [] dst \<Longrightarrow> BlockRange_EncodeRLP dst br = dst @ BlockRange_EncodeRLP [] br"
  unfolding Vote_EncodeRLP_def QuorumCertificate_EncodeRLP_def NoEndorsement_EncodeRLP_def
    NoEndorsementCertificate_EncodeRLP_def HighTipRoundSigColTuple_EncodeRLP_def NoTipCertificate_EncodeRLP_def
    FreshProposalCertificate_EncodeRLP_def ConsensusBlockHeader_EncodeRLP_def ConsensusBlockBody_EncodeRLP_def
    ConsensusFullBlock_EncodeRLP_def ConsensusTip_EncodeRLP_def TimeoutInfo_EncodeRLP_def HighExtend_EncodeRLP_def
    HighExtendVote_EncodeRLP_def TimeoutCertificate_EncodeRLP_def RoundCertificate_EncodeRLP_def
    Timeout_EncodeRLP_def LockedEpoch_EncodeRLP_def Checkpoint_EncodeRLP_def BlockRange_EncodeRLP_def
  by (rule AppendList_dst)+

section \<open>Votes and quorum certificates\<close>

definition Vote_DecodeRLP :: "bytes \<Rightarrow> (rlp_error, Vote \<times> bytes) go" where
  "Vote_DecodeRLP s =
     go_bind (rlp_List s) (\<lambda>(l, rest).
     go_bind (BlockId_DecodeRLP l) (\<lambda>(i, l).
     go_bind (Round_DecodeRLP l) (\<lambda>(r, l).
     go_bind (Epoch_DecodeRLP l) (\<lambda>(e, l).
     go_bind (rlp_Done l) (\<lambda>_. Ok (\<lparr>v_ID = i, v_Round = r, v_Epoch = e\<rparr>, rest))))))"

definition wf_Vote :: "Vote \<Rightarrow> bool" where
  "wf_Vote v \<longleftrightarrow> length (v_ID v) = 32"

interpretation vote_rlp: rlp_codec "Vote_EncodeRLP []" Vote_DecodeRLP wf_Vote
proof
  fix x and rest :: bytes
  assume wf: "wf_Vote x" and len: "length (Vote_EncodeRLP [] x) + length rest < 2 ^ 62"
  have e: "Vote_EncodeRLP [] x = AppendList [] (\<lambda>p. p @ BlockId_EncodeRLP [] (v_ID x)
      @ Round_EncodeRLP [] (v_Round x) @ Epoch_EncodeRLP [] (v_Epoch x))"
    by (simp add: Vote_EncodeRLP_def rlp_append)
  show "Vote_DecodeRLP (Vote_EncodeRLP [] x @ rest) = Ok (x, rest)"
    using wf rlp_List_fields[OF len[unfolded e]] by (simp add: e Vote_DecodeRLP_def wf_Vote_def rlp_read)
qed (simp add: Vote_EncodeRLP_def AppendList_nonempty)

lemmas [rlp_read] = vote_rlp.reads

definition QuorumCertificate_DecodeRLP :: "crypto \<Rightarrow> bytes \<Rightarrow> (rlp_error, QuorumCertificate \<times> bytes) go" where
  "QuorumCertificate_DecodeRLP cr s =
     go_bind (rlp_List s) (\<lambda>(l, rest).
     go_bind (Vote_DecodeRLP l) (\<lambda>(info, l).
     go_bind (sigcol_DecodeRLP cr l) (\<lambda>(sigs, l).
     go_bind (rlp_Done l) (\<lambda>_. Ok (\<lparr>qc_Info = info, qc_Signatures = sigs\<rparr>, rest)))))"

definition wf_QC :: "crypto \<Rightarrow> QuorumCertificate \<Rightarrow> bool" where
  "wf_QC cr q \<longleftrightarrow> wf_Vote (qc_Info q) \<and> wf_sigcol cr (qc_Signatures q)"

interpretation qc_rlp: rlp_codec "QuorumCertificate_EncodeRLP []" "QuorumCertificate_DecodeRLP cr" "wf_QC cr" for cr
proof
  fix x and rest :: bytes
  assume wf: "wf_QC cr x" and len: "length (QuorumCertificate_EncodeRLP [] x) + length rest < 2 ^ 62"
  have e: "QuorumCertificate_EncodeRLP [] x = AppendList [] (\<lambda>p. p @ Vote_EncodeRLP [] (qc_Info x)
      @ sigcol_EncodeRLP [] (qc_Signatures x))"
    by (simp add: QuorumCertificate_EncodeRLP_def rlp_append)
  show "QuorumCertificate_DecodeRLP cr (QuorumCertificate_EncodeRLP [] x @ rest) = Ok (x, rest)"
    using wf rlp_List_fields[OF len[unfolded e]] by (simp add: e QuorumCertificate_DecodeRLP_def wf_QC_def rlp_read)
qed (simp add: QuorumCertificate_EncodeRLP_def AppendList_nonempty)

lemmas [rlp_read] = qc_rlp.reads

section \<open>No-endorsement and fresh-proposal certificates\<close>

definition NoEndorsement_DecodeRLP :: "bytes \<Rightarrow> (rlp_error, NoEndorsement \<times> bytes) go" where
  "NoEndorsement_DecodeRLP s =
     go_bind (rlp_List s) (\<lambda>(l, rest).
     go_bind (Epoch_DecodeRLP l) (\<lambda>(e, l).
     go_bind (Round_DecodeRLP l) (\<lambda>(r, l).
     go_bind (Round_DecodeRLP l) (\<lambda>(q, l).
     go_bind (rlp_Done l) (\<lambda>_. Ok (\<lparr>ne_Epoch = e, ne_Round = r, ne_TipQcRound = q\<rparr>, rest))))))"

interpretation ne_rlp: rlp_codec "NoEndorsement_EncodeRLP []" NoEndorsement_DecodeRLP "\<lambda>_. True"
proof
  fix x and rest :: bytes
  assume len: "length (NoEndorsement_EncodeRLP [] x) + length rest < 2 ^ 62"
  have e: "NoEndorsement_EncodeRLP [] x = AppendList [] (\<lambda>p. p @ Epoch_EncodeRLP [] (ne_Epoch x)
      @ Round_EncodeRLP [] (ne_Round x) @ Round_EncodeRLP [] (ne_TipQcRound x))"
    by (simp add: NoEndorsement_EncodeRLP_def rlp_append)
  show "NoEndorsement_DecodeRLP (NoEndorsement_EncodeRLP [] x @ rest) = Ok (x, rest)"
    using rlp_List_fields[OF len[unfolded e]] by (simp add: e NoEndorsement_DecodeRLP_def rlp_read)
qed (simp add: NoEndorsement_EncodeRLP_def AppendList_nonempty)

lemmas [rlp_read] = ne_rlp.reads

definition NoEndorsementCertificate_DecodeRLP :: "crypto \<Rightarrow> bytes \<Rightarrow> (rlp_error, NoEndorsementCertificate \<times> bytes) go" where
  "NoEndorsementCertificate_DecodeRLP cr s =
     go_bind (rlp_List s) (\<lambda>(l, rest).
     go_bind (NoEndorsement_DecodeRLP l) (\<lambda>(msg, l).
     go_bind (sigcol_DecodeRLP cr l) (\<lambda>(sigs, l).
     go_bind (rlp_Done l) (\<lambda>_. Ok (\<lparr>nec_Msg = msg, nec_Signatures = sigs\<rparr>, rest)))))"

definition wf_NEC :: "crypto \<Rightarrow> NoEndorsementCertificate \<Rightarrow> bool" where
  "wf_NEC cr n \<longleftrightarrow> wf_sigcol cr (nec_Signatures n)"

interpretation nec_rlp: rlp_codec "NoEndorsementCertificate_EncodeRLP []" "NoEndorsementCertificate_DecodeRLP cr" "wf_NEC cr" for cr
proof
  fix x and rest :: bytes
  assume wf: "wf_NEC cr x" and len: "length (NoEndorsementCertificate_EncodeRLP [] x) + length rest < 2 ^ 62"
  have e: "NoEndorsementCertificate_EncodeRLP [] x = AppendList [] (\<lambda>p. p @ NoEndorsement_EncodeRLP [] (nec_Msg x)
      @ sigcol_EncodeRLP [] (nec_Signatures x))"
    by (simp add: NoEndorsementCertificate_EncodeRLP_def rlp_append)
  show "NoEndorsementCertificate_DecodeRLP cr (NoEndorsementCertificate_EncodeRLP [] x @ rest) = Ok (x, rest)"
    using wf rlp_List_fields[OF len[unfolded e]]
    by (simp add: e NoEndorsementCertificate_DecodeRLP_def wf_NEC_def rlp_read)
qed (simp add: NoEndorsementCertificate_EncodeRLP_def AppendList_nonempty)

definition HighTipRoundSigColTuple_DecodeRLP :: "crypto \<Rightarrow> bytes \<Rightarrow> (rlp_error, HighTipRoundSigColTuple \<times> bytes) go" where
  "HighTipRoundSigColTuple_DecodeRLP cr s =
     go_bind (rlp_List s) (\<lambda>(l, rest).
     go_bind (Round_DecodeRLP l) (\<lambda>(q, l).
     go_bind (Round_DecodeRLP l) (\<lambda>(t, l).
     go_bind (sigcol_DecodeRLP cr l) (\<lambda>(sigs, l).
     go_bind (rlp_Done l) (\<lambda>_. Ok (\<lparr>ht_HighQcRound = q, ht_HighTipRound = t, ht_Sigs = sigs\<rparr>, rest))))))"

definition wf_HT :: "crypto \<Rightarrow> HighTipRoundSigColTuple \<Rightarrow> bool" where
  "wf_HT cr t \<longleftrightarrow> wf_sigcol cr (ht_Sigs t)"

interpretation ht_rlp: rlp_codec "HighTipRoundSigColTuple_EncodeRLP []" "HighTipRoundSigColTuple_DecodeRLP cr" "wf_HT cr" for cr
proof
  fix x and rest :: bytes
  assume wf: "wf_HT cr x" and len: "length (HighTipRoundSigColTuple_EncodeRLP [] x) + length rest < 2 ^ 62"
  have e: "HighTipRoundSigColTuple_EncodeRLP [] x = AppendList [] (\<lambda>p. p @ Round_EncodeRLP [] (ht_HighQcRound x)
      @ Round_EncodeRLP [] (ht_HighTipRound x) @ sigcol_EncodeRLP [] (ht_Sigs x))"
    by (simp add: HighTipRoundSigColTuple_EncodeRLP_def rlp_append)
  show "HighTipRoundSigColTuple_DecodeRLP cr (HighTipRoundSigColTuple_EncodeRLP [] x @ rest) = Ok (x, rest)"
    using wf rlp_List_fields[OF len[unfolded e]]
    by (simp add: e HighTipRoundSigColTuple_DecodeRLP_def wf_HT_def rlp_read)
qed (simp add: HighTipRoundSigColTuple_EncodeRLP_def AppendList_nonempty)

lemmas [rlp_read] = nec_rlp.reads ht_rlp.reads

text \<open>The branch for tag 2 of \<open>FreshProposalCertificate.DecodeRLP\<close>; it sets no limit on the tip rounds.\<close>

definition NoTipCertificate_DecodeRLP :: "crypto \<Rightarrow> bytes \<Rightarrow> (rlp_error, NoTipCertificate \<times> bytes) go" where
  "NoTipCertificate_DecodeRLP cr l =
     go_bind (rlp_List l) (\<lambda>(l2, rest).
     go_bind (Epoch_DecodeRLP l2) (\<lambda>(e, l2).
     go_bind (Round_DecodeRLP l2) (\<lambda>(r, l2).
     go_bind (rlp_List l2) (\<lambda>(trs, l2).
     go_bind (rlp_each (HighTipRoundSigColTuple_DecodeRLP cr) trs) (\<lambda>tipRounds.
     go_bind (QuorumCertificate_DecodeRLP cr l2) (\<lambda>(q, l2).
     go_bind (rlp_Done l2) (\<lambda>_.
       Ok (\<lparr>nt_Epoch = e, nt_Round = r, nt_TipRounds = tipRounds, nt_HighQc = q\<rparr>, rest))))))))"

definition wf_NoTip :: "crypto \<Rightarrow> NoTipCertificate \<Rightarrow> bool" where
  "wf_NoTip cr n \<longleftrightarrow> (\<forall>t\<in>set (nt_TipRounds n). wf_HT cr t) \<and> wf_QC cr (nt_HighQc n)"

interpretation notip_rlp: rlp_codec "NoTipCertificate_EncodeRLP []" "NoTipCertificate_DecodeRLP cr" "wf_NoTip cr" for cr
proof
  fix x and rest :: bytes
  assume wf: "wf_NoTip cr x" and len: "length (NoTipCertificate_EncodeRLP [] x) + length rest < 2 ^ 62"
  have e: "NoTipCertificate_EncodeRLP [] x = AppendList [] (\<lambda>p. p @ Epoch_EncodeRLP [] (nt_Epoch x)
      @ Round_EncodeRLP [] (nt_Round x)
      @ AppendList [] (\<lambda>q. q @ concat (map (HighTipRoundSigColTuple_EncodeRLP []) (nt_TipRounds x)))
      @ QuorumCertificate_EncodeRLP [] (nt_HighQc x))"
    by (simp add: NoTipCertificate_EncodeRLP_def rlp_append)
  show "NoTipCertificate_DecodeRLP cr (NoTipCertificate_EncodeRLP [] x @ rest) = Ok (x, rest)"
    using wf rlp_List_fields[OF len[unfolded e]]
    by (simp add: e NoTipCertificate_DecodeRLP_def wf_NoTip_def rlp_read)
qed (simp add: NoTipCertificate_EncodeRLP_def AppendList_nonempty)

lemmas [rlp_read] = notip_rlp.reads

definition FreshProposalCertificate_DecodeRLP :: "crypto \<Rightarrow> bytes \<Rightarrow> (rlp_error, FreshProposalCertificate \<times> bytes) go" where
  "FreshProposalCertificate_DecodeRLP cr s =
     go_bind (rlp_List s) (\<lambda>(l, rest).
     go_bind (rlp_Uint64 l) (\<lambda>(tag, l).
     go_bind (if tag = 1 then go_bind (NoEndorsementCertificate_DecodeRLP cr l) (\<lambda>(n, l). Ok (FPC_Nec n, l))
              else if tag = 2 then go_bind (NoTipCertificate_DecodeRLP cr l) (\<lambda>(n, l). Ok (FPC_NoTip n, l))
              else Err ErrCustom) (\<lambda>(f, l).
     go_bind (rlp_Done l) (\<lambda>_. Ok (f, rest)))))"

fun wf_FPC :: "crypto \<Rightarrow> FreshProposalCertificate \<Rightarrow> bool" where
  "wf_FPC cr (FPC_Nec n) = wf_NEC cr n"
| "wf_FPC cr (FPC_NoTip n) = wf_NoTip cr n"

interpretation fpc_rlp: rlp_codec "FreshProposalCertificate_EncodeRLP []" "FreshProposalCertificate_DecodeRLP cr" "wf_FPC cr" for cr
proof
  fix x and rest :: bytes
  assume wf: "wf_FPC cr x" and len: "length (FreshProposalCertificate_EncodeRLP [] x) + length rest < 2 ^ 62"
  show "FreshProposalCertificate_DecodeRLP cr (FreshProposalCertificate_EncodeRLP [] x @ rest) = Ok (x, rest)"
  proof (cases x)
    case (FPC_Nec n)
    then have e: "FreshProposalCertificate_EncodeRLP [] x = AppendList [] (\<lambda>p. p @ AppendUint8 [] 1
        @ NoEndorsementCertificate_EncodeRLP [] n)"
      by (simp add: FreshProposalCertificate_EncodeRLP_def rlp_append)
    show ?thesis unfolding e using wf FPC_Nec rlp_List_fields[OF len[unfolded e]]
      by (simp add: FreshProposalCertificate_DecodeRLP_def rlp_read)
  next
    case (FPC_NoTip n)
    then have e: "FreshProposalCertificate_EncodeRLP [] x = AppendList [] (\<lambda>p. p @ AppendUint8 [] 2
        @ NoTipCertificate_EncodeRLP [] n)"
      by (simp add: FreshProposalCertificate_EncodeRLP_def rlp_append)
    show ?thesis unfolding e using wf FPC_NoTip rlp_List_fields[OF len[unfolded e]]
      by (simp add: FreshProposalCertificate_DecodeRLP_def rlp_read)
  qed
qed (simp add: FreshProposalCertificate_EncodeRLP_def AppendList_nonempty)

lemmas [rlp_read] = fpc_rlp.reads

section \<open>Blocks and tips\<close>

text \<open>A field that holds a BLS signature: 96 bytes that are a point.\<close>

definition bls_sig_Decode :: "crypto \<Rightarrow> bytes \<Rightarrow> (rlp_error, bls_sig \<times> bytes) go" where
  "bls_sig_Decode cr l =
     go_bind (rlp_FixedBytes BlsSignatureCompressdLen l) (\<lambda>(sigB, l).
       case BlsSignatureUncompress cr sigB of None \<Rightarrow> Err (ErrOther ''bls: bad encoding'') | Some s \<Rightarrow> Ok (s, l))"

definition wf_bls :: "crypto \<Rightarrow> bls_sig \<Rightarrow> bool" where
  "wf_bls cr s \<longleftrightarrow> BlsSignatureUncompress cr s = Some s"

interpretation bls_rlp: rlp_codec "AppendString []" "bls_sig_Decode cr" "wf_bls cr" for cr
  by unfold_locales
    (auto simp: bls_sig_Decode_def wf_bls_def BlsSignatureUncompress_def rlp_read AppendString_nonempty
      split: if_splits)

definition secp_sig_Decode :: "bytes \<Rightarrow> (rlp_error, secp_sig \<times> bytes) go" where
  "secp_sig_Decode l =
     go_bind (rlp_FixedBytes SecpSignatureSize l) (\<lambda>(sigB, l).
     go_bind (SecpSignatureFromBytes sigB) (\<lambda>sig. Ok (sig, l)))"

definition wf_secp :: "secp_sig \<Rightarrow> bool" where
  "wf_secp s \<longleftrightarrow> length s = SecpSignatureSize \<and> s ! 64 \<le> 3"

interpretation secp_rlp: rlp_codec "AppendString []" secp_sig_Decode wf_secp
  by unfold_locales
    (auto simp: secp_sig_Decode_def wf_secp_def SecpSignatureFromBytes_def rlp_read AppendString_nonempty not_less)

lemmas [rlp_read] = bls_rlp.reads secp_rlp.reads

definition ConsensusBlockHeader_DecodeRLP ::
  "crypto \<Rightarrow> exec_protocol \<Rightarrow> bytes \<Rightarrow> (rlp_error, ConsensusBlockHeader \<times> bytes) go" where
  "ConsensusBlockHeader_DecodeRLP cr ep s =
     go_bind (rlp_List s) (\<lambda>(l, rest).
     go_bind (Round_DecodeRLP l) (\<lambda>(blockRound, l).
     go_bind (Epoch_DecodeRLP l) (\<lambda>(epoch, l).
     go_bind (QuorumCertificate_DecodeRLP cr l) (\<lambda>(qc, l).
     go_bind (NodeId_DecodeRLP l) (\<lambda>(author, l).
     go_bind (SeqNum_DecodeRLP l) (\<lambda>(seqNum, l).
     go_bind (U128_DecodeRLP l) (\<lambda>(ts, l).
     go_bind (bls_sig_Decode cr l) (\<lambda>(sig, l).
     go_bind (rlp_List l) (\<lambda>(resList, l).
     go_bind (rlp_each (ep_FinalizedHeader ep) resList) (\<lambda>results.
     if MaxDelayedResults < length results then Err ErrUnexpectedLength else
     go_bind (ep_ProposedHeader ep l) (\<lambda>(inputs, l).
     go_bind (rlp_FixedBytes 32 l) (\<lambda>(bid, l).
     go_bind (rlp_Uint64 l) (\<lambda>(baseFee, l).
     go_bind (rlp_Uint64 l) (\<lambda>(trend, l).
     go_bind (rlp_Uint64 l) (\<lambda>(moment, l).
     go_bind (rlp_Done l) (\<lambda>_.
       Ok (\<lparr>bh_BlockRound = blockRound, bh_Epoch = epoch, bh_QC = qc, bh_Author = author, bh_SeqNum = seqNum,
            bh_TimestampNs = ts, bh_RoundSignature = sig, bh_DelayedExecutionResults = results,
            bh_ExecutionInputs = inputs, bh_BlockBodyId = bid, bh_BaseFee = baseFee, bh_BaseFeeTrend = trend,
            bh_BaseFeeMoment = moment\<rparr>, rest)))))))))))))))))"

definition wf_Header :: "crypto \<Rightarrow> exec_protocol \<Rightarrow> ConsensusBlockHeader \<Rightarrow> bool" where
  "wf_Header cr ep h \<longleftrightarrow> wf_QC cr (bh_QC h) \<and> length (bh_Author h) = SecpPubkeySize \<and> wf_u128 (bh_TimestampNs h)
     \<and> wf_bls cr (bh_RoundSignature h) \<and> length (bh_DelayedExecutionResults h) \<le> MaxDelayedResults
     \<and> (\<forall>fh\<in>set (bh_DelayedExecutionResults h). exec_wf fh_Encoded (ep_FinalizedHeader ep) fh)
     \<and> exec_wf (\<lambda>x. x) (ep_ProposedHeader ep) (bh_ExecutionInputs h) \<and> length (bh_BlockBodyId h) = 32"

lemma ConsensusBlockHeader_fields:
  "ConsensusBlockHeader_EncodeRLP [] h = AppendList [] (\<lambda>p. p @ Round_EncodeRLP [] (bh_BlockRound h)
     @ Epoch_EncodeRLP [] (bh_Epoch h) @ QuorumCertificate_EncodeRLP [] (bh_QC h)
     @ NodeId_EncodeRLP [] (bh_Author h) @ SeqNum_EncodeRLP [] (bh_SeqNum h)
     @ U128_EncodeRLP [] (bh_TimestampNs h) @ AppendString [] (bh_RoundSignature h)
     @ AppendList [] (\<lambda>q. q @ concat (map fh_Encoded (bh_DelayedExecutionResults h)))
     @ bh_ExecutionInputs h @ AppendString [] (bh_BlockBodyId h) @ AppendUint64 [] (bh_BaseFee h)
     @ AppendUint64 [] (bh_BaseFeeTrend h) @ AppendUint64 [] (bh_BaseFeeMoment h))"
  by (simp add: ConsensusBlockHeader_EncodeRLP_def rlp_append)

interpretation header_rlp: rlp_codec "ConsensusBlockHeader_EncodeRLP []" "ConsensusBlockHeader_DecodeRLP cr ep" "wf_Header cr ep" for cr ep
proof
  fix x and rest :: bytes
  assume wf: "wf_Header cr ep x" and len: "length (ConsensusBlockHeader_EncodeRLP [] x) + length rest < 2 ^ 62"
  show "ConsensusBlockHeader_DecodeRLP cr ep (ConsensusBlockHeader_EncodeRLP [] x @ rest) = Ok (x, rest)"
    unfolding ConsensusBlockHeader_fields
    using wf rlp_List_fields[OF len[unfolded ConsensusBlockHeader_fields]]
    by (simp add: ConsensusBlockHeader_DecodeRLP_def wf_Header_def rlp_read not_less)
qed (simp add: ConsensusBlockHeader_EncodeRLP_def AppendList_nonempty)

lemmas [rlp_read] = header_rlp.reads

definition ConsensusBlockBody_DecodeRLP :: "exec_protocol \<Rightarrow> bytes \<Rightarrow> (rlp_error, ConsensusBlockBody \<times> bytes) go" where
  "ConsensusBlockBody_DecodeRLP ep s =
     go_bind (rlp_List s) (\<lambda>(l, rest).
     go_bind (ep_Body ep l) (\<lambda>(b, l).
     go_bind (rlp_Done l) (\<lambda>_. Ok (b, rest))))"

interpretation cbody_rlp: rlp_codec "ConsensusBlockBody_EncodeRLP []" "ConsensusBlockBody_DecodeRLP ep"
    "exec_wf (\<lambda>b. b) (ep_Body ep)" for ep
proof
  fix x and rest :: bytes
  assume wf: "exec_wf (\<lambda>b. b) (ep_Body ep) x" and len: "length (ConsensusBlockBody_EncodeRLP [] x) + length rest < 2 ^ 62"
  show "ConsensusBlockBody_DecodeRLP ep (ConsensusBlockBody_EncodeRLP [] x @ rest) = Ok (x, rest)"
    unfolding ConsensusBlockBody_EncodeRLP_def
    using wf rlp_List_fields[OF len[unfolded ConsensusBlockBody_EncodeRLP_def]]
    by (simp add: ConsensusBlockBody_DecodeRLP_def rlp_read)
qed (simp add: ConsensusBlockBody_EncodeRLP_def AppendList_nonempty)

lemmas [rlp_read] = cbody_rlp.reads

definition ConsensusFullBlock_DecodeRLP ::
  "crypto \<Rightarrow> exec_protocol \<Rightarrow> bytes \<Rightarrow> (rlp_error, ConsensusFullBlock \<times> bytes) go" where
  "ConsensusFullBlock_DecodeRLP cr ep s =
     go_bind (rlp_List s) (\<lambda>(l, rest).
     go_bind (ConsensusBlockHeader_DecodeRLP cr ep l) (\<lambda>(h, l).
     go_bind (ConsensusBlockBody_DecodeRLP ep l) (\<lambda>(b, l).
     go_bind (rlp_Done l) (\<lambda>_. Ok (\<lparr>fb_Header = h, fb_Body = b\<rparr>, rest)))))"

definition wf_FullBlock :: "crypto \<Rightarrow> exec_protocol \<Rightarrow> ConsensusFullBlock \<Rightarrow> bool" where
  "wf_FullBlock cr ep b \<longleftrightarrow> wf_Header cr ep (fb_Header b) \<and> exec_wf (\<lambda>b. b) (ep_Body ep) (fb_Body b)"

interpretation full_block_rlp: rlp_codec "ConsensusFullBlock_EncodeRLP []" "ConsensusFullBlock_DecodeRLP cr ep"
    "wf_FullBlock cr ep" for cr ep
proof
  fix x and rest :: bytes
  assume wf: "wf_FullBlock cr ep x" and len: "length (ConsensusFullBlock_EncodeRLP [] x) + length rest < 2 ^ 62"
  have e: "ConsensusFullBlock_EncodeRLP [] x = AppendList [] (\<lambda>p. p @ ConsensusBlockHeader_EncodeRLP [] (fb_Header x)
      @ ConsensusBlockBody_EncodeRLP [] (fb_Body x))"
    by (simp add: ConsensusFullBlock_EncodeRLP_def rlp_append)
  show "ConsensusFullBlock_DecodeRLP cr ep (ConsensusFullBlock_EncodeRLP [] x @ rest) = Ok (x, rest)"
    unfolding e using wf rlp_List_fields[OF len[unfolded e]]
    by (simp add: ConsensusFullBlock_DecodeRLP_def wf_FullBlock_def rlp_read)
qed (simp add: ConsensusFullBlock_EncodeRLP_def AppendList_nonempty)

definition BlockRange_DecodeRLP :: "bytes \<Rightarrow> (rlp_error, BlockRange \<times> bytes) go" where
  "BlockRange_DecodeRLP s =
     go_bind (rlp_List s) (\<lambda>(l, rest).
     go_bind (BlockId_DecodeRLP l) (\<lambda>(i, l).
     go_bind (SeqNum_DecodeRLP l) (\<lambda>(n, l).
     go_bind (rlp_Done l) (\<lambda>_. Ok (\<lparr>br_LastBlockId = i, br_NumBlocks = n\<rparr>, rest)))))"

interpretation block_range_rlp: rlp_codec "BlockRange_EncodeRLP []" BlockRange_DecodeRLP "\<lambda>r. length (br_LastBlockId r) = 32"
proof
  fix x and rest :: bytes
  assume wf: "length (br_LastBlockId x) = 32" and len: "length (BlockRange_EncodeRLP [] x) + length rest < 2 ^ 62"
  have e: "BlockRange_EncodeRLP [] x = AppendList [] (\<lambda>p. p @ BlockId_EncodeRLP [] (br_LastBlockId x)
      @ SeqNum_EncodeRLP [] (br_NumBlocks x))"
    by (simp add: BlockRange_EncodeRLP_def rlp_append)
  show "BlockRange_DecodeRLP (BlockRange_EncodeRLP [] x @ rest) = Ok (x, rest)"
    unfolding e using wf rlp_List_fields[OF len[unfolded e]] by (simp add: BlockRange_DecodeRLP_def rlp_read)
qed (simp add: BlockRange_EncodeRLP_def AppendList_nonempty)

definition ConsensusTip_DecodeRLP ::
  "crypto \<Rightarrow> exec_protocol \<Rightarrow> bytes \<Rightarrow> (rlp_error, ConsensusTip \<times> bytes) go" where
  "ConsensusTip_DecodeRLP cr ep s =
     go_bind (rlp_List s) (\<lambda>(l, rest).
     go_bind (ConsensusBlockHeader_DecodeRLP cr ep l) (\<lambda>(h, l).
     go_bind (secp_sig_Decode l) (\<lambda>(sig, l).
     go_bind (if l \<noteq> [] then go_bind (FreshProposalCertificate_DecodeRLP cr l) (\<lambda>(f, l). Ok (Some f, l))
              else Ok (None, l)) (\<lambda>(fc, l).
     go_bind (rlp_Done l) (\<lambda>_.
       Ok (\<lparr>tip_BlockHeader = h, tip_Signature = sig, tip_FreshCertificate = fc\<rparr>, rest))))))"

definition wf_Tip :: "crypto \<Rightarrow> exec_protocol \<Rightarrow> ConsensusTip \<Rightarrow> bool" where
  "wf_Tip cr ep t \<longleftrightarrow> wf_Header cr ep (tip_BlockHeader t) \<and> wf_secp (tip_Signature t)
     \<and> (\<forall>f. tip_FreshCertificate t = Some f \<longrightarrow> wf_FPC cr f)"

interpretation tip_rlp: rlp_codec "ConsensusTip_EncodeRLP []" "ConsensusTip_DecodeRLP cr ep" "wf_Tip cr ep" for cr ep
proof
  fix x and rest :: bytes
  assume wf: "wf_Tip cr ep x" and len: "length (ConsensusTip_EncodeRLP [] x) + length rest < 2 ^ 62"
  show "ConsensusTip_DecodeRLP cr ep (ConsensusTip_EncodeRLP [] x @ rest) = Ok (x, rest)"
  proof (cases "tip_FreshCertificate x")
    case None
    then have e: "ConsensusTip_EncodeRLP [] x = AppendList [] (\<lambda>p. p
        @ ConsensusBlockHeader_EncodeRLP [] (tip_BlockHeader x) @ AppendString [] (tip_Signature x))"
      by (simp add: ConsensusTip_EncodeRLP_def rlp_append)
    show ?thesis unfolding e using wf None rlp_List_fields[OF len[unfolded e]]
      by (simp add: ConsensusTip_DecodeRLP_def wf_Tip_def rlp_read)
  next
    case (Some f)
    then have e: "ConsensusTip_EncodeRLP [] x = AppendList [] (\<lambda>p. p
        @ ConsensusBlockHeader_EncodeRLP [] (tip_BlockHeader x) @ AppendString [] (tip_Signature x)
        @ FreshProposalCertificate_EncodeRLP [] f)"
      by (simp add: ConsensusTip_EncodeRLP_def rlp_append)
    have "FreshProposalCertificate_EncodeRLP [] f \<noteq> []"
      by (simp add: FreshProposalCertificate_EncodeRLP_def AppendList_nonempty)
    then show ?thesis unfolding e using wf Some rlp_List_fields[OF len[unfolded e]]
      by (simp add: ConsensusTip_DecodeRLP_def wf_Tip_def rlp_read)
  qed
qed (simp add: ConsensusTip_EncodeRLP_def AppendList_nonempty)

lemmas [rlp_read] = full_block_rlp.reads block_range_rlp.reads tip_rlp.reads

section \<open>Timeouts\<close>

definition TimeoutInfo_DecodeRLP :: "bytes \<Rightarrow> (rlp_error, TimeoutInfo \<times> bytes) go" where
  "TimeoutInfo_DecodeRLP s =
     go_bind (rlp_List s) (\<lambda>(l, rest).
     go_bind (Epoch_DecodeRLP l) (\<lambda>(e, l).
     go_bind (Round_DecodeRLP l) (\<lambda>(r, l).
     go_bind (Round_DecodeRLP l) (\<lambda>(q, l).
     go_bind (Round_DecodeRLP l) (\<lambda>(t, l).
     go_bind (rlp_Done l) (\<lambda>_.
       Ok (\<lparr>ti_Epoch = e, ti_Round = r, ti_HighQcRound = q, ti_HighTipRound = t\<rparr>, rest)))))))"

interpretation ti_rlp: rlp_codec "TimeoutInfo_EncodeRLP []" TimeoutInfo_DecodeRLP "\<lambda>_. True"
proof
  fix x and rest :: bytes
  assume len: "length (TimeoutInfo_EncodeRLP [] x) + length rest < 2 ^ 62"
  have e: "TimeoutInfo_EncodeRLP [] x = AppendList [] (\<lambda>p. p @ Epoch_EncodeRLP [] (ti_Epoch x)
      @ Round_EncodeRLP [] (ti_Round x) @ Round_EncodeRLP [] (ti_HighQcRound x)
      @ Round_EncodeRLP [] (ti_HighTipRound x))"
    by (simp add: TimeoutInfo_EncodeRLP_def rlp_append)
  show "TimeoutInfo_DecodeRLP (TimeoutInfo_EncodeRLP [] x @ rest) = Ok (x, rest)"
    unfolding e using rlp_List_fields[OF len[unfolded e]] by (simp add: TimeoutInfo_DecodeRLP_def rlp_read)
qed (simp add: TimeoutInfo_EncodeRLP_def AppendList_nonempty)

definition HighExtend_DecodeRLP :: "crypto \<Rightarrow> exec_protocol \<Rightarrow> bytes \<Rightarrow> (rlp_error, HighExtend \<times> bytes) go" where
  "HighExtend_DecodeRLP cr ep s =
     go_bind (rlp_List s) (\<lambda>(l, rest).
     go_bind (rlp_Uint64 l) (\<lambda>(tag, l).
     go_bind (if tag = 1 then go_bind (ConsensusTip_DecodeRLP cr ep l) (\<lambda>(t, l). Ok (HE_Tip t, l))
              else if tag = 2 then go_bind (QuorumCertificate_DecodeRLP cr l) (\<lambda>(q, l). Ok (HE_QC q, l))
              else Err ErrCustom) (\<lambda>(h, l).
     go_bind (rlp_Done l) (\<lambda>_. Ok (h, rest)))))"

fun wf_HighExtend :: "crypto \<Rightarrow> exec_protocol \<Rightarrow> HighExtend \<Rightarrow> bool" where
  "wf_HighExtend cr ep (HE_Tip t) = wf_Tip cr ep t"
| "wf_HighExtend cr ep (HE_QC q) = wf_QC cr q"

interpretation he_rlp: rlp_codec "HighExtend_EncodeRLP []" "HighExtend_DecodeRLP cr ep" "wf_HighExtend cr ep" for cr ep
proof
  fix x and rest :: bytes
  assume wf: "wf_HighExtend cr ep x" and len: "length (HighExtend_EncodeRLP [] x) + length rest < 2 ^ 62"
  show "HighExtend_DecodeRLP cr ep (HighExtend_EncodeRLP [] x @ rest) = Ok (x, rest)"
  proof (cases x)
    case (HE_Tip t)
    then have e: "HighExtend_EncodeRLP [] x = AppendList [] (\<lambda>p. p @ AppendUint8 [] 1 @ ConsensusTip_EncodeRLP [] t)"
      by (simp add: HighExtend_EncodeRLP_def rlp_append)
    show ?thesis unfolding e using wf HE_Tip rlp_List_fields[OF len[unfolded e]]
      by (simp add: HighExtend_DecodeRLP_def rlp_read)
  next
    case (HE_QC q)
    then have e: "HighExtend_EncodeRLP [] x = AppendList [] (\<lambda>p. p @ AppendUint8 [] 2 @ QuorumCertificate_EncodeRLP [] q)"
      by (simp add: HighExtend_EncodeRLP_def rlp_append)
    show ?thesis unfolding e using wf HE_QC rlp_List_fields[OF len[unfolded e]]
      by (simp add: HighExtend_DecodeRLP_def rlp_read)
  qed
qed (simp add: HighExtend_EncodeRLP_def AppendList_nonempty)

definition HighExtendVote_DecodeRLP ::
  "crypto \<Rightarrow> exec_protocol \<Rightarrow> bytes \<Rightarrow> (rlp_error, HighExtendVote \<times> bytes) go" where
  "HighExtendVote_DecodeRLP cr ep s =
     go_bind (rlp_List s) (\<lambda>(l, rest).
     go_bind (rlp_Uint64 l) (\<lambda>(tag, l).
     go_bind (if tag = 1 then
                go_bind (ConsensusTip_DecodeRLP cr ep l) (\<lambda>(t, l).
                  if l \<noteq> [] then go_bind (bls_sig_Decode cr l) (\<lambda>(sg, l). Ok (HEV_Tip t (Some sg), l))
                  else Ok (HEV_Tip t None, l))
              else if tag = 2 then go_bind (QuorumCertificate_DecodeRLP cr l) (\<lambda>(q, l). Ok (HEV_QC q, l))
              else Err ErrCustom) (\<lambda>(h, l).
     go_bind (rlp_Done l) (\<lambda>_. Ok (h, rest)))))"

fun wf_HighExtendVote :: "crypto \<Rightarrow> exec_protocol \<Rightarrow> HighExtendVote \<Rightarrow> bool" where
  "wf_HighExtendVote cr ep (HEV_Tip t vs) = (wf_Tip cr ep t \<and> (\<forall>s. vs = Some s \<longrightarrow> wf_bls cr s))"
| "wf_HighExtendVote cr ep (HEV_QC q) = wf_QC cr q"

interpretation hev_rlp: rlp_codec "HighExtendVote_EncodeRLP []" "HighExtendVote_DecodeRLP cr ep" "wf_HighExtendVote cr ep" for cr ep
proof
  fix x and rest :: bytes
  assume wf: "wf_HighExtendVote cr ep x" and len: "length (HighExtendVote_EncodeRLP [] x) + length rest < 2 ^ 62"
  consider (tip) t where "x = HEV_Tip t None" | (vote) t s where "x = HEV_Tip t (Some s)" | (qc) q where "x = HEV_QC q"
    by (cases x) (metis not_None_eq)+
  then show "HighExtendVote_DecodeRLP cr ep (HighExtendVote_EncodeRLP [] x @ rest) = Ok (x, rest)"
  proof cases
    case tip
    then have e: "HighExtendVote_EncodeRLP [] x = AppendList [] (\<lambda>p. p @ AppendUint8 [] 1 @ ConsensusTip_EncodeRLP [] t)"
      by (simp add: HighExtendVote_EncodeRLP_def rlp_append)
    show ?thesis unfolding e using wf tip rlp_List_fields[OF len[unfolded e]]
      by (simp add: HighExtendVote_DecodeRLP_def rlp_read)
  next
    case vote
    then have e: "HighExtendVote_EncodeRLP [] x
        = AppendList [] (\<lambda>p. p @ AppendUint8 [] 1 @ ConsensusTip_EncodeRLP [] t @ AppendString [] s)"
      by (simp add: HighExtendVote_EncodeRLP_def rlp_append)
    show ?thesis unfolding e using wf vote rlp_List_fields[OF len[unfolded e]]
      by (simp add: HighExtendVote_DecodeRLP_def rlp_read AppendString_nonempty)
  next
    case qc
    then have e: "HighExtendVote_EncodeRLP [] x = AppendList [] (\<lambda>p. p @ AppendUint8 [] 2 @ QuorumCertificate_EncodeRLP [] q)"
      by (simp add: HighExtendVote_EncodeRLP_def rlp_append)
    show ?thesis unfolding e using wf qc rlp_List_fields[OF len[unfolded e]]
      by (simp add: HighExtendVote_DecodeRLP_def rlp_read)
  qed
qed (simp add: HighExtendVote_EncodeRLP_def AppendList_nonempty)

lemmas [rlp_read] = ti_rlp.reads he_rlp.reads hev_rlp.reads

definition MaxValidatorSetSize :: nat where "MaxValidatorSetSize = 300"

definition TimeoutCertificate_DecodeRLP ::
  "crypto \<Rightarrow> exec_protocol \<Rightarrow> bytes \<Rightarrow> (rlp_error, TimeoutCertificate \<times> bytes) go" where
  "TimeoutCertificate_DecodeRLP cr ep s =
     go_bind (rlp_List s) (\<lambda>(l, rest).
     go_bind (Epoch_DecodeRLP l) (\<lambda>(e, l).
     go_bind (Round_DecodeRLP l) (\<lambda>(r, l).
     go_bind (rlp_List l) (\<lambda>(trs, l).
     go_bind (rlp_each (HighTipRoundSigColTuple_DecodeRLP cr) trs) (\<lambda>tipRounds.
     if MaxValidatorSetSize < length tipRounds then Err ErrUnexpectedLength else
     go_bind (HighExtend_DecodeRLP cr ep l) (\<lambda>(h, l).
     go_bind (rlp_Done l) (\<lambda>_.
       Ok (\<lparr>tc_Epoch = e, tc_Round = r, tc_TipRounds = tipRounds, tc_HighExtend = h\<rparr>, rest))))))))"

definition wf_TC :: "crypto \<Rightarrow> exec_protocol \<Rightarrow> TimeoutCertificate \<Rightarrow> bool" where
  "wf_TC cr ep t \<longleftrightarrow> (\<forall>x\<in>set (tc_TipRounds t). wf_HT cr x) \<and> length (tc_TipRounds t) \<le> MaxValidatorSetSize
     \<and> wf_HighExtend cr ep (tc_HighExtend t)"

interpretation tc_rlp: rlp_codec "TimeoutCertificate_EncodeRLP []" "TimeoutCertificate_DecodeRLP cr ep" "wf_TC cr ep" for cr ep
proof
  fix x and rest :: bytes
  assume wf: "wf_TC cr ep x" and len: "length (TimeoutCertificate_EncodeRLP [] x) + length rest < 2 ^ 62"
  have e: "TimeoutCertificate_EncodeRLP [] x = AppendList [] (\<lambda>p. p @ Epoch_EncodeRLP [] (tc_Epoch x)
      @ Round_EncodeRLP [] (tc_Round x)
      @ AppendList [] (\<lambda>q. q @ concat (map (HighTipRoundSigColTuple_EncodeRLP []) (tc_TipRounds x)))
      @ HighExtend_EncodeRLP [] (tc_HighExtend x))"
    by (simp add: TimeoutCertificate_EncodeRLP_def rlp_append)
  show "TimeoutCertificate_DecodeRLP cr ep (TimeoutCertificate_EncodeRLP [] x @ rest) = Ok (x, rest)"
    unfolding e using wf rlp_List_fields[OF len[unfolded e]]
    by (simp add: TimeoutCertificate_DecodeRLP_def wf_TC_def rlp_read not_less)
qed (simp add: TimeoutCertificate_EncodeRLP_def AppendList_nonempty)

lemmas [rlp_read] = tc_rlp.reads

definition RoundCertificate_DecodeRLP ::
  "crypto \<Rightarrow> exec_protocol \<Rightarrow> bytes \<Rightarrow> (rlp_error, RoundCertificate \<times> bytes) go" where
  "RoundCertificate_DecodeRLP cr ep s =
     go_bind (rlp_List s) (\<lambda>(l, rest).
     go_bind (rlp_Uint64 l) (\<lambda>(tag, l).
     go_bind (if tag = 1 then go_bind (QuorumCertificate_DecodeRLP cr l) (\<lambda>(q, l). Ok (RC_QC q, l))
              else if tag = 2 then go_bind (TimeoutCertificate_DecodeRLP cr ep l) (\<lambda>(t, l). Ok (RC_TC t, l))
              else Err ErrCustom) (\<lambda>(r, l).
     go_bind (rlp_Done l) (\<lambda>_. Ok (r, rest)))))"

fun wf_RC :: "crypto \<Rightarrow> exec_protocol \<Rightarrow> RoundCertificate \<Rightarrow> bool" where
  "wf_RC cr ep (RC_QC q) = wf_QC cr q"
| "wf_RC cr ep (RC_TC t) = wf_TC cr ep t"

interpretation rc_rlp: rlp_codec "RoundCertificate_EncodeRLP []" "RoundCertificate_DecodeRLP cr ep" "wf_RC cr ep" for cr ep
proof
  fix x and rest :: bytes
  assume wf: "wf_RC cr ep x" and len: "length (RoundCertificate_EncodeRLP [] x) + length rest < 2 ^ 62"
  show "RoundCertificate_DecodeRLP cr ep (RoundCertificate_EncodeRLP [] x @ rest) = Ok (x, rest)"
  proof (cases x)
    case (RC_QC q)
    then have e: "RoundCertificate_EncodeRLP [] x = AppendList [] (\<lambda>p. p @ AppendUint8 [] 1 @ QuorumCertificate_EncodeRLP [] q)"
      by (simp add: RoundCertificate_EncodeRLP_def rlp_append)
    show ?thesis unfolding e using wf RC_QC rlp_List_fields[OF len[unfolded e]]
      by (simp add: RoundCertificate_DecodeRLP_def rlp_read)
  next
    case (RC_TC t)
    then have e: "RoundCertificate_EncodeRLP [] x = AppendList [] (\<lambda>p. p @ AppendUint8 [] 2 @ TimeoutCertificate_EncodeRLP [] t)"
      by (simp add: RoundCertificate_EncodeRLP_def rlp_append)
    show ?thesis unfolding e using wf RC_TC rlp_List_fields[OF len[unfolded e]]
      by (simp add: RoundCertificate_DecodeRLP_def rlp_read)
  qed
qed (simp add: RoundCertificate_EncodeRLP_def AppendList_nonempty)

lemmas [rlp_read] = rc_rlp.reads

definition Timeout_DecodeRLP :: "crypto \<Rightarrow> exec_protocol \<Rightarrow> bytes \<Rightarrow> (rlp_error, Timeout \<times> bytes) go" where
  "Timeout_DecodeRLP cr ep s =
     go_bind (rlp_List s) (\<lambda>(l, rest).
     go_bind (TimeoutInfo_DecodeRLP l) (\<lambda>(ti, l).
     go_bind (bls_sig_Decode cr l) (\<lambda>(sig, l).
     go_bind (HighExtendVote_DecodeRLP cr ep l) (\<lambda>(h, l).
     go_bind (if l \<noteq> [] then go_bind (RoundCertificate_DecodeRLP cr ep l) (\<lambda>(rc, l). Ok (Some rc, l))
              else Ok (None, l)) (\<lambda>(rc, l).
     go_bind (rlp_Done l) (\<lambda>_.
       Ok (\<lparr>tm_TmInfo = ti, tm_TimeoutSignature = sig, tm_HighExtend = h, tm_LastRoundCertificate = rc\<rparr>, rest)))))))"

definition wf_Timeout :: "crypto \<Rightarrow> exec_protocol \<Rightarrow> Timeout \<Rightarrow> bool" where
  "wf_Timeout cr ep t \<longleftrightarrow> wf_bls cr (tm_TimeoutSignature t) \<and> wf_HighExtendVote cr ep (tm_HighExtend t)
     \<and> (\<forall>rc. tm_LastRoundCertificate t = Some rc \<longrightarrow> wf_RC cr ep rc)"

interpretation timeout_rlp: rlp_codec "Timeout_EncodeRLP []" "Timeout_DecodeRLP cr ep" "wf_Timeout cr ep" for cr ep
proof
  fix x and rest :: bytes
  assume wf: "wf_Timeout cr ep x" and len: "length (Timeout_EncodeRLP [] x) + length rest < 2 ^ 62"
  show "Timeout_DecodeRLP cr ep (Timeout_EncodeRLP [] x @ rest) = Ok (x, rest)"
  proof (cases "tm_LastRoundCertificate x")
    case None
    then have e: "Timeout_EncodeRLP [] x = AppendList [] (\<lambda>p. p @ TimeoutInfo_EncodeRLP [] (tm_TmInfo x)
        @ AppendString [] (tm_TimeoutSignature x) @ HighExtendVote_EncodeRLP [] (tm_HighExtend x))"
      by (simp add: Timeout_EncodeRLP_def rlp_append)
    show ?thesis unfolding e using wf None rlp_List_fields[OF len[unfolded e]]
      by (simp add: Timeout_DecodeRLP_def wf_Timeout_def rlp_read)
  next
    case (Some rc)
    then have e: "Timeout_EncodeRLP [] x = AppendList [] (\<lambda>p. p @ TimeoutInfo_EncodeRLP [] (tm_TmInfo x)
        @ AppendString [] (tm_TimeoutSignature x) @ HighExtendVote_EncodeRLP [] (tm_HighExtend x)
        @ RoundCertificate_EncodeRLP [] rc)"
      by (simp add: Timeout_EncodeRLP_def rlp_append)
    have "RoundCertificate_EncodeRLP [] rc \<noteq> []"
      by (simp add: RoundCertificate_EncodeRLP_def AppendList_nonempty)
    then show ?thesis unfolding e using wf Some rlp_List_fields[OF len[unfolded e]]
      by (simp add: Timeout_DecodeRLP_def wf_Timeout_def rlp_read)
  qed
qed (simp add: Timeout_EncodeRLP_def AppendList_nonempty)

section \<open>Checkpoints\<close>

definition LockedEpoch_DecodeRLP :: "bytes \<Rightarrow> (rlp_error, LockedEpoch \<times> bytes) go" where
  "LockedEpoch_DecodeRLP s =
     go_bind (rlp_List s) (\<lambda>(l, rest).
     go_bind (Epoch_DecodeRLP l) (\<lambda>(e, l).
     go_bind (Round_DecodeRLP l) (\<lambda>(r, l).
     go_bind (rlp_Done l) (\<lambda>_. Ok (\<lparr>le_Epoch = e, le_Round = r\<rparr>, rest)))))"

interpretation le_rlp: rlp_codec "LockedEpoch_EncodeRLP []" LockedEpoch_DecodeRLP "\<lambda>_. True"
proof
  fix x and rest :: bytes
  assume len: "length (LockedEpoch_EncodeRLP [] x) + length rest < 2 ^ 62"
  have e: "LockedEpoch_EncodeRLP [] x = AppendList [] (\<lambda>p. p @ Epoch_EncodeRLP [] (le_Epoch x)
      @ Round_EncodeRLP [] (le_Round x))"
    by (simp add: LockedEpoch_EncodeRLP_def rlp_append)
  show "LockedEpoch_DecodeRLP (LockedEpoch_EncodeRLP [] x @ rest) = Ok (x, rest)"
    unfolding e using rlp_List_fields[OF len[unfolded e]] by (simp add: LockedEpoch_DecodeRLP_def rlp_read)
qed (simp add: LockedEpoch_EncodeRLP_def AppendList_nonempty)

lemmas [rlp_read] = timeout_rlp.reads le_rlp.reads

definition Checkpoint_DecodeRLP :: "crypto \<Rightarrow> exec_protocol \<Rightarrow> bytes \<Rightarrow> (rlp_error, Checkpoint \<times> bytes) go" where
  "Checkpoint_DecodeRLP cr ep s =
     go_bind (rlp_List s) (\<lambda>(l, rest).
     go_bind (BlockId_DecodeRLP l) (\<lambda>(root, l).
     go_bind (RoundCertificate_DecodeRLP cr ep l) (\<lambda>(rc, l).
     go_bind (rlp_List l) (\<lambda>(les, l).
     go_bind (rlp_each LockedEpoch_DecodeRLP les) (\<lambda>sets.
     if MaxValidatorSets < length sets then Err ErrUnexpectedLength else
     go_bind (rlp_Done l) (\<lambda>_.
       Ok (\<lparr>cp_Root = root, cp_HighCertificate = rc, cp_ValidatorSets = sets\<rparr>, rest)))))))"

definition wf_Checkpoint :: "crypto \<Rightarrow> exec_protocol \<Rightarrow> Checkpoint \<Rightarrow> bool" where
  "wf_Checkpoint cr ep c \<longleftrightarrow> length (cp_Root c) = 32 \<and> wf_RC cr ep (cp_HighCertificate c)
     \<and> length (cp_ValidatorSets c) \<le> MaxValidatorSets"

interpretation checkpoint_rlp: rlp_codec "Checkpoint_EncodeRLP []" "Checkpoint_DecodeRLP cr ep" "wf_Checkpoint cr ep" for cr ep
proof
  fix x and rest :: bytes
  assume wf: "wf_Checkpoint cr ep x" and len: "length (Checkpoint_EncodeRLP [] x) + length rest < 2 ^ 62"
  have e: "Checkpoint_EncodeRLP [] x = AppendList [] (\<lambda>p. p @ BlockId_EncodeRLP [] (cp_Root x)
      @ RoundCertificate_EncodeRLP [] (cp_HighCertificate x)
      @ AppendList [] (\<lambda>q. q @ concat (map (LockedEpoch_EncodeRLP []) (cp_ValidatorSets x))))"
    by (simp add: Checkpoint_EncodeRLP_def rlp_append)
  show "Checkpoint_DecodeRLP cr ep (Checkpoint_EncodeRLP [] x @ rest) = Ok (x, rest)"
    unfolding e using wf rlp_List_fields[OF len[unfolded e]] rlp_List_fields(1)[of _ "[]"]
    by (simp add: Checkpoint_DecodeRLP_def wf_Checkpoint_def rlp_read not_less)
qed (simp add: Checkpoint_EncodeRLP_def AppendList_nonempty)

lemmas [rlp_read] = checkpoint_rlp.reads

section \<open>Properties\<close>

definition example_header :: ConsensusBlockHeader where
  "example_header = \<lparr>bh_BlockRound = 6, bh_Epoch = 1, bh_QC = example_qc, bh_Author = replicate 33 2,
     bh_SeqNum = 4, bh_TimestampNs = U128FromUint64 1000, bh_RoundSignature = example_sig,
     bh_DelayedExecutionResults = [MockFinalizedHeader_obs 3], bh_ExecutionInputs = MockProposedHeader_EncodeRLP [],
     bh_BlockBodyId = replicate 32 9, bh_BaseFee = 0, bh_BaseFeeTrend = 0, bh_BaseFeeMoment = 0\<rparr>"

definition example_tip :: ConsensusTip where
  "example_tip = \<lparr>tip_BlockHeader = example_header, tip_Signature = replicate 65 0, tip_FreshCertificate = None\<rparr>"

definition example_block :: ConsensusFullBlock where
  "example_block = \<lparr>fb_Header = example_header, fb_Body = MockBody_EncodeRLP [] [1, 2, 3]\<rparr>"

lemma wf_example_qc: "wf_QC example_crypto example_qc"
  by (simp add: wf_QC_def wf_Vote_def wf_sigcol_def example_qc_def GenesisQC_def sigcol_Empty_def wf_signers_def
      NewSignerMap_def BlsSignatureInfinity_def BlsSignatureCompressdLen_def)

lemma wf_example_header: "wf_Header example_crypto Mock example_header"
  using wf_example_qc
  by (simp add: wf_Header_def example_header_def SecpPubkeySize_def wf_bls_def MaxDelayedResults_def Mock_exec_wf)

lemma wf_example_tip: "wf_Tip example_crypto Mock example_tip"
  using wf_example_header by (simp add: wf_Tip_def example_tip_def wf_secp_def SecpSignatureSize_def)

lemma wf_example_block: "wf_FullBlock example_crypto Mock example_block"
  using wf_example_header by (simp add: wf_FullBlock_def example_block_def Mock_exec_wf)

lemma SignerMap_buf_Nil: "SignerMap_buf [] = []"
  by (simp add: SignerMap_buf_def)

lemma size_example_qc [enc_size]:
  assumes "length dst \<le> d"
  shows "length (QuorumCertificate_EncodeRLP dst example_qc) \<le> d + 2000"
proof -
  have "length (replicate 32 (7 :: u8)) \<le> 32" "length BlsSignatureInfinity \<le> 96"
    by (simp_all add: BlsSignatureInfinity_def)
  note size = this assms enc_size
  show ?thesis
    unfolding QuorumCertificate_EncodeRLP_def Vote_EncodeRLP_def sigcol_EncodeRLP_def SignerMap_EncodeRLP_def
      example_qc_def GenesisQC_def sigcol_Empty_def NewSignerMap_def Let_def
    by (simp add: SignerMap_buf_Nil, rule le_trans, (rule size)+) simp
qed

lemma size_example_header [enc_size]:
  assumes "length dst \<le> d"
  shows "length (ConsensusBlockHeader_EncodeRLP dst example_header) \<le> d + 10000"
proof -
  have "length (replicate n x) \<le> n" "length example_sig \<le> 96" for n and x :: u8 by simp_all
  note size = this assms enc_size
  show ?thesis
    unfolding ConsensusBlockHeader_EncodeRLP_def MockFinalizedHeader_obs_def MockFinalizedHeader_EncodeRLP_def
      MockProposedHeader_EncodeRLP_def example_header_def Let_def
    by (simp, rule le_trans, (rule size wf_U128_simps[unfolded wf_u128_def])+) simp
qed

text \<open>C32. A block survives the wire: what a node decodes from the encoding of a well-formed block is that
  block, hence also its id; trailing bytes are left alone.\<close>

theorem ConsensusFullBlock_roundtrip:
  assumes "wf_FullBlock cr ep b" and "length (ConsensusFullBlock_EncodeRLP [] b) + length rest < 2 ^ 62"
  shows "ConsensusFullBlock_DecodeRLP cr ep (ConsensusFullBlock_EncodeRLP [] b @ rest) = Ok (b, rest)"
  using assms by (rule full_block_rlp.dec_enc)

lemma ConsensusFullBlock_roundtrip_witness:
  "ConsensusFullBlock_DecodeRLP example_crypto Mock (ConsensusFullBlock_EncodeRLP [] example_block) = Ok (example_block, [])"
proof -
  have "length ([1, 2, 3] :: bytes) \<le> 3" by simp
  note size = this enc_size
  have "length (ConsensusFullBlock_EncodeRLP [] example_block) < 2 ^ 62"
    unfolding ConsensusFullBlock_EncodeRLP_def ConsensusBlockBody_EncodeRLP_def MockBody_EncodeRLP_def example_block_def
    by (simp, rule le_less_trans, (rule size)+) simp
  then show ?thesis using ConsensusFullBlock_roundtrip[OF wf_example_block, of "[]"] by simp
qed

text \<open>A timeout message survives the wire, whatever it carries: a tip with or without an embedded vote
  or a quorum certificate, with or without the certificate of the last round.\<close>

theorem Timeout_roundtrip:
  assumes "wf_Timeout cr ep t" and "length (Timeout_EncodeRLP [] t) + length rest < 2 ^ 62"
  shows "Timeout_DecodeRLP cr ep (Timeout_EncodeRLP [] t @ rest) = Ok (t, rest)"
  using assms by (rule timeout_rlp.dec_enc)

definition example_tip_timeout :: Timeout where
  "example_tip_timeout = NewTimeout example_crypto []
     \<lparr>ti_Epoch = 1, ti_Round = 6, ti_HighQcRound = 5, ti_HighTipRound = 6\<rparr> (HE_Tip example_tip) True
     (Some (RC_QC example_qc))"

lemma Timeout_roundtrip_witness:
  "Timeout_DecodeRLP example_crypto Mock (Timeout_EncodeRLP [] example_tip_timeout) = Ok (example_tip_timeout, [])"
proof -
  have wf: "wf_Timeout example_crypto Mock example_tip_timeout"
    using wf_example_tip wf_example_qc
    by (simp add: wf_Timeout_def example_tip_timeout_def NewTimeout_def BlsKeyPair_Sign_def wf_bls_def Let_def)
  have "length (replicate n x) \<le> n" "length example_sig \<le> 96" for n and x :: u8 by simp_all
  note size = this enc_size
  have "length (Timeout_EncodeRLP [] example_tip_timeout) < 2 ^ 62"
    unfolding Timeout_EncodeRLP_def example_tip_timeout_def NewTimeout_def BlsKeyPair_Sign_def Let_def
      HighExtendVote_EncodeRLP_def RoundCertificate_EncodeRLP_def ConsensusTip_EncodeRLP_def TimeoutInfo_EncodeRLP_def
      example_tip_def
    by (simp, rule le_less_trans, (rule size)+) simp
  then show ?thesis using Timeout_roundtrip[OF wf, of "[]"] by simp
qed

end
