(* ===== verification/Safety.thy ===== *)
theory Safety
  imports CstypesCodec
begin

text \<open>
  \<open>consensus/safety.go\<close>: the watermarks that keep a node from signing twice, their durable snapshot
  and the merge on restart. The lemmas give the behaviour of every operation, the invariant of the
  handled-proposal cache and the round trip of the snapshot. The step relation at the end lists the
  operations with a ghost log of what they sign; its invariants are the double-signing theorems.
\<close>

definition handledProposalCacheSize :: nat where "handledProposalCacheSize = 100"

record highNoEndorse =
  hne_round :: round
  hne_tip :: block_id

text \<open>The keys of the map \<open>handledProposals\<close> are kept as a list.\<close>

record Safety =
  sf_maybeHighTip :: "ConsensusTip option"
  sf_highCertificateQcRound :: round
  sf_highestVote :: round
  sf_highestNoEndorse :: highNoEndorse
  sf_highestPropose :: round
  sf_highestRecoveryRequest :: round
  sf_handledProposals :: "round list"
  sf_handledProposalsOrder :: "round list"

section \<open>Operations\<close>

definition NewSafety :: "RoundCertificate \<Rightarrow> ConsensusTip option \<Rightarrow> Safety" where
  "NewSafety highCertificate maybeHighTip =
     (let currentRound = rc_Round highCertificate + 1 in
      \<lparr>sf_maybeHighTip = maybeHighTip,
       sf_highCertificateQcRound = qc_GetRound (rc_GetQC highCertificate),
       sf_highestVote = currentRound,
       sf_highestNoEndorse = \<lparr>hne_round = currentRound, hne_tip = GENESIS_BLOCK_ID\<rparr>,
       sf_highestPropose = currentRound,
       sf_highestRecoveryRequest = currentRound,
       sf_handledProposals = [], sf_handledProposalsOrder = []\<rparr>)"

definition DefaultSafety :: Safety where
  "DefaultSafety =
     \<lparr>sf_maybeHighTip = None, sf_highCertificateQcRound = GENESIS_ROUND, sf_highestVote = GENESIS_ROUND,
      sf_highestNoEndorse = \<lparr>hne_round = GENESIS_ROUND, hne_tip = GENESIS_BLOCK_ID\<rparr>,
      sf_highestPropose = GENESIS_ROUND, sf_highestRecoveryRequest = GENESIS_ROUND,
      sf_handledProposals = [], sf_handledProposalsOrder = []\<rparr>"

definition Safety_ProcessCertificate :: "RoundCertificate \<Rightarrow> Safety \<Rightarrow> Safety" where
  "Safety_ProcessCertificate cert s =
     (let r = qc_GetRound (rc_GetQC cert);
          s = (if r > sf_highCertificateQcRound s then s\<lparr>sf_highCertificateQcRound := r\<rparr> else s) in
      case sf_maybeHighTip s of
        Some t \<Rightarrow> if bh_BlockRound (tip_BlockHeader t) \<le> sf_highCertificateQcRound s
                  then s\<lparr>sf_maybeHighTip := None\<rparr> else s
      | None \<Rightarrow> s)"

definition IsSafeToVote :: "round \<Rightarrow> block_id option \<Rightarrow> Safety \<Rightarrow> bool" where
  "IsSafeToVote round lastRoundTcTip s =
     (if round = hne_round (sf_highestNoEndorse s)
         \<and> (case lastRoundTcTip of None \<Rightarrow> True | Some t \<Rightarrow> t \<noteq> hne_tip (sf_highestNoEndorse s))
      then False
      else round > sf_highestVote s)"

definition Safety_Vote :: "round \<Rightarrow> block_id option \<Rightarrow> ConsensusTip \<Rightarrow> Safety \<Rightarrow> ('e, Safety) go" where
  "Safety_Vote round lastRoundTcTip tip s =
     (if \<not> IsSafeToVote round lastRoundTcTip s then Panic ''safety: unsafe vote''
      else Ok (s\<lparr>sf_highestVote := round,
                 sf_maybeHighTip := (if bh_BlockRound (tip_BlockHeader tip) > sf_highCertificateQcRound s
                                     then Some tip else None)\<rparr>))"

definition IsSafeToNoEndorse :: "round \<Rightarrow> Safety \<Rightarrow> bool" where
  "IsSafeToNoEndorse round s =
     (let m = hne_round (sf_highestNoEndorse s);
          m = (if sf_highestVote s > m then sf_highestVote s else m) in
      round > m)"

definition Safety_NoEndorse :: "round \<Rightarrow> block_id \<Rightarrow> Safety \<Rightarrow> ('e, Safety) go" where
  "Safety_NoEndorse round tip s =
     (if \<not> IsSafeToNoEndorse round s then Panic ''safety: unsafe no-endorse''
      else Ok (s\<lparr>sf_highestNoEndorse := \<lparr>hne_round = round, hne_tip = tip\<rparr>\<rparr>))"

definition Safety_Timeout :: "round \<Rightarrow> Safety \<Rightarrow> ('e, Safety \<times> bool) go" where
  "Safety_Timeout round s =
     (if round < sf_highestVote s then Panic ''safety: timeout round < highest_vote''
      else let s = s\<lparr>sf_highestVote := round\<rparr> in
        Ok (s, hne_round (sf_highestNoEndorse s) < round
               \<or> (case sf_maybeHighTip s of Some t \<Rightarrow> bh_BlockRound (tip_BlockHeader t) = round | None \<Rightarrow> False)))"

definition IsSafeToPropose :: "round \<Rightarrow> Safety \<Rightarrow> bool" where
  "IsSafeToPropose round s =
     (let m = sf_highestPropose s;
          m = (if sf_highestVote s > m then sf_highestVote s else m) in
      round > m)"

definition Safety_Propose :: "round \<Rightarrow> Safety \<Rightarrow> ('e, Safety) go" where
  "Safety_Propose round s =
     (if \<not> IsSafeToPropose round s then Panic ''safety: unsafe propose''
      else Ok (s\<lparr>sf_highestPropose := round\<rparr>))"

definition IsSafeToRecoveryRequest :: "round \<Rightarrow> Safety \<Rightarrow> bool" where
  "IsSafeToRecoveryRequest round s = (round > sf_highestRecoveryRequest s)"

definition Safety_RecoveryRequest :: "round \<Rightarrow> Safety \<Rightarrow> ('e, Safety) go" where
  "Safety_RecoveryRequest round s =
     (if \<not> IsSafeToRecoveryRequest round s then Panic ''safety: unsafe recovery request''
      else Ok (s\<lparr>sf_highestRecoveryRequest := round\<rparr>))"

definition IsSafeToHandleProposal :: "round \<Rightarrow> Safety \<Rightarrow> bool" where
  "IsSafeToHandleProposal round s = (round \<notin> set (sf_handledProposals s))"

fun evictHandled :: "round list \<Rightarrow> round list \<Rightarrow> ('e, round list \<times> round list) go" where
  "evictHandled handled [] =
     (if length handled > handledProposalCacheSize then Panic ''index out of range'' else Ok (handled, []))"
| "evictHandled handled (r # order) =
     (if length handled > handledProposalCacheSize then evictHandled (removeAll r handled) order
      else Ok (handled, r # order))"

definition HandleProposal :: "round \<Rightarrow> Safety \<Rightarrow> ('e, Safety) go" where
  "HandleProposal round s =
     (if \<not> IsSafeToHandleProposal round s then Panic ''safety: proposal already handled''
      else go_bind (evictHandled (round # sf_handledProposals s) (sf_handledProposalsOrder s @ [round]))
        (\<lambda>(handled, order). Ok (s\<lparr>sf_handledProposals := handled, sf_handledProposalsOrder := order\<rparr>)))"

section \<open>Snapshots\<close>

record SafetySnapshot =
  ss_MaybeHighTip :: "ConsensusTip option"
  ss_HighCertificateQcRound :: round
  ss_HighestVote :: round
  ss_HighestNoEndorseRound :: round
  ss_HighestNoEndorseTip :: block_id
  ss_HighestPropose :: round
  ss_HighestRecoveryRequest :: round

definition Safety_Snapshot :: "Safety \<Rightarrow> SafetySnapshot" where
  "Safety_Snapshot s =
     \<lparr>ss_MaybeHighTip = sf_maybeHighTip s,
      ss_HighCertificateQcRound = sf_highCertificateQcRound s,
      ss_HighestVote = sf_highestVote s,
      ss_HighestNoEndorseRound = hne_round (sf_highestNoEndorse s),
      ss_HighestNoEndorseTip = hne_tip (sf_highestNoEndorse s),
      ss_HighestPropose = sf_highestPropose s,
      ss_HighestRecoveryRequest = sf_highestRecoveryRequest s\<rparr>"

definition SafetyFromSnapshot :: "SafetySnapshot \<Rightarrow> Safety" where
  "SafetyFromSnapshot snap =
     \<lparr>sf_maybeHighTip = ss_MaybeHighTip snap,
      sf_highCertificateQcRound = ss_HighCertificateQcRound snap,
      sf_highestVote = ss_HighestVote snap,
      sf_highestNoEndorse = \<lparr>hne_round = ss_HighestNoEndorseRound snap, hne_tip = ss_HighestNoEndorseTip snap\<rparr>,
      sf_highestPropose = ss_HighestPropose snap,
      sf_highestRecoveryRequest = ss_HighestRecoveryRequest snap,
      sf_handledProposals = [], sf_handledProposalsOrder = []\<rparr>"

definition Safety_Merge :: "Safety \<Rightarrow> Safety \<Rightarrow> Safety" where
  "Safety_Merge s other =
     (let s = (if sf_highCertificateQcRound other > sf_highCertificateQcRound s
               then s\<lparr>sf_highCertificateQcRound := sf_highCertificateQcRound other\<rparr> else s);
          s = (if sf_highestVote other > sf_highestVote s
               then s\<lparr>sf_highestVote := sf_highestVote other\<rparr> else s);
          s = (if hne_round (sf_highestNoEndorse other) > hne_round (sf_highestNoEndorse s)
               then s\<lparr>sf_highestNoEndorse := sf_highestNoEndorse other\<rparr> else s);
          s = (if sf_highestPropose other > sf_highestPropose s
               then s\<lparr>sf_highestPropose := sf_highestPropose other\<rparr> else s);
          s = (if sf_highestRecoveryRequest other > sf_highestRecoveryRequest s
               then s\<lparr>sf_highestRecoveryRequest := sf_highestRecoveryRequest other\<rparr> else s) in
      case sf_maybeHighTip other of
        None \<Rightarrow> s
      | Some t \<Rightarrow>
          if bh_BlockRound (tip_BlockHeader t) > sf_highCertificateQcRound s
             \<and> (case sf_maybeHighTip s of None \<Rightarrow> True
                | Some u \<Rightarrow> bh_BlockRound (tip_BlockHeader t) > bh_BlockRound (tip_BlockHeader u))
          then s\<lparr>sf_maybeHighTip := Some t\<rparr> else s)"

definition SafetySnapshot_EncodeRLP :: "bytes \<Rightarrow> SafetySnapshot \<Rightarrow> bytes" where
  "SafetySnapshot_EncodeRLP dst s = AppendList dst (\<lambda>p.
     let p = AppendList p (\<lambda>q. case ss_MaybeHighTip s of None \<Rightarrow> q | Some t \<Rightarrow> ConsensusTip_EncodeRLP q t);
         p = Round_EncodeRLP p (ss_HighCertificateQcRound s);
         p = Round_EncodeRLP p (ss_HighestVote s);
         p = Round_EncodeRLP p (ss_HighestNoEndorseRound s);
         p = BlockId_EncodeRLP p (ss_HighestNoEndorseTip s);
         p = Round_EncodeRLP p (ss_HighestPropose s) in
     Round_EncodeRLP p (ss_HighestRecoveryRequest s))"

definition SafetySnapshot_DecodeRLP :: "crypto \<Rightarrow> exec_protocol \<Rightarrow> bytes \<Rightarrow> (rlp_error, SafetySnapshot \<times> bytes) go" where
  "SafetySnapshot_DecodeRLP cr ep st =
     go_bind (rlp_List st) (\<lambda>(l, rest).
     go_bind (rlp_List l) (\<lambda>(ol, l).
     go_bind (if ol \<noteq> [] then go_bind (ConsensusTip_DecodeRLP cr ep ol) (\<lambda>(t, ol). Ok (Some t, ol))
              else Ok (None, ol)) (\<lambda>(tip, ol).
     go_bind (rlp_Done ol) (\<lambda>_.
     go_bind (rlp_Uint64 l) (\<lambda>(qcRound, l).
     go_bind (rlp_Uint64 l) (\<lambda>(vote, l).
     go_bind (rlp_Uint64 l) (\<lambda>(neRound, l).
     go_bind (BlockId_DecodeRLP l) (\<lambda>(neTip, l).
     go_bind (rlp_Uint64 l) (\<lambda>(propose, l).
     go_bind (rlp_Uint64 l) (\<lambda>(recovery, l).
     go_bind (rlp_Done l) (\<lambda>_.
       Ok (\<lparr>ss_MaybeHighTip = tip, ss_HighCertificateQcRound = qcRound, ss_HighestVote = vote,
            ss_HighestNoEndorseRound = neRound, ss_HighestNoEndorseTip = neTip,
            ss_HighestPropose = propose, ss_HighestRecoveryRequest = recovery\<rparr>, rest))))))))))))"

section \<open>Behaviour of the operations\<close>

lemma Safety_Vote_Ok:
  assumes "Safety_Vote r tc t s = Ok s'"
  shows "sf_highestVote s < r" and "sf_highestVote s' = r"
    and "sf_maybeHighTip s' = None \<or> sf_maybeHighTip s' = Some t"
    and "sf_highestNoEndorse s' = sf_highestNoEndorse s" and "sf_highestPropose s' = sf_highestPropose s"
    and "sf_highCertificateQcRound s' = sf_highCertificateQcRound s"
    and "hne_round (sf_highestNoEndorse s) = r \<Longrightarrow> tc = Some (hne_tip (sf_highestNoEndorse s))"
  using assms by (auto simp: Safety_Vote_def IsSafeToVote_def split: if_splits option.splits)

lemma Safety_NoEndorse_Ok:
  assumes "Safety_NoEndorse r t s = Ok s'"
  shows "sf_highestVote s < r" and "hne_round (sf_highestNoEndorse s) < r"
    and "s' = s\<lparr>sf_highestNoEndorse := \<lparr>hne_round = r, hne_tip = t\<rparr>\<rparr>"
  using assms by (auto simp: Safety_NoEndorse_def IsSafeToNoEndorse_def Let_def split: if_splits)

lemma Safety_Timeout_Ok:
  assumes "Safety_Timeout r s = Ok (s', safe)"
  shows "sf_highestVote s \<le> r" and "s' = s\<lparr>sf_highestVote := r\<rparr>"
    and "safe \<longleftrightarrow> hne_round (sf_highestNoEndorse s) < r
      \<or> (\<exists>t. sf_maybeHighTip s = Some t \<and> bh_BlockRound (tip_BlockHeader t) = r)"
  using assms by (auto simp: Safety_Timeout_def Let_def split: if_splits option.splits)

lemma Safety_Propose_Ok:
  assumes "Safety_Propose r s = Ok s'"
  shows "sf_highestPropose s < r" and "sf_highestVote s < r" and "s' = s\<lparr>sf_highestPropose := r\<rparr>"
  using assms by (auto simp: Safety_Propose_def IsSafeToPropose_def Let_def split: if_splits)

lemma Safety_RecoveryRequest_Ok:
  assumes "Safety_RecoveryRequest r s = Ok s'"
  shows "sf_highestRecoveryRequest s < r" and "s' = s\<lparr>sf_highestRecoveryRequest := r\<rparr>"
  using assms by (auto simp: Safety_RecoveryRequest_def IsSafeToRecoveryRequest_def split: if_splits)

lemma Safety_ProcessCertificate_fields:
  "sf_highestVote (Safety_ProcessCertificate c s) = sf_highestVote s"
  "sf_highestNoEndorse (Safety_ProcessCertificate c s) = sf_highestNoEndorse s"
  "sf_highestPropose (Safety_ProcessCertificate c s) = sf_highestPropose s"
  "sf_highestRecoveryRequest (Safety_ProcessCertificate c s) = sf_highestRecoveryRequest s"
  "sf_highCertificateQcRound (Safety_ProcessCertificate c s)
     = max (qc_GetRound (rc_GetQC c)) (sf_highCertificateQcRound s)"
  "sf_maybeHighTip (Safety_ProcessCertificate c s) = (case sf_maybeHighTip s of None \<Rightarrow> None
     | Some t \<Rightarrow> if bh_BlockRound (tip_BlockHeader t) \<le> max (qc_GetRound (rc_GetQC c)) (sf_highCertificateQcRound s)
                 then None else Some t)"
  by (auto simp: Safety_ProcessCertificate_def Let_def max_def split: option.splits)

text \<open>The high tip always outranks the certified round.\<close>

definition high_tip_fresh :: "Safety \<Rightarrow> bool" where
  "high_tip_fresh s \<longleftrightarrow> (\<forall>t. sf_maybeHighTip s = Some t \<longrightarrow>
     bh_BlockRound (tip_BlockHeader t) > sf_highCertificateQcRound s)"

subsection \<open>The handled-proposal cache\<close>

definition handled_inv :: "Safety \<Rightarrow> bool" where
  "handled_inv s \<longleftrightarrow> distinct (sf_handledProposalsOrder s)
     \<and> distinct (sf_handledProposals s) \<and> set (sf_handledProposals s) = set (sf_handledProposalsOrder s)
     \<and> length (sf_handledProposals s) \<le> handledProposalCacheSize"

lemma evictHandled_spec:
  assumes "distinct order" "distinct handled" "set handled = set order"
  shows "\<exists>h'. (evictHandled handled order :: ('e, _) go)
      = Ok (h', drop (length order - handledProposalCacheSize) order)
    \<and> distinct h' \<and> set h' = set (drop (length order - handledProposalCacheSize) order)"
  using assms
proof (induction handled order rule: evictHandled.induct)
  case (2 handled r order)
  have len: "length handled = length (r # order)" using "2.prems" by (metis distinct_card)
  show ?case
  proof (cases "length handled > handledProposalCacheSize")
    case True
    have "set (removeAll r handled) = set order" "distinct (removeAll r handled)"
      using "2.prems" by (auto simp: distinct_removeAll)
    with "2.IH"[OF True] "2.prems"(1) True len show ?thesis
      by (auto simp: Suc_diff_le)
  next
    case False
    with len "2.prems" show ?thesis by auto
  qed
qed (simp add: handledProposalCacheSize_def)

lemma HandleProposal_Ok:
  assumes "handled_inv s" and "r \<notin> set (sf_handledProposals s)"
  shows "\<exists>s'. (HandleProposal r s :: ('e, Safety) go) = Ok s' \<and> handled_inv s' \<and> r \<in> set (sf_handledProposals s')
    \<and> sf_handledProposalsOrder s'
        = (let o' = sf_handledProposalsOrder s @ [r] in drop (length o' - handledProposalCacheSize) o')
    \<and> s'\<lparr>sf_handledProposals := sf_handledProposals s, sf_handledProposalsOrder := sf_handledProposalsOrder s\<rparr> = s"
proof -
  let ?o = "sf_handledProposalsOrder s @ [r]"
  let ?d = "drop (length ?o - handledProposalCacheSize) ?o"
  have pre: "distinct ?o" "distinct (r # sf_handledProposals s)" "set (r # sf_handledProposals s) = set ?o"
    using assms by (auto simp: handled_inv_def)
  obtain h' where h: "(evictHandled (r # sf_handledProposals s) ?o :: ('e, _) go) = Ok (h', ?d)"
    "distinct h'" "set h' = set ?d"
    using evictHandled_spec[OF pre] by blast
  have "?o ! (length ?o - 1) = r" by simp
  have "length ?o - handledProposalCacheSize < length ?o" by (simp add: handledProposalCacheSize_def)
  then have "last ?d = r" "?d \<noteq> []" by (simp_all add: last_drop)
  then have rin: "r \<in> set ?d" by (metis last_in_set)
  have "length h' = length ?d" using h pre(1) by (metis distinct_card distinct_drop)
  then have "length h' \<le> handledProposalCacheSize" by simp
  with h pre(1) rin assms show ?thesis
    by (simp add: HandleProposal_def IsSafeToHandleProposal_def handled_inv_def distinct_drop Let_def del: drop_append)
qed

subsection \<open>Snapshots\<close>

definition watermarks_le :: "Safety \<Rightarrow> Safety \<Rightarrow> bool" where
  "watermarks_le s s' \<longleftrightarrow> sf_highCertificateQcRound s \<le> sf_highCertificateQcRound s'
     \<and> sf_highestVote s \<le> sf_highestVote s' \<and> hne_round (sf_highestNoEndorse s) \<le> hne_round (sf_highestNoEndorse s')
     \<and> sf_highestPropose s \<le> sf_highestPropose s' \<and> sf_highestRecoveryRequest s \<le> sf_highestRecoveryRequest s'"

lemma merge_max:
  "(if sf_highCertificateQcRound x > sf_highCertificateQcRound s
    then s\<lparr>sf_highCertificateQcRound := sf_highCertificateQcRound x\<rparr> else s)
   = s\<lparr>sf_highCertificateQcRound := max (sf_highCertificateQcRound s) (sf_highCertificateQcRound x)\<rparr>"
  "(if sf_highestVote x > sf_highestVote s then s\<lparr>sf_highestVote := sf_highestVote x\<rparr> else s)
   = s\<lparr>sf_highestVote := max (sf_highestVote s) (sf_highestVote x)\<rparr>"
  "(if hne_round (sf_highestNoEndorse x) > hne_round (sf_highestNoEndorse s)
    then s\<lparr>sf_highestNoEndorse := sf_highestNoEndorse x\<rparr> else s)
   = s\<lparr>sf_highestNoEndorse := (if hne_round (sf_highestNoEndorse s) < hne_round (sf_highestNoEndorse x)
        then sf_highestNoEndorse x else sf_highestNoEndorse s)\<rparr>"
  "(if sf_highestPropose x > sf_highestPropose s then s\<lparr>sf_highestPropose := sf_highestPropose x\<rparr> else s)
   = s\<lparr>sf_highestPropose := max (sf_highestPropose s) (sf_highestPropose x)\<rparr>"
  "(if sf_highestRecoveryRequest x > sf_highestRecoveryRequest s
    then s\<lparr>sf_highestRecoveryRequest := sf_highestRecoveryRequest x\<rparr> else s)
   = s\<lparr>sf_highestRecoveryRequest := max (sf_highestRecoveryRequest s) (sf_highestRecoveryRequest x)\<rparr>"
  by (simp_all add: max_def)

lemma Safety_Merge_cases:
  obtains tip where "Safety_Merge s x = s\<lparr>
      sf_maybeHighTip := tip,
      sf_highCertificateQcRound := max (sf_highCertificateQcRound s) (sf_highCertificateQcRound x),
      sf_highestVote := max (sf_highestVote s) (sf_highestVote x),
      sf_highestNoEndorse := (if hne_round (sf_highestNoEndorse s) < hne_round (sf_highestNoEndorse x)
        then sf_highestNoEndorse x else sf_highestNoEndorse s),
      sf_highestPropose := max (sf_highestPropose s) (sf_highestPropose x),
      sf_highestRecoveryRequest := max (sf_highestRecoveryRequest s) (sf_highestRecoveryRequest x)\<rparr>"
    and "tip = sf_maybeHighTip s \<or> tip = sf_maybeHighTip x"
proof -
  show ?thesis
    by (rule that[of "sf_maybeHighTip (Safety_Merge s x)"]; simp only: Safety_Merge_def Let_def merge_max)
      (cases s; cases "sf_maybeHighTip x"; simp)+
qed

lemma Safety_Merge_fields:
  "sf_highCertificateQcRound (Safety_Merge s x) = max (sf_highCertificateQcRound s) (sf_highCertificateQcRound x)"
  "sf_highestVote (Safety_Merge s x) = max (sf_highestVote s) (sf_highestVote x)"
  "hne_round (sf_highestNoEndorse (Safety_Merge s x))
     = max (hne_round (sf_highestNoEndorse s)) (hne_round (sf_highestNoEndorse x))"
  "sf_highestNoEndorse (Safety_Merge s x)
     = (if hne_round (sf_highestNoEndorse s) < hne_round (sf_highestNoEndorse x) then sf_highestNoEndorse x
        else sf_highestNoEndorse s)"
  "sf_highestPropose (Safety_Merge s x) = max (sf_highestPropose s) (sf_highestPropose x)"
  "sf_highestRecoveryRequest (Safety_Merge s x) = max (sf_highestRecoveryRequest s) (sf_highestRecoveryRequest x)"
proof -
  obtain tip where m: "Safety_Merge s x = s\<lparr>
      sf_maybeHighTip := tip,
      sf_highCertificateQcRound := max (sf_highCertificateQcRound s) (sf_highCertificateQcRound x),
      sf_highestVote := max (sf_highestVote s) (sf_highestVote x),
      sf_highestNoEndorse := (if hne_round (sf_highestNoEndorse s) < hne_round (sf_highestNoEndorse x)
        then sf_highestNoEndorse x else sf_highestNoEndorse s),
      sf_highestPropose := max (sf_highestPropose s) (sf_highestPropose x),
      sf_highestRecoveryRequest := max (sf_highestRecoveryRequest s) (sf_highestRecoveryRequest x)\<rparr>"
    by (rule Safety_Merge_cases)
  show "sf_highCertificateQcRound (Safety_Merge s x) = max (sf_highCertificateQcRound s) (sf_highCertificateQcRound x)"
    "sf_highestVote (Safety_Merge s x) = max (sf_highestVote s) (sf_highestVote x)"
    "sf_highestNoEndorse (Safety_Merge s x)
      = (if hne_round (sf_highestNoEndorse s) < hne_round (sf_highestNoEndorse x) then sf_highestNoEndorse x
         else sf_highestNoEndorse s)"
    "sf_highestPropose (Safety_Merge s x) = max (sf_highestPropose s) (sf_highestPropose x)"
    "sf_highestRecoveryRequest (Safety_Merge s x) = max (sf_highestRecoveryRequest s) (sf_highestRecoveryRequest x)"
    unfolding m by simp_all
  show "hne_round (sf_highestNoEndorse (Safety_Merge s x))
     = max (hne_round (sf_highestNoEndorse s)) (hne_round (sf_highestNoEndorse x))"
    unfolding m by (auto simp: max_def)
qed

lemma Safety_Merge_watermarks: "watermarks_le s (Safety_Merge s x)" "watermarks_le x (Safety_Merge s x)"
  by (simp_all add: watermarks_le_def Safety_Merge_fields(1-3,5,6))

lemma SafetyFromSnapshot_Snapshot:
  "SafetyFromSnapshot (Safety_Snapshot s) = s\<lparr>sf_handledProposals := [], sf_handledProposalsOrder := []\<rparr>"
  by (simp add: SafetyFromSnapshot_def Safety_Snapshot_def)

definition wf_SafetySnapshot :: "crypto \<Rightarrow> exec_protocol \<Rightarrow> SafetySnapshot \<Rightarrow> bool" where
  "wf_SafetySnapshot cr ep s \<longleftrightarrow> length (ss_HighestNoEndorseTip s) = 32
     \<and> (\<forall>t. ss_MaybeHighTip s = Some t \<longrightarrow> wf_Tip cr ep t)"

interpretation snapshot_rlp: rlp_codec "SafetySnapshot_EncodeRLP []" "SafetySnapshot_DecodeRLP cr ep"
    "wf_SafetySnapshot cr ep" for cr ep
proof
  fix x and rest :: bytes
  assume wf: "wf_SafetySnapshot cr ep x" and len: "length (SafetySnapshot_EncodeRLP [] x) + length rest < 2 ^ 62"
  let ?t = "case ss_MaybeHighTip x of None \<Rightarrow> [] | Some t \<Rightarrow> ConsensusTip_EncodeRLP [] t"
  have e: "SafetySnapshot_EncodeRLP [] x = AppendList [] (\<lambda>p. p @ AppendList [] (\<lambda>q. q @ ?t)
      @ AppendUint64 [] (ss_HighCertificateQcRound x) @ AppendUint64 [] (ss_HighestVote x)
      @ AppendUint64 [] (ss_HighestNoEndorseRound x) @ BlockId_EncodeRLP [] (ss_HighestNoEndorseTip x)
      @ AppendUint64 [] (ss_HighestPropose x) @ AppendUint64 [] (ss_HighestRecoveryRequest x))"
    by (cases "ss_MaybeHighTip x") (simp_all add: SafetySnapshot_EncodeRLP_def rlp_append Round_EncodeRLP_def)
  note f = rlp_List_fields[OF len[unfolded e]]
  show "SafetySnapshot_DecodeRLP cr ep (SafetySnapshot_EncodeRLP [] x @ rest) = Ok (x, rest)"
  proof (cases "ss_MaybeHighTip x")
    case None
    then show ?thesis unfolding e using f wf
      by (simp add: SafetySnapshot_DecodeRLP_def wf_SafetySnapshot_def rlp_read)
  next
    case (Some t)
    have ne: "ConsensusTip_EncodeRLP [] t \<noteq> []" by (simp add: ConsensusTip_EncodeRLP_def AppendList_nonempty)
    have "length (ConsensusTip_EncodeRLP [] t) < 2 ^ 62"
      using f(2) Some length_AppendList_ge[of "\<lambda>q. q @ ?t"] by simp
    then show ?thesis unfolding e using f wf Some ne
      by (simp add: SafetySnapshot_DecodeRLP_def wf_SafetySnapshot_def rlp_read)
  qed
qed (simp add: SafetySnapshot_EncodeRLP_def AppendList_nonempty)

section \<open>What a node signs\<close>

text \<open>
  A ghost log beside the state, newest entry first: the vote messages with the tip of the timeout
  certificate they were cast under, the votes embedded in timeout messages, the no-endorsements and
  the rounds proposed in.
\<close>

record signed =
  sg_votes :: "(round \<times> block_id option \<times> block_id) list"
  sg_timeoutVotes :: "(round \<times> block_id) list"
  sg_noEndorsements :: "(round \<times> block_id) list"
  sg_proposals :: "round list"

definition nothing_signed :: signed where
  "nothing_signed = \<lparr>sg_votes = [], sg_timeoutVotes = [], sg_noEndorsements = [], sg_proposals = []\<rparr>"

text \<open>The embedded vote of \<open>NewTimeout\<close>: for the high tip, if the operation reported it safe.\<close>

definition embedded_vote :: "crypto \<Rightarrow> round \<Rightarrow> bool \<Rightarrow> Safety \<Rightarrow> (round \<times> block_id) list" where
  "embedded_vote cr r safe s = (case sf_maybeHighTip s of
     Some t \<Rightarrow> if safe then [(r, header_GetId cr (tip_BlockHeader t))] else []
   | None \<Rightarrow> [])"

inductive safety_step :: "crypto \<Rightarrow> Safety \<times> signed \<Rightarrow> Safety \<times> signed \<Rightarrow> bool" for cr where
  certificate: "safety_step cr (s, g) (Safety_ProcessCertificate c s, g)"
| vote: "(Safety_Vote r tc t s :: (unit, Safety) go) = Ok s' \<Longrightarrow>
    safety_step cr (s, g) (s', g\<lparr>sg_votes := (r, tc, header_GetId cr (tip_BlockHeader t)) # sg_votes g\<rparr>)"
| no_endorse: "(Safety_NoEndorse r t s :: (unit, Safety) go) = Ok s' \<Longrightarrow>
    safety_step cr (s, g) (s', g\<lparr>sg_noEndorsements := (r, t) # sg_noEndorsements g\<rparr>)"
| local_timeout: "(Safety_Timeout r s :: (unit, Safety \<times> bool) go) = Ok (s', safe) \<Longrightarrow>
    safety_step cr (s, g) (s', g\<lparr>sg_timeoutVotes := embedded_vote cr r safe s' @ sg_timeoutVotes g\<rparr>)"
| propose: "(Safety_Propose r s :: (unit, Safety) go) = Ok s' \<Longrightarrow>
    safety_step cr (s, g) (s', g\<lparr>sg_proposals := r # sg_proposals g\<rparr>)"
| recovery: "(Safety_RecoveryRequest r s :: (unit, Safety) go) = Ok s' \<Longrightarrow> safety_step cr (s, g) (s', g)"
| handle_proposal: "(HandleProposal r s :: (unit, Safety) go) = Ok s' \<Longrightarrow> safety_step cr (s, g) (s', g)"

text \<open>A run of one process, from the genesis state or from a forkpoint.\<close>

inductive safety_run :: "crypto \<Rightarrow> Safety \<times> signed \<Rightarrow> bool" for cr where
  genesis: "safety_run cr (DefaultSafety, nothing_signed)"
| forkpoint: "safety_run cr (NewSafety c t, nothing_signed)"
| step: "safety_run cr x \<Longrightarrow> safety_step cr x y \<Longrightarrow> safety_run cr y"

text \<open>
  A run with crashes: a restart builds the state from a forkpoint and merges the snapshot of the
  state at the crash, which was written before anything signed left the node.
\<close>

inductive safety_life :: "crypto \<Rightarrow> Safety \<times> signed \<Rightarrow> bool" for cr where
  boot: "safety_life cr (NewSafety c t, nothing_signed)"
| live: "safety_life cr x \<Longrightarrow> safety_step cr x y \<Longrightarrow> safety_life cr y"
| restart: "safety_life cr (s, g) \<Longrightarrow>
    safety_life cr (Safety_Merge (NewSafety c t) (SafetyFromSnapshot (Safety_Snapshot s)), g)"

text \<open>All votes signed so far, as (round, block) pairs.\<close>

definition signed_votes :: "signed \<Rightarrow> (round \<times> block_id) set" where
  "signed_votes g = (\<lambda>(r, tc, i). (r, i)) ` set (sg_votes g) \<union> set (sg_timeoutVotes g)"

definition votes_inv :: "crypto \<Rightarrow> Safety \<times> signed \<Rightarrow> bool" where
  "votes_inv cr = (\<lambda>(s, g).
     (\<forall>(r, i)\<in>signed_votes g. r \<le> sf_highestVote s \<and>
        (r = sf_highestVote s \<longrightarrow> (\<forall>t. sf_maybeHighTip s = Some t \<longrightarrow> header_GetId cr (tip_BlockHeader t) = i)))
     \<and> (\<forall>r i j. (r, i) \<in> signed_votes g \<longrightarrow> (r, j) \<in> signed_votes g \<longrightarrow> i = j))"

lemma signed_votes_simps [simp]:
  "signed_votes (g\<lparr>sg_votes := (r, tc, i) # sg_votes g\<rparr>) = insert (r, i) (signed_votes g)"
  "signed_votes (g\<lparr>sg_noEndorsements := xs\<rparr>) = signed_votes g"
  "signed_votes (g\<lparr>sg_proposals := ps\<rparr>) = signed_votes g"
  "signed_votes (g\<lparr>sg_timeoutVotes := vs @ sg_timeoutVotes g\<rparr>) = set vs \<union> signed_votes g"
  "signed_votes nothing_signed = {}"
  by (auto simp: signed_votes_def nothing_signed_def)

text \<open>A state change that keeps the vote watermark and at most drops the high tip keeps the invariant.\<close>

lemma votes_inv_frame:
  assumes "votes_inv cr (s, g)" and "sf_highestVote s' = sf_highestVote s"
    and "sf_maybeHighTip s' = None \<or> sf_maybeHighTip s' = sf_maybeHighTip s" and "signed_votes g' = signed_votes g"
  shows "votes_inv cr (s', g')"
  using assms unfolding votes_inv_def by (simp split: prod.splits) (metis option.distinct(1))

lemma votes_inv_new:
  assumes "votes_inv cr (s, g)" and "sf_highestVote s < r" and "sf_highestVote s' = r"
    and "\<And>t. sf_maybeHighTip s' = Some t \<Longrightarrow> header_GetId cr (tip_BlockHeader t) = i"
    and "signed_votes g' \<subseteq> insert (r, i) (signed_votes g)"
  shows "votes_inv cr (s', g')"
proof -
  have old: "\<And>q j. (q, j) \<in> signed_votes g \<Longrightarrow> q < r" "\<And>q j k. (q, j) \<in> signed_votes g \<Longrightarrow> (q, k) \<in> signed_votes g \<Longrightarrow> j = k"
    using assms(1,2) unfolding votes_inv_def by (auto simp: le_less_trans)
  have mem: "(q = r \<and> j = i) \<or> (q, j) \<in> signed_votes g" if "(q, j) \<in> signed_votes g'" for q j
    using assms(5) that by auto
  have "j = k" if "(q, j) \<in> signed_votes g'" "(q, k) \<in> signed_votes g'" for q j k
    using mem[OF that(1)] mem[OF that(2)] old by blast
  moreover have "q \<le> r \<and> (q = r \<longrightarrow> (\<forall>t. sf_maybeHighTip s' = Some t \<longrightarrow> header_GetId cr (tip_BlockHeader t) = j))"
    if "(q, j) \<in> signed_votes g'" for q j
    using mem[OF that] old(1) assms(4) by force
  ultimately show ?thesis unfolding votes_inv_def using assms(3) by auto
qed

lemma votes_inv_again:
  assumes "votes_inv cr (s, g)" and "sf_maybeHighTip s = Some t" and "sf_maybeHighTip s' = Some t"
    and "sf_highestVote s' = sf_highestVote s"
    and "signed_votes g' \<subseteq> insert (sf_highestVote s, header_GetId cr (tip_BlockHeader t)) (signed_votes g)"
  shows "votes_inv cr (s', g')"
proof -
  let ?r = "sf_highestVote s" and ?i = "header_GetId cr (tip_BlockHeader t)"
  have old: "\<And>q j. (q, j) \<in> signed_votes g \<Longrightarrow> q \<le> ?r \<and> (q = ?r \<longrightarrow> ?i = j)"
    "\<And>q j k. (q, j) \<in> signed_votes g \<Longrightarrow> (q, k) \<in> signed_votes g \<Longrightarrow> j = k"
    using assms(1,2) unfolding votes_inv_def by auto
  have mem: "(q = ?r \<and> j = ?i) \<or> (q, j) \<in> signed_votes g" if "(q, j) \<in> signed_votes g'" for q j
    using assms(5) that by auto
  have "j = k" if "(q, j) \<in> signed_votes g'" "(q, k) \<in> signed_votes g'" for q j k
    using mem[OF that(1)] mem[OF that(2)] old by blast
  moreover have "q \<le> ?r \<and> (q = ?r \<longrightarrow> ?i = j)" if "(q, j) \<in> signed_votes g'" for q j
    using mem[OF that] old(1) by blast
  ultimately show ?thesis unfolding votes_inv_def using assms(3,4) by auto
qed

lemma votes_inv_timeout:
  assumes inv: "votes_inv cr (s, g)" and t: "(Safety_Timeout r s :: (unit, Safety \<times> bool) go) = Ok (s', safe)"
  shows "votes_inv cr (s', g\<lparr>sg_timeoutVotes := embedded_vote cr r safe s' @ sg_timeoutVotes g\<rparr>)"
proof -
  note ok = Safety_Timeout_Ok[OF t]
  let ?i = "case sf_maybeHighTip s of Some t \<Rightarrow> header_GetId cr (tip_BlockHeader t) | None \<Rightarrow> []"
  have tip: "sf_maybeHighTip s' = sf_maybeHighTip s" using ok(2) by simp
  have sub: "set (embedded_vote cr r safe s') \<subseteq> {(r, ?i)}"
    using tip by (auto simp: embedded_vote_def split: option.splits)
  have "sf_highestVote s < r \<or> sf_highestVote s = r" using ok(1) by (simp add: le_less)
  then show ?thesis
  proof
    assume "sf_highestVote s < r"
    then show ?thesis
      using sub tip ok(2) by (intro votes_inv_new[OF inv, of r s' ?i]) (auto split: option.splits)
  next
    assume r: "sf_highestVote s = r"
    have "set (embedded_vote cr r safe s') = {} \<or> (\<exists>t. sf_maybeHighTip s = Some t)"
      using tip by (auto simp: embedded_vote_def split: option.splits)
    then show ?thesis
    proof
      assume "set (embedded_vote cr r safe s') = {}"
      then show ?thesis using r ok(2) by (intro votes_inv_frame[OF inv]) simp_all
    next
      assume "\<exists>t. sf_maybeHighTip s = Some t"
      then obtain t where "sf_maybeHighTip s = Some t" ..
      with r sub tip ok(2) show ?thesis by (intro votes_inv_again[OF inv, of t]) auto
    qed
  qed
qed

lemma HandleProposal_frame:
  assumes "HandleProposal r s = Ok s'"
  shows "sf_highestVote s' = sf_highestVote s" "sf_maybeHighTip s' = sf_maybeHighTip s"
    "sf_highestNoEndorse s' = sf_highestNoEndorse s" "sf_highestPropose s' = sf_highestPropose s"
  using assms by (auto simp: HandleProposal_def go_simps split: if_splits)

lemma votes_inv_step:
  assumes "safety_step cr x y" and "votes_inv cr x"
  shows "votes_inv cr y"
  using assms
proof (induction rule: safety_step.induct)
  case (certificate s g c)
  then show ?case
    by (rule votes_inv_frame) (auto simp: Safety_ProcessCertificate_fields split: option.splits)
next
  case (vote r tc t s s' g)
  note ok = Safety_Vote_Ok[OF vote(1)]
  show ?case
    using ok(2,3) by (intro votes_inv_new[OF vote(2) ok(1), of s' "header_GetId cr (tip_BlockHeader t)"]) auto
next
  case (no_endorse r t s s' g)
  from this(2) show ?case
    by (rule votes_inv_frame) (simp_all add: Safety_NoEndorse_Ok(3)[OF no_endorse(1)])
next
  case (local_timeout r s s' safe g)
  from local_timeout(2,1) show ?case by (rule votes_inv_timeout)
next
  case (propose r s s' g)
  from this(2) show ?case
    by (rule votes_inv_frame) (simp_all add: Safety_Propose_Ok(3)[OF propose(1)])
next
  case (recovery r s s' g)
  from this(2) show ?case
    by (rule votes_inv_frame) (simp_all add: Safety_RecoveryRequest_Ok(2)[OF recovery(1)])
next
  case (handle_proposal r s s' g)
  from this(2) show ?case
    by (rule votes_inv_frame) (simp_all add: HandleProposal_frame[OF handle_proposal(1)])
qed

lemma votes_inv_run: "safety_run cr x \<Longrightarrow> votes_inv cr x"
proof (induction rule: safety_run.induct)
  case (step x y)
  from step.hyps(2) step.IH show ?case by (rule votes_inv_step)
qed (simp_all add: votes_inv_def)

subsection \<open>Across restarts\<close>

definition life_inv :: "Safety \<times> signed \<Rightarrow> bool" where
  "life_inv = (\<lambda>(s, g).
     (\<forall>r\<in>fst ` set (sg_votes g). r \<le> sf_highestVote s)
     \<and> (\<forall>r\<in>fst ` set (sg_noEndorsements g). r \<le> hne_round (sf_highestNoEndorse s))
     \<and> (\<forall>r\<in>set (sg_proposals g). r \<le> sf_highestPropose s)
     \<and> sorted_wrt (>) (map fst (sg_votes g)) \<and> sorted_wrt (>) (map fst (sg_noEndorsements g))
     \<and> sorted_wrt (>) (sg_proposals g))"

lemma life_inv_frame:
  assumes "life_inv (s, g)" and "sf_highestVote s \<le> sf_highestVote s'"
    and "hne_round (sf_highestNoEndorse s) \<le> hne_round (sf_highestNoEndorse s')"
    and "sf_highestPropose s \<le> sf_highestPropose s'"
    and "sg_votes g' = sg_votes g" "sg_noEndorsements g' = sg_noEndorsements g" "sg_proposals g' = sg_proposals g"
  shows "life_inv (s', g')"
  using assms unfolding life_inv_def by (simp split: prod.splits) (meson order_trans)

lemma life_inv_step:
  assumes "safety_step cr x y" and "life_inv x"
  shows "life_inv y"
  using assms
proof (induction rule: safety_step.induct)
  case (certificate s g c)
  then show ?case by (rule life_inv_frame) (simp_all add: Safety_ProcessCertificate_fields)
next
  case (vote r tc t s s' g)
  note ok = Safety_Vote_Ok[OF vote(1)]
  from vote(2) ok(1) have "\<forall>q\<in>fst ` set (sg_votes g). q < r" unfolding life_inv_def by (auto simp: le_less_trans)
  with vote(2) ok show ?case unfolding life_inv_def by (auto simp: less_imp_le)
next
  case (no_endorse r t s s' g)
  note ok = Safety_NoEndorse_Ok[OF no_endorse(1)]
  from no_endorse(2) ok(2) have "\<forall>q\<in>fst ` set (sg_noEndorsements g). q < r"
    unfolding life_inv_def by (auto simp: le_less_trans)
  with no_endorse(2) ok show ?case unfolding life_inv_def by (auto simp: less_imp_le)
next
  case (local_timeout r s s' safe g)
  note ok = Safety_Timeout_Ok[OF local_timeout(1)]
  from local_timeout(2) show ?case by (rule life_inv_frame) (simp_all add: ok)
next
  case (propose r s s' g)
  note ok = Safety_Propose_Ok[OF propose(1)]
  from propose(2) ok(1) have "\<forall>q\<in>set (sg_proposals g). q < r" unfolding life_inv_def by (auto simp: le_less_trans)
  with propose(2) ok show ?case unfolding life_inv_def by (auto simp: less_imp_le)
next
  case (recovery r s s' g)
  from recovery(2) show ?case
    by (rule life_inv_frame) (simp_all add: Safety_RecoveryRequest_Ok(2)[OF recovery(1)])
next
  case (handle_proposal r s s' g)
  from handle_proposal(2) show ?case
    by (rule life_inv_frame) (simp_all add: HandleProposal_frame[OF handle_proposal(1)])
qed

lemma life_inv_life: "safety_life cr x \<Longrightarrow> life_inv x"
proof (induction rule: safety_life.induct)
  case (live x y)
  from live.hyps(2) live.IH show ?case by (rule life_inv_step)
next
  case (restart s g c t)
  then show ?case
    by (intro life_inv_frame[OF restart.IH]) (simp_all add: Safety_Merge_fields(1-3,5,6) SafetyFromSnapshot_Snapshot)
qed (simp add: life_inv_def nothing_signed_def)

section \<open>Properties\<close>

text \<open>C7. A node never votes for two blocks in one round: over every run of the safety operations, all votes
  it signs in a round, whether in vote messages or embedded in timeout messages, are for one block.\<close>

theorem no_double_vote:
  assumes "safety_run cr (s, g)" and "(r, i) \<in> signed_votes g" and "(r, j) \<in> signed_votes g"
  shows "i = j"
  using votes_inv_run[OF assms(1)] assms(2,3) unfolding votes_inv_def by blast

definition example_certificate :: RoundCertificate where
  "example_certificate = RC_QC example_qc"

definition example_safety :: Safety where
  "example_safety = Safety_ProcessCertificate example_certificate DefaultSafety"

lemma example_vote_step:
  "safety_step example_crypto (example_safety, nothing_signed)
    (example_safety\<lparr>sf_highestVote := 6, sf_maybeHighTip := Some example_tip\<rparr>,
     nothing_signed\<lparr>sg_votes := [(6, None, header_GetId example_crypto example_header)]\<rparr>)"
proof -
  have "(Safety_Vote 6 None example_tip example_safety :: (unit, Safety) go)
      = Ok (example_safety\<lparr>sf_highestVote := 6, sf_maybeHighTip := Some example_tip\<rparr>)"
    by (simp add: Safety_Vote_def IsSafeToVote_def example_safety_def Safety_ProcessCertificate_def DefaultSafety_def
        example_certificate_def example_qc_def qc_GetRound_def example_tip_def example_header_def GENESIS_ROUND_def)
  from safety_step.vote[OF this, of example_crypto nothing_signed] show ?thesis
    by (simp add: example_tip_def nothing_signed_def)
qed

lemma example_run:
  "safety_run example_crypto
    (example_safety\<lparr>sf_highestVote := 6, sf_maybeHighTip := Some example_tip\<rparr>,
     nothing_signed\<lparr>sg_votes := [(6, None, header_GetId example_crypto example_header)]\<rparr>)"
  using safety_run.step[OF safety_run.genesis safety_step.certificate, of example_crypto example_certificate]
    example_vote_step safety_run.step unfolding example_safety_def by blast

lemma no_double_vote_witness:
  "\<exists>s g. safety_run example_crypto (s, g) \<and> signed_votes g \<noteq> {}
     \<and> (\<forall>i. (6, i) \<in> signed_votes g \<longrightarrow> i = header_GetId example_crypto example_header)"
proof -
  let ?g = "nothing_signed\<lparr>sg_votes := [(6, None, header_GetId example_crypto example_header)]\<rparr>"
  have m: "(6, header_GetId example_crypto example_header) \<in> signed_votes ?g"
    by (simp add: signed_votes_def)
  then have "signed_votes ?g \<noteq> {}" by blast
  with no_double_vote[OF example_run _ m] example_run show ?thesis by blast
qed

text \<open>C8. Across crashes the node only moves forward: if every restart merges the snapshot of the state at
  the crash, the rounds of the vote messages, of the no-endorsements and of the proposals it ever signs
  are strictly increasing, so none is signed twice.\<close>

theorem signed_rounds_increase:
  assumes "safety_life cr (s, g)"
  shows "sorted_wrt (>) (map fst (sg_votes g)) \<and> sorted_wrt (>) (map fst (sg_noEndorsements g))
    \<and> sorted_wrt (>) (sg_proposals g)"
  using life_inv_life[OF assms] by (simp add: life_inv_def)

lemma example_life:
  "\<exists>s. safety_life example_crypto (s, nothing_signed\<lparr>sg_proposals := [8]\<rparr>) \<and> sf_highestPropose s = 8"
proof -
  let ?s = "NewSafety example_certificate None"
  have "(Safety_Propose 8 ?s :: (unit, Safety) go) = Ok (?s\<lparr>sf_highestPropose := 8\<rparr>)"
    by (simp add: Safety_Propose_def IsSafeToPropose_def NewSafety_def example_certificate_def example_qc_def)
  from safety_step.propose[OF this, of example_crypto nothing_signed]
  have "safety_life example_crypto (?s\<lparr>sf_highestPropose := 8\<rparr>, nothing_signed\<lparr>sg_proposals := [8]\<rparr>)"
    using safety_life.live[OF safety_life.boot] by (simp add: nothing_signed_def)
  note life = safety_life.restart[OF this, of example_certificate None]
  show ?thesis
    by (rule exI, rule conjI, rule life)
      (simp add: Safety_Merge_fields(5) SafetyFromSnapshot_Snapshot NewSafety_def example_certificate_def
        example_qc_def max_def)
qed

lemma signed_rounds_increase_witness:
  "\<exists>s g. safety_life example_crypto (s, g) \<and> sg_proposals g \<noteq> [] \<and> sorted_wrt (>) (sg_proposals g)"
proof -
  obtain s where s: "safety_life example_crypto (s, nothing_signed\<lparr>sg_proposals := [8]\<rparr>)" using example_life by blast
  from signed_rounds_increase[OF this] s show ?thesis by fastforce
qed

text \<open>C9. A vote message closes its round for good: after a vote in round \<open>r\<close>, and any number of further
  steps and restarts, voting, proposing or no-endorsing in a round up to \<open>r\<close> panics instead of signing.\<close>

theorem vote_closes_round:
  assumes "safety_life cr (s, g)" and "(r, tc, i) \<in> set (sg_votes g)" and "q \<le> r"
  shows "\<not> IsSafeToVote q tc' s \<and> \<not> IsSafeToNoEndorse q s \<and> \<not> IsSafeToPropose q s
    \<and> (Safety_Vote q tc' t s :: (unit, Safety) go) = Panic ''safety: unsafe vote''
    \<and> (Safety_NoEndorse q b s :: (unit, Safety) go) = Panic ''safety: unsafe no-endorse''
    \<and> (Safety_Propose q s :: (unit, Safety) go) = Panic ''safety: unsafe propose''"
proof -
  have "r \<le> sf_highestVote s" using life_inv_life[OF assms(1)] assms(2) by (auto simp: life_inv_def)
  with assms(3) have "q \<le> sf_highestVote s" by simp
  then have "\<not> IsSafeToVote q tc' s" "\<not> IsSafeToNoEndorse q s" "\<not> IsSafeToPropose q s"
    by (auto simp: IsSafeToVote_def IsSafeToNoEndorse_def IsSafeToPropose_def Let_def)
  then show ?thesis by (simp add: Safety_Vote_def Safety_NoEndorse_def Safety_Propose_def)
qed

lemma vote_closes_round_witness:
  "\<exists>s g. safety_life example_crypto (s, g) \<and> sg_votes g \<noteq> [] \<and> \<not> IsSafeToPropose 6 s"
proof -
  let ?s = "NewSafety (RC_QC GenesisQC) None"
  let ?g = "nothing_signed\<lparr>sg_votes := [(6, None, header_GetId example_crypto example_header)]\<rparr>"
  have v: "(Safety_Vote 6 None example_tip ?s :: (unit, Safety) go)
      = Ok (?s\<lparr>sf_highestVote := 6, sf_maybeHighTip := Some example_tip\<rparr>)"
    by (simp add: Safety_Vote_def IsSafeToVote_def NewSafety_def GenesisQC_def qc_GetRound_def example_tip_def
        example_header_def GENESIS_ROUND_def)
  have "safety_life example_crypto (?s\<lparr>sf_highestVote := 6, sf_maybeHighTip := Some example_tip\<rparr>, ?g)"
    using safety_life.live[OF safety_life.boot safety_step.vote[OF v]] by (simp add: nothing_signed_def example_tip_def)
  from vote_closes_round[OF this, of 6 None _ 6] this show ?thesis by fastforce
qed

text \<open>C27. Restarting loses no watermark: the durable snapshot survives its encoding, rebuilding the state
  from it restores everything but the cache of handled proposals, and merging it into the state of a
  forkpoint gives the larger of both for every watermark.\<close>

theorem restart_restores_watermarks:
  assumes "wf_SafetySnapshot cr ep (Safety_Snapshot s)"
    and "length (SafetySnapshot_EncodeRLP [] (Safety_Snapshot s)) < 2 ^ 62"
  shows "\<exists>snap. DecodeExact (SafetySnapshot_EncodeRLP [] (Safety_Snapshot s)) (SafetySnapshot_DecodeRLP cr ep) = Ok snap
    \<and> SafetyFromSnapshot snap = s\<lparr>sf_handledProposals := [], sf_handledProposalsOrder := []\<rparr>
    \<and> sf_highestVote (Safety_Merge f (SafetyFromSnapshot snap)) = max (sf_highestVote f) (sf_highestVote s)
    \<and> sf_highestPropose (Safety_Merge f (SafetyFromSnapshot snap)) = max (sf_highestPropose f) (sf_highestPropose s)
    \<and> hne_round (sf_highestNoEndorse (Safety_Merge f (SafetyFromSnapshot snap)))
        = max (hne_round (sf_highestNoEndorse f)) (hne_round (sf_highestNoEndorse s))
    \<and> sf_highCertificateQcRound (Safety_Merge f (SafetyFromSnapshot snap))
        = max (sf_highCertificateQcRound f) (sf_highCertificateQcRound s)
    \<and> sf_highestRecoveryRequest (Safety_Merge f (SafetyFromSnapshot snap))
        = max (sf_highestRecoveryRequest f) (sf_highestRecoveryRequest s)"
  using snapshot_rlp.DecodeExact_enc[OF assms]
  by (simp add: SafetyFromSnapshot_Snapshot Safety_Merge_fields(1-3,5,6))

lemma restart_restores_watermarks_witness:
  "\<exists>snap. DecodeExact (SafetySnapshot_EncodeRLP [] (Safety_Snapshot DefaultSafety)) (SafetySnapshot_DecodeRLP example_crypto Mock)
     = Ok snap \<and> sf_highestVote (Safety_Merge (NewSafety example_certificate None) (SafetyFromSnapshot snap)) = 6"
proof -
  have wf: "wf_SafetySnapshot example_crypto Mock (Safety_Snapshot DefaultSafety)"
    by (simp add: wf_SafetySnapshot_def Safety_Snapshot_def DefaultSafety_def GENESIS_BLOCK_ID_def)
  have "length GENESIS_BLOCK_ID \<le> 32" by (simp add: GENESIS_BLOCK_ID_def)
  note size = this enc_size
  have "length (SafetySnapshot_EncodeRLP [] (Safety_Snapshot DefaultSafety)) < 2 ^ 62"
    unfolding SafetySnapshot_EncodeRLP_def Safety_Snapshot_def DefaultSafety_def Let_def
    by (simp, rule le_less_trans, (rule size)+) simp
  from restart_restores_watermarks[OF wf this, of "NewSafety example_certificate None"] show ?thesis
    by (auto simp: NewSafety_def example_certificate_def example_qc_def DefaultSafety_def GENESIS_ROUND_def max_def)
qed



text \<open>C29. The cache of handled proposals: handling a round not in the cache succeeds, never panics on the
  eviction loop, keeps at most 100 rounds and remembers exactly the most recent ones.\<close>

theorem HandleProposal_cache:
  assumes "handled_inv s" and "IsSafeToHandleProposal r s"
  shows "\<exists>s'. (HandleProposal r s :: (unit, Safety) go) = Ok s' \<and> handled_inv s' \<and> \<not> IsSafeToHandleProposal r s'
    \<and> length (sf_handledProposals s') \<le> 100
    \<and> (\<forall>q. \<not> IsSafeToHandleProposal q s' \<longleftrightarrow>
         (let order = sf_handledProposalsOrder s @ [r] in q \<in> set (drop (length order - 100) order)))"
proof -
  obtain s' where "(HandleProposal r s :: (unit, Safety) go) = Ok s'" "handled_inv s'" "r \<in> set (sf_handledProposals s')"
    "sf_handledProposalsOrder s'
        = (let o' = sf_handledProposalsOrder s @ [r] in drop (length o' - handledProposalCacheSize) o')"
    using HandleProposal_Ok[OF assms(1), of r] assms(2) by (auto simp: IsSafeToHandleProposal_def)
  then show ?thesis
    by (simp add: IsSafeToHandleProposal_def handled_inv_def handledProposalCacheSize_def Let_def)
qed

lemma HandleProposal_cache_witness:
  "\<exists>s'. (HandleProposal 3 DefaultSafety :: (unit, Safety) go) = Ok s' \<and> \<not> IsSafeToHandleProposal 3 s'"
  using HandleProposal_cache[of DefaultSafety 3]
  by (auto simp: handled_inv_def DefaultSafety_def IsSafeToHandleProposal_def)

end
