(* ===== verification/Epoch.thy ===== *)
theory Epoch
  imports Validator
begin

text \<open>
  \<open>validator/epoch.go\<close> and \<open>validator/epochmap.go\<close>: the epoch manager, which knows the start round
  of every scheduled epoch, and the mapping from epochs to validator sets.
\<close>

record EpochManager =
  em_EpochLength :: seqnum
  em_EpochStartDelay :: round
  em_epochStarts :: "epoch \<rightharpoonup> round"
  em_sorted :: "epoch list"

section \<open>Epoch manager\<close>

definition insertEpochStart :: "epoch \<Rightarrow> round \<Rightarrow> EpochManager \<Rightarrow> ('e, EpochManager) go" where
  "insertEpochStart epoch round em = (case em_epochStarts em epoch of
     Some existing \<Rightarrow> if existing \<noteq> round then Panic ''conflicting epoch start round'' else Ok em
   | None \<Rightarrow> Ok (em\<lparr>em_epochStarts := (em_epochStarts em)(epoch \<mapsto> round),
                    em_sorted := sort (em_sorted em @ [epoch])\<rparr>))"

text \<open>The Go map of known epochs is ranged over in some order: the list is that order.\<close>

fun insertEpochStarts :: "(epoch \<times> round) list \<Rightarrow> EpochManager \<Rightarrow> ('e, EpochManager) go" where
  "insertEpochStarts [] em = Ok em"
| "insertEpochStarts ((e, r) # known) em = go_bind (insertEpochStart e r em) (insertEpochStarts known)"

definition NewEpochManager :: "seqnum \<Rightarrow> round \<Rightarrow> (epoch \<times> round) list \<Rightarrow> ('e, EpochManager) go" where
  "NewEpochManager epochLength epochStartDelay knownEpochs =
     insertEpochStarts knownEpochs
       \<lparr>em_EpochLength = epochLength, em_EpochStartDelay = epochStartDelay,
        em_epochStarts = Map.empty, em_sorted = []\<rparr>"

definition ScheduleEpochStart :: "seqnum \<Rightarrow> round \<Rightarrow> EpochManager \<Rightarrow> ('e, EpochManager) go" where
  "ScheduleEpochStart blockNum blockRound em =
     go_bind (IsBoundaryBlock blockNum (em_EpochLength em)) (\<lambda>b.
       if \<not> b then Ok em
       else go_bind (ToEpoch blockNum (em_EpochLength em)) (\<lambda>e.
         insertEpochStart (e + 1) (blockRound + em_EpochStartDelay em) em))"

definition GetEpochStart :: "EpochManager \<Rightarrow> epoch \<Rightarrow> round option" where
  "GetEpochStart em epoch = em_epochStarts em epoch"

text \<open>The scan of \<open>GetEpoch\<close>: it stops at the first epoch that starts after the round.\<close>

fun GetEpoch_loop :: "(epoch \<rightharpoonup> round) \<Rightarrow> round \<Rightarrow> epoch list \<Rightarrow> epoch option \<Rightarrow> epoch option" where
  "GetEpoch_loop starts round [] found = found"
| "GetEpoch_loop starts round (e # es) found =
     (if (case starts e of Some r \<Rightarrow> r | None \<Rightarrow> 0) \<le> round
      then GetEpoch_loop starts round es (Some e) else found)"

definition GetEpoch :: "EpochManager \<Rightarrow> round \<Rightarrow> epoch option" where
  "GetEpoch em round = GetEpoch_loop (em_epochStarts em) round (em_sorted em) None"

subsection \<open>Invariant\<close>

definition EpochManager_inv :: "EpochManager \<Rightarrow> bool" where
  "EpochManager_inv em \<longleftrightarrow> sorted (em_sorted em) \<and> distinct (em_sorted em)
     \<and> set (em_sorted em) = dom (em_epochStarts em)"

text \<open>Start rounds grow with the epoch: what the scan relies on to stop early.\<close>

definition starts_monotone :: "EpochManager \<Rightarrow> bool" where
  "starts_monotone em \<longleftrightarrow> (\<forall>e\<in>set (em_sorted em). \<forall>e'\<in>set (em_sorted em). \<forall>r r'.
     em_epochStarts em e = Some r \<longrightarrow> em_epochStarts em e' = Some r' \<longrightarrow> e \<le> e' \<longrightarrow> r \<le> r')"

lemma insertEpochStart_inv:
  assumes "EpochManager_inv em" and "insertEpochStart e r em = Ok em'"
  shows "EpochManager_inv em'" and "em_epochStarts em' = (em_epochStarts em)(e \<mapsto> r)"
    and "em_EpochLength em' = em_EpochLength em" and "em_EpochStartDelay em' = em_EpochStartDelay em"
    and "em_epochStarts em \<subseteq>\<^sub>m em_epochStarts em'"
  using assms
  by (auto simp: insertEpochStart_def EpochManager_inv_def map_le_def fun_upd_idem 
      split: option.splits if_splits)

lemma insertEpochStarts_spec:
  assumes "EpochManager_inv em" and "distinct (map fst known)" and "\<forall>(e, r)\<in>set known. em_epochStarts em e = None"
  shows "\<exists>em'. (insertEpochStarts known em :: ('e, EpochManager) go) = Ok em' \<and> EpochManager_inv em'
    \<and> em_epochStarts em' = em_epochStarts em ++ map_of known
    \<and> em_EpochLength em' = em_EpochLength em \<and> em_EpochStartDelay em' = em_EpochStartDelay em"
  using assms
proof (induction known arbitrary: em)
  case (Cons k known)
  obtain e r where k: "k = (e, r)" by (cases k)
  then have "em_epochStarts em e = None" using Cons.prems(3) by auto
  then obtain em1 where em1: "(insertEpochStart e r em :: ('e, EpochManager) go) = Ok em1"
    by (auto simp: insertEpochStart_def)
  note inv = insertEpochStart_inv[OF Cons.prems(1) em1]
  have "\<forall>(e', r')\<in>set known. em_epochStarts em1 e' = None"
    using Cons.prems(2,3) inv(2) k by (force simp: image_iff)
  from Cons.IH[OF inv(1) _ this] Cons.prems(2) obtain em' where
    "(insertEpochStarts known em1 :: ('e, EpochManager) go) = Ok em'" "EpochManager_inv em'"
    "em_epochStarts em' = em_epochStarts em1 ++ map_of known"
    "em_EpochLength em' = em_EpochLength em1" "em_EpochStartDelay em' = em_EpochStartDelay em1" by auto
  moreover have "em_epochStarts em ++ map_of (k # known) = em_epochStarts em1 ++ map_of known"
  proof -
    have "map_of known e = None" using Cons.prems(2) k by (simp add: map_of_eq_None_iff)
    then show ?thesis using inv(2) k by (auto simp: map_add_def fun_eq_iff split: option.splits)
  qed
  ultimately show ?case unfolding k insertEpochStarts.simps em1 go_bind.simps inv(3,4) by metis
qed simp

lemma EpochManager_inv_sorted_unique:
  assumes "EpochManager_inv em" "EpochManager_inv em'" "em_epochStarts em = em_epochStarts em'"
  shows "em_sorted em = em_sorted em'"
  using assms by (intro sorted_distinct_set_unique) (simp_all add: EpochManager_inv_def)

subsection \<open>Lookup\<close>

lemma GetEpoch_loop_spec:
  assumes "sorted es" and "\<And>e e'. e \<in> set es \<Longrightarrow> e' \<in> set es \<Longrightarrow> e \<le> e' \<Longrightarrow> st e \<le> st e'"
    and "\<And>e. e \<in> set es \<Longrightarrow> starts e = Some (st e)"
  shows "GetEpoch_loop starts round es found =
    (let cand = filter (\<lambda>e. st e \<le> round) es in if cand = [] then found else Some (last cand))"
  using assms
proof (induction es arbitrary: found)
  case (Cons e es)
  show ?case
  proof (cases "st e \<le> round")
    case True
    with Cons show ?thesis by (simp add: Let_def)
  next
    case False
    have "\<forall>e'\<in>set es. \<not> st e' \<le> round"
      using Cons.prems(1) Cons.prems(2)[of e] False by (metis list.set_intros(1,2) order_trans sorted_simps(2))
    then have "filter (\<lambda>e. st e \<le> round) es = []" by (simp add: filter_empty_conv)
    with False Cons.prems(3)[of e] show ?thesis by simp
  qed
qed simp

abbreviation started :: "EpochManager \<Rightarrow> round \<Rightarrow> epoch list" where
  "started em round \<equiv> filter (\<lambda>e. the (em_epochStarts em e) \<le> round) (em_sorted em)"

lemma GetEpoch_last:
  assumes "EpochManager_inv em" and "starts_monotone em"
  shows "GetEpoch em round = (if started em round = [] then None else Some (last (started em round)))"
proof -
  have dom: "set (em_sorted em) = dom (em_epochStarts em)" and s: "sorted (em_sorted em)"
    using assms(1) by (auto simp: EpochManager_inv_def)
  have "the (em_epochStarts em e) \<le> the (em_epochStarts em e')"
    if "e \<in> set (em_sorted em)" "e' \<in> set (em_sorted em)" "e \<le> e'" for e e'
    using assms(2) that dom by (fastforce simp: starts_monotone_def domIff)
  moreover have "em_epochStarts em e = Some (the (em_epochStarts em e))" if "e \<in> set (em_sorted em)" for e
    using that dom by auto
  ultimately have "GetEpoch_loop (em_epochStarts em) round (em_sorted em) None
    = (let cand = started em round in if cand = [] then None else Some (last cand))"
    by (rule GetEpoch_loop_spec[OF s])
  then show ?thesis by (simp only: GetEpoch_def Let_def)
qed

lemma mem_started:
  "EpochManager_inv em \<Longrightarrow> x \<in> set (started em round) \<longleftrightarrow> (\<exists>r. em_epochStarts em x = Some r \<and> r \<le> round)"
  by (auto simp: EpochManager_inv_def)

lemma last_started_max:
  assumes "EpochManager_inv em" and "x \<in> set (started em round)"
  shows "x \<le> last (started em round)"
proof -
  have "sorted (started em round)" using assms(1) by (simp add: sorted_wrt_filter EpochManager_inv_def)
  then show ?thesis using assms(2) by (cases "started em round" rule: rev_cases) (auto simp: sorted_append)
qed

lemma GetEpoch_latest:
  assumes "EpochManager_inv em" and "starts_monotone em"
  shows "GetEpoch em round = Some e \<longleftrightarrow>
    (\<exists>r. em_epochStarts em e = Some r \<and> r \<le> round)
    \<and> (\<forall>e' r'. em_epochStarts em e' = Some r' \<longrightarrow> r' \<le> round \<longrightarrow> e' \<le> e)"
proof
  assume "GetEpoch em round = Some e"
  then have ne: "started em round \<noteq> []" and e: "e = last (started em round)"
    using GetEpoch_last[OF assms, of round] by (auto split: if_splits)
  from last_in_set[OF ne] e have "e \<in> set (started em round)" by simp
  then show "(\<exists>r. em_epochStarts em e = Some r \<and> r \<le> round)
    \<and> (\<forall>e' r'. em_epochStarts em e' = Some r' \<longrightarrow> r' \<le> round \<longrightarrow> e' \<le> e)"
    using mem_started[OF assms(1)] last_started_max[OF assms(1)] e by metis
next
  assume *: "(\<exists>r. em_epochStarts em e = Some r \<and> r \<le> round)
    \<and> (\<forall>e' r'. em_epochStarts em e' = Some r' \<longrightarrow> r' \<le> round \<longrightarrow> e' \<le> e)"
  then have mem: "e \<in> set (started em round)" using mem_started[OF assms(1)] by blast
  then have ne: "started em round \<noteq> []" by force
  have "last (started em round) \<le> e" using mem_started[OF assms(1)] last_in_set[OF ne] * by metis
  then have "last (started em round) = e" using last_started_max[OF assms(1) mem] by (rule antisym)
  then show "GetEpoch em round = Some e" using GetEpoch_last[OF assms, of round] ne by simp
qed

lemma GetEpoch_None:
  assumes "EpochManager_inv em" and "starts_monotone em"
  shows "GetEpoch em round = None \<longleftrightarrow> (\<forall>e r. em_epochStarts em e = Some r \<longrightarrow> round < r)"
proof -
  have "GetEpoch em round = None \<longleftrightarrow> set (started em round) = {}"
    unfolding GetEpoch_last[OF assms, of round] set_empty by simp
  also have "\<dots> \<longleftrightarrow> (\<forall>e. e \<notin> set (started em round))" by (simp only: all_not_in_conv)
  also have "\<dots> \<longleftrightarrow> (\<forall>e r. em_epochStarts em e = Some r \<longrightarrow> round < r)"
    unfolding mem_started[OF assms(1)] by (auto simp: not_le)
  finally show ?thesis .
qed

text \<open>Scheduling: only a boundary block adds an epoch, the one after its own.\<close>

lemma ScheduleEpochStart_boundary:
  assumes "em_EpochLength em \<noteq> 0"
  shows "ScheduleEpochStart s r em =
    (if s mod em_EpochLength em = em_EpochLength em - 1
     then insertEpochStart (s div em_EpochLength em + 2) (r + em_EpochStartDelay em) em else Ok em)"
  using assms by (simp add: ScheduleEpochStart_def IsBoundaryBlock_def ToEpoch_def add.assoc)

lemma ScheduleEpochStart_inv:
  assumes "EpochManager_inv em" and "(ScheduleEpochStart s r em :: ('e, EpochManager) go) = Ok em'"
  shows "EpochManager_inv em'" and "em_epochStarts em \<subseteq>\<^sub>m em_epochStarts em'"
    and "em_EpochLength em' = em_EpochLength em" and "em_EpochStartDelay em' = em_EpochStartDelay em"
proof -
  consider "em' = em" | e q where "(insertEpochStart e q em :: ('e, EpochManager) go) = Ok em'"
    using assms(2) by (auto simp: ScheduleEpochStart_def go_simps split: if_splits)
  then show "EpochManager_inv em'" "em_epochStarts em \<subseteq>\<^sub>m em_epochStarts em'"
    "em_EpochLength em' = em_EpochLength em" "em_EpochStartDelay em' = em_EpochStartDelay em"
    using assms(1) insertEpochStart_inv[OF assms(1), where ?'a = 'e]
    by (cases; simp add: map_le_def)+
qed

section \<open>Validator sets by epoch\<close>

record epochEntry =
  ee_valSet :: ValidatorSet
  ee_certPubkeys :: ValidatorMapping

type_synonym ValidatorsEpochMapping = "epoch \<rightharpoonup> epochEntry"

definition NewValidatorsEpochMapping :: ValidatorsEpochMapping where
  "NewValidatorsEpochMapping = Map.empty"

definition GetValSet :: "ValidatorsEpochMapping \<Rightarrow> epoch \<Rightarrow> ValidatorSet option" where
  "GetValSet m epoch = (case m epoch of None \<Rightarrow> None | Some e \<Rightarrow> Some (ee_valSet e))"

definition GetCertPubkeys :: "ValidatorsEpochMapping \<Rightarrow> epoch \<Rightarrow> ValidatorMapping option" where
  "GetCertPubkeys m epoch = (case m epoch of None \<Rightarrow> None | Some e \<Rightarrow> Some (ee_certPubkeys e))"

definition equalMembers :: "node_id list \<Rightarrow> node_id list \<Rightarrow> bool" where
  "equalMembers a b = (if length a \<noteq> length b then False
     else list_all (\<lambda>(x, y). \<not> NodeId_Cmp x y \<noteq> 0) (zip a b))"

definition equalMappings :: "ValidatorMapping \<Rightarrow> ValidatorMapping \<Rightarrow> bool" where
  "equalMappings a b = equalMembers (vm_nodeIds a) (vm_nodeIds b)"

definition ValidatorsEpochMapping_Insert ::
  "epoch \<Rightarrow> ValidatorData list \<Rightarrow> ValidatorMapping \<Rightarrow> ValidatorsEpochMapping \<Rightarrow> ('e, ValidatorsEpochMapping) go" where
  "ValidatorsEpochMapping_Insert epoch valData certPubkeys m = (case NewValidatorSet valData of
     Err _ \<Rightarrow> Panic ''validator: ValidatorSetData has duplicates or invalid entries''
   | Panic s \<Rightarrow> Panic s
   | Diverge \<Rightarrow> Diverge
   | Ok vs \<Rightarrow> (case m epoch of
       Some e \<Rightarrow>
         if \<not> equalMembers (vs_members (ee_valSet e)) (vs_members vs)
         then Panic ''validator: validator set mismatch on re-insert''
         else if \<not> equalMappings (ee_certPubkeys e) certPubkeys
         then Panic ''validator: validator mapping mismatch on re-insert''
         else Ok m
     | None \<Rightarrow> Ok (m(epoch \<mapsto> \<lparr>ee_valSet = vs, ee_certPubkeys = certPubkeys\<rparr>))))"

lemma equalMembers_eq: "equalMembers a b \<longleftrightarrow> a = b"
proof -
  have "length a = length b \<Longrightarrow> list_all (\<lambda>(x, y). \<not> NodeId_Cmp x y \<noteq> 0) (zip a b) \<longleftrightarrow> a = b"
    by (induction a b rule: list_induct2) (auto simp: NodeId_Cmp_less)
  then show ?thesis by (auto simp: equalMembers_def)
qed

text \<open>Once inserted, the entry of an epoch never changes, whatever is inserted later.\<close>

definition epoch_map_inv :: "ValidatorsEpochMapping \<Rightarrow> bool" where
  "epoch_map_inv m \<longleftrightarrow> (\<forall>e\<in>ran m. ValidatorSet_inv (ee_valSet e))"

lemma ValidatorsEpochMapping_Insert_inv:
  assumes "epoch_map_inv m" and "\<forall>x\<in>set valData. wf_stake (vd_Stake x)"
    and "ValidatorsEpochMapping_Insert epoch valData cps m = Ok m'"
  shows "epoch_map_inv m'" and "m \<subseteq>\<^sub>m m'" and "\<exists>vs. GetValSet m' epoch = Some vs"
proof -
  obtain vs where vs: "NewValidatorSet valData = Ok vs"
    using assms(3) by (auto simp: ValidatorsEpochMapping_Insert_def split: go.splits)
  have *: "(\<exists>e. m epoch = Some e \<and> m' = m)
    \<or> m epoch = None \<and> m' = m(epoch \<mapsto> \<lparr>ee_valSet = vs, ee_certPubkeys = cps\<rparr>)"
  proof (cases "m epoch")
    case None
    then show ?thesis using assms(3) by (simp add: ValidatorsEpochMapping_Insert_def vs)
  next
    case (Some e)
    then show ?thesis using assms(3) by (simp add: ValidatorsEpochMapping_Insert_def vs split: if_splits)
  qed
  have inv: "ValidatorSet_inv vs" by (rule NewValidatorSet_inv(1)[OF vs assms(2)])
  show "epoch_map_inv m'"
    using * assms(1) inv by (elim disjE exE conjE) (simp_all add: epoch_map_inv_def ran_map_upd)
  show "m \<subseteq>\<^sub>m m'" using * by (elim disjE exE conjE) (auto simp: map_le_def)
  show "\<exists>vs. GetValSet m' epoch = Some vs" using * by (elim disjE exE conjE) (simp_all add: GetValSet_def)
qed

section \<open>Properties\<close>


definition example_em :: EpochManager where
  "example_em = \<lparr>em_EpochLength = 100, em_EpochStartDelay = 10,
     em_epochStarts = [1 \<mapsto> 0, 2 \<mapsto> 110], em_sorted = [1, 2]\<rparr>"

lemma example_em_inv: "EpochManager_inv example_em" "starts_monotone example_em"
  by (auto simp: EpochManager_inv_def starts_monotone_def example_em_def word_le_nat_alt)


text \<open>C37. Building the epoch manager does not depend on the order in which the map of known epochs is
  ranged over: it never panics, and two orders of the same map give the same manager.\<close>

theorem NewEpochManager_order_independent:
  assumes "distinct (map fst known)" and "distinct (map fst known')" and "set known = set known'"
  shows "\<exists>em. (NewEpochManager len delay known :: (unit, EpochManager) go) = Ok em
    \<and> (NewEpochManager len delay known' :: (unit, EpochManager) go) = Ok em
    \<and> EpochManager_inv em \<and> em_epochStarts em = map_of known"
proof -
  let ?em0 = "\<lparr>em_EpochLength = len, em_EpochStartDelay = delay, em_epochStarts = Map.empty, em_sorted = []\<rparr>"
  have inv0: "EpochManager_inv ?em0" by (simp add: EpochManager_inv_def)
  obtain em where em: "(NewEpochManager len delay known :: (unit, EpochManager) go) = Ok em" "EpochManager_inv em"
    "em_epochStarts em = map_of known" "em_EpochLength em = len" "em_EpochStartDelay em = delay"
    using insertEpochStarts_spec[OF inv0 assms(1), where ?'e = unit] by (auto simp: NewEpochManager_def)
  obtain em' where em': "(NewEpochManager len delay known' :: (unit, EpochManager) go) = Ok em'" "EpochManager_inv em'"
    "em_epochStarts em' = map_of known'" "em_EpochLength em' = len" "em_EpochStartDelay em' = delay"
    using insertEpochStarts_spec[OF inv0 assms(2), where ?'e = unit] by (auto simp: NewEpochManager_def)
  have st: "em_epochStarts em = em_epochStarts em'"
    unfolding em(3) em'(3) using map_of_inject_set[OF assms(1,2)] assms(3) by simp
  have "em = em'" using em em' st EpochManager_inv_sorted_unique[OF em(2) em'(2) st] by simp
  with em em' show ?thesis by blast
qed

lemma NewEpochManager_order_independent_witness:
  "\<exists>em. (NewEpochManager 100 10 [(1, 0), (2, 110)] :: (unit, EpochManager) go) = Ok em
    \<and> (NewEpochManager 100 10 [(2, 110), (1, 0)] :: (unit, EpochManager) go) = Ok em"
  using NewEpochManager_order_independent[of "[(1, 0), (2, 110)]" "[(2, 110), (1, 0)]" 100 10] by auto

text \<open>The validator set of an epoch is fixed by its first insertion: a later insertion either panics
  or leaves every entry as it was, and every entry holds a well-formed validator set.\<close>

theorem ValidatorsEpochMapping_first_insert_wins:
  assumes "epoch_map_inv m" and "\<forall>x\<in>set valData. wf_stake (vd_Stake x)"
    and "(ValidatorsEpochMapping_Insert epoch valData cps m :: (unit, ValidatorsEpochMapping) go) = Ok m'"
  shows "epoch_map_inv m' \<and> (\<forall>e v. GetValSet m e = Some v \<longrightarrow> GetValSet m' e = Some v)
    \<and> (\<exists>v. GetValSet m' epoch = Some v)"
  using ValidatorsEpochMapping_Insert_inv[OF assms]
  by (auto simp: GetValSet_def map_le_def dom_def split: option.splits)

lemma ValidatorsEpochMapping_first_insert_wins_witness:
  "\<exists>m'. (ValidatorsEpochMapping_Insert 1 example_validators (NewValidatorMapping []) Map.empty
      :: (unit, ValidatorsEpochMapping) go) = Ok m' \<and> (\<exists>v. GetValSet m' 1 = Some v)"
proof -
  have "epoch_map_inv Map.empty" by (simp add: epoch_map_inv_def)
  moreover have "(ValidatorsEpochMapping_Insert 1 example_validators (NewValidatorMapping []) Map.empty
      :: (unit, ValidatorsEpochMapping) go)
    = Ok (Map.empty(1 \<mapsto> \<lparr>ee_valSet = example_set, ee_certPubkeys = NewValidatorMapping []\<rparr>))"
    by (simp add: ValidatorsEpochMapping_Insert_def example_set_Ok)
  ultimately show ?thesis
    using ValidatorsEpochMapping_first_insert_wins[OF _ example_set_wf] by blast
qed

end
