(* ===== verification/Messages.thy ===== *)
theory Messages
  imports CstypesCodec
begin

text \<open>
  \<open>messages/\<close>: the protocol messages, the versioned envelope and the signature wrappers with their
  codecs, and \<open>chaincfg/\<close>: the chain parameters by round. The variants of \<open>ProtocolMessage\<close> are the
  constructors of a datatype; \<open>TimeoutMessage\<close> is a transparent wrapper and is its \<open>Timeout\<close>.
\<close>

section \<open>Chain configuration\<close>

text \<open>A \<open>time.Duration\<close> is a 64-bit number of nanoseconds; sums wrap.\<close>

type_synonym duration = u64

record Params =
  cp_TxLimit :: u64
  cp_ProposalGasLimit :: u64
  cp_ProposalByteLimit :: u64
  cp_MaxReserveBalance :: bytes
  cp_VotePace :: duration

text \<open>\<open>Config\<close>: the parameters of the revision of a round, and the epoch parameters.\<close>

record Config =
  cfg_GetChainRevision :: "round \<Rightarrow> Params"
  cfg_GetEpochLength :: seqnum
  cfg_GetEpochStartDelay :: round
  cfg_GetStakingActivation :: epoch

definition DefaultParams :: Params where
  "DefaultParams = \<lparr>cp_TxLimit = 3750, cp_ProposalGasLimit = 150000000, cp_ProposalByteLimit = 1500000,
     cp_MaxReserveBalance = replicate 24 0 @ [0x8A, 0xC7, 0x23, 0x04, 0x89, 0xE8, 0x00, 0x00],
     cp_VotePace = 300 * 1000000\<rparr>"

definition StaticConfig :: "Params \<Rightarrow> seqnum \<Rightarrow> round \<Rightarrow> epoch \<Rightarrow> Config" where
  "StaticConfig p epochLength epochStartDelay stakingActivation =
     \<lparr>cfg_GetChainRevision = (\<lambda>_. p), cfg_GetEpochLength = epochLength,
      cfg_GetEpochStartDelay = epochStartDelay, cfg_GetStakingActivation = stakingActivation\<rparr>"

section \<open>Messages\<close>

record VoteMessage =
  vm_Vote :: Vote
  vm_Sig :: bls_sig

definition NewVoteMessage :: "crypto \<Rightarrow> Vote \<Rightarrow> bytes \<Rightarrow> VoteMessage" where
  "NewVoteMessage cr vote key =
     \<lparr>vm_Vote = vote, vm_Sig = BlsKeyPair_Sign cr key DomainVote (Vote_EncodeRLP [] vote)\<rparr>"

definition VoteMessage_EncodeRLP :: "bytes \<Rightarrow> VoteMessage \<Rightarrow> bytes" where
  "VoteMessage_EncodeRLP dst m = AppendList dst (\<lambda>p. AppendString (Vote_EncodeRLP p (vm_Vote m)) (vm_Sig m))"

definition VoteMessage_DecodeRLP :: "crypto \<Rightarrow> bytes \<Rightarrow> (rlp_error, VoteMessage \<times> bytes) go" where
  "VoteMessage_DecodeRLP cr s =
     go_bind (rlp_List s) (\<lambda>(l, rest).
     go_bind (Vote_DecodeRLP l) (\<lambda>(v, l).
     go_bind (bls_sig_Decode cr l) (\<lambda>(sig, l).
     go_bind (rlp_Done l) (\<lambda>_. Ok (\<lparr>vm_Vote = v, vm_Sig = sig\<rparr>, rest)))))"

type_synonym TimeoutMessage = Timeout

definition NewTimeoutMessage ::
  "crypto \<Rightarrow> bytes \<Rightarrow> TimeoutInfo \<Rightarrow> HighExtend \<Rightarrow> bool \<Rightarrow> RoundCertificate option \<Rightarrow> TimeoutMessage" where
  "NewTimeoutMessage cr certKey tinfo highExtend safeToVote lastRoundCert =
     NewTimeout cr certKey tinfo highExtend safeToVote lastRoundCert"

definition TimeoutMessage_EncodeRLP :: "bytes \<Rightarrow> TimeoutMessage \<Rightarrow> bytes" where
  "TimeoutMessage_EncodeRLP dst m = Timeout_EncodeRLP dst m"

definition TimeoutMessage_DecodeRLP :: "crypto \<Rightarrow> exec_protocol \<Rightarrow> bytes \<Rightarrow> (rlp_error, TimeoutMessage \<times> bytes) go" where
  "TimeoutMessage_DecodeRLP cr ep s = Timeout_DecodeRLP cr ep s"

record ProposalMessage =
  pm_ProposalRound :: round
  pm_ProposalEpoch :: epoch
  pm_Tip :: ConsensusTip
  pm_BlockBody :: ConsensusBlockBody
  pm_LastRoundTC :: "TimeoutCertificate option"

definition ProposalMessage_EncodeRLP :: "bytes \<Rightarrow> ProposalMessage \<Rightarrow> bytes" where
  "ProposalMessage_EncodeRLP dst m = AppendList dst (\<lambda>p.
     let p = Round_EncodeRLP p (pm_ProposalRound m);
         p = Epoch_EncodeRLP p (pm_ProposalEpoch m);
         p = ConsensusTip_EncodeRLP p (pm_Tip m);
         p = ConsensusBlockBody_EncodeRLP p (pm_BlockBody m) in
     case pm_LastRoundTC m of None \<Rightarrow> p | Some tc \<Rightarrow> TimeoutCertificate_EncodeRLP p tc)"

definition ProposalMessage_DecodeRLP ::
  "crypto \<Rightarrow> exec_protocol \<Rightarrow> bytes \<Rightarrow> (rlp_error, ProposalMessage \<times> bytes) go" where
  "ProposalMessage_DecodeRLP cr ep s =
     go_bind (rlp_List s) (\<lambda>(l, rest).
     go_bind (Round_DecodeRLP l) (\<lambda>(r, l).
     go_bind (Epoch_DecodeRLP l) (\<lambda>(e, l).
     go_bind (ConsensusTip_DecodeRLP cr ep l) (\<lambda>(t, l).
     go_bind (ConsensusBlockBody_DecodeRLP ep l) (\<lambda>(b, l).
     go_bind (if l \<noteq> [] then go_bind (TimeoutCertificate_DecodeRLP cr ep l) (\<lambda>(tc, l). Ok (Some tc, l))
              else Ok (None, l)) (\<lambda>(tc, l).
     go_bind (rlp_Done l) (\<lambda>_.
       Ok (\<lparr>pm_ProposalRound = r, pm_ProposalEpoch = e, pm_Tip = t, pm_BlockBody = b, pm_LastRoundTC = tc\<rparr>,
           rest))))))))"

record AdvanceRoundMessage =
  am_LastRoundCertificate :: RoundCertificate

definition AdvanceRoundMessage_EncodeRLP :: "bytes \<Rightarrow> AdvanceRoundMessage \<Rightarrow> bytes" where
  "AdvanceRoundMessage_EncodeRLP dst m = AppendList dst (\<lambda>p. RoundCertificate_EncodeRLP p (am_LastRoundCertificate m))"

definition AdvanceRoundMessage_DecodeRLP ::
  "crypto \<Rightarrow> exec_protocol \<Rightarrow> bytes \<Rightarrow> (rlp_error, AdvanceRoundMessage \<times> bytes) go" where
  "AdvanceRoundMessage_DecodeRLP cr ep s =
     go_bind (rlp_List s) (\<lambda>(l, rest).
     go_bind (RoundCertificate_DecodeRLP cr ep l) (\<lambda>(rc, l).
     go_bind (rlp_Done l) (\<lambda>_. Ok (\<lparr>am_LastRoundCertificate = rc\<rparr>, rest))))"

record RoundRecoveryMessage =
  rm_Round :: round
  rm_Epoch :: epoch
  rm_TC :: TimeoutCertificate

definition RoundRecoveryMessage_EncodeRLP :: "bytes \<Rightarrow> RoundRecoveryMessage \<Rightarrow> bytes" where
  "RoundRecoveryMessage_EncodeRLP dst m = AppendList dst (\<lambda>p.
     let p = Round_EncodeRLP p (rm_Round m);
         p = Epoch_EncodeRLP p (rm_Epoch m) in
     TimeoutCertificate_EncodeRLP p (rm_TC m))"

definition RoundRecoveryMessage_DecodeRLP ::
  "crypto \<Rightarrow> exec_protocol \<Rightarrow> bytes \<Rightarrow> (rlp_error, RoundRecoveryMessage \<times> bytes) go" where
  "RoundRecoveryMessage_DecodeRLP cr ep s =
     go_bind (rlp_List s) (\<lambda>(l, rest).
     go_bind (Round_DecodeRLP l) (\<lambda>(r, l).
     go_bind (Epoch_DecodeRLP l) (\<lambda>(e, l).
     go_bind (TimeoutCertificate_DecodeRLP cr ep l) (\<lambda>(tc, l).
     go_bind (rlp_Done l) (\<lambda>_. Ok (\<lparr>rm_Round = r, rm_Epoch = e, rm_TC = tc\<rparr>, rest))))))"

record NoEndorsementMessage =
  nm_Msg :: NoEndorsement
  nm_Signature :: bls_sig

definition NewNoEndorsementMessage :: "crypto \<Rightarrow> NoEndorsement \<Rightarrow> bytes \<Rightarrow> NoEndorsementMessage" where
  "NewNoEndorsementMessage cr ne key =
     \<lparr>nm_Msg = ne, nm_Signature = BlsKeyPair_Sign cr key DomainNoEndorsement (NoEndorsement_EncodeRLP [] ne)\<rparr>"

definition NoEndorsementMessage_EncodeRLP :: "bytes \<Rightarrow> NoEndorsementMessage \<Rightarrow> bytes" where
  "NoEndorsementMessage_EncodeRLP dst m =
     AppendList dst (\<lambda>p. AppendString (NoEndorsement_EncodeRLP p (nm_Msg m)) (nm_Signature m))"

definition NoEndorsementMessage_DecodeRLP :: "crypto \<Rightarrow> bytes \<Rightarrow> (rlp_error, NoEndorsementMessage \<times> bytes) go" where
  "NoEndorsementMessage_DecodeRLP cr s =
     go_bind (rlp_List s) (\<lambda>(l, rest).
     go_bind (NoEndorsement_DecodeRLP l) (\<lambda>(n, l).
     go_bind (bls_sig_Decode cr l) (\<lambda>(sig, l).
     go_bind (rlp_Done l) (\<lambda>_. Ok (\<lparr>nm_Msg = n, nm_Signature = sig\<rparr>, rest)))))"

section \<open>Envelopes\<close>

datatype ProtocolMessage =
    PMProposal ProposalMessage | PMVote VoteMessage | PMTimeout TimeoutMessage
  | PMRoundRecovery RoundRecoveryMessage | PMNoEndorsement NoEndorsementMessage
  | PMAdvanceRound AdvanceRoundMessage

definition protocolMessageName :: bytes where
  "protocolMessageName = ascii ''ProtocolMessage''"

fun PM_Kind :: "ProtocolMessage \<Rightarrow> u8" where
  "PM_Kind (PMProposal _) = 1"
| "PM_Kind (PMVote _) = 2"
| "PM_Kind (PMTimeout _) = 3"
| "PM_Kind (PMRoundRecovery _) = 4"
| "PM_Kind (PMNoEndorsement _) = 5"
| "PM_Kind (PMAdvanceRound _) = 6"

fun PM_inner :: "bytes \<Rightarrow> ProtocolMessage \<Rightarrow> bytes" where
  "PM_inner p (PMProposal x) = ProposalMessage_EncodeRLP p x"
| "PM_inner p (PMVote x) = VoteMessage_EncodeRLP p x"
| "PM_inner p (PMTimeout x) = TimeoutMessage_EncodeRLP p x"
| "PM_inner p (PMRoundRecovery x) = RoundRecoveryMessage_EncodeRLP p x"
| "PM_inner p (PMNoEndorsement x) = NoEndorsementMessage_EncodeRLP p x"
| "PM_inner p (PMAdvanceRound x) = AdvanceRoundMessage_EncodeRLP p x"

definition ProtocolMessage_EncodeRLP :: "bytes \<Rightarrow> ProtocolMessage \<Rightarrow> bytes" where
  "ProtocolMessage_EncodeRLP dst m = AppendList dst (\<lambda>p.
     PM_inner (AppendUint8 (AppendString p protocolMessageName) (PM_Kind m)) m)"

definition ProtocolMessage_DecodeRLP ::
  "crypto \<Rightarrow> exec_protocol \<Rightarrow> bytes \<Rightarrow> (rlp_error, ProtocolMessage \<times> bytes) go" where
  "ProtocolMessage_DecodeRLP cr ep s =
     go_bind (rlp_List s) (\<lambda>(l, rest).
     go_bind (rlp_Bytes l) (\<lambda>(name, l).
     if name \<noteq> protocolMessageName then Err ErrCustom else
     go_bind (rlp_Uint64 l) (\<lambda>(tag, l).
     go_bind
       (if tag = 1 then go_bind (ProposalMessage_DecodeRLP cr ep l) (\<lambda>(x, l). Ok (PMProposal x, l))
        else if tag = 2 then go_bind (VoteMessage_DecodeRLP cr l) (\<lambda>(x, l). Ok (PMVote x, l))
        else if tag = 3 then go_bind (TimeoutMessage_DecodeRLP cr ep l) (\<lambda>(x, l). Ok (PMTimeout x, l))
        else if tag = 4 then go_bind (RoundRecoveryMessage_DecodeRLP cr ep l) (\<lambda>(x, l). Ok (PMRoundRecovery x, l))
        else if tag = 5 then go_bind (NoEndorsementMessage_DecodeRLP cr l) (\<lambda>(x, l). Ok (PMNoEndorsement x, l))
        else if tag = 6 then go_bind (AdvanceRoundMessage_DecodeRLP cr ep l) (\<lambda>(x, l). Ok (PMAdvanceRound x, l))
        else Err ErrCustom) (\<lambda>(m, l).
     go_bind (rlp_Done l) (\<lambda>_. Ok (m, rest))))))"

fun ProtocolMessage_GetRound :: "ProtocolMessage \<Rightarrow> round" where
  "ProtocolMessage_GetRound (PMProposal x) = pm_ProposalRound x"
| "ProtocolMessage_GetRound (PMVote x) = v_Round (vm_Vote x)"
| "ProtocolMessage_GetRound (PMTimeout x) = ti_Round (tm_TmInfo x)"
| "ProtocolMessage_GetRound (PMRoundRecovery x) = rm_Round x"
| "ProtocolMessage_GetRound (PMNoEndorsement x) = ne_Round (nm_Msg x)"
| "ProtocolMessage_GetRound (PMAdvanceRound x) = rc_Round (am_LastRoundCertificate x)"

record ConsensusMessage =
  cm_Version :: u32
  cm_Message :: ProtocolMessage

definition ConsensusMessage_EncodeRLP :: "bytes \<Rightarrow> ConsensusMessage \<Rightarrow> bytes" where
  "ConsensusMessage_EncodeRLP dst m =
     AppendList dst (\<lambda>p. ProtocolMessage_EncodeRLP (AppendUint32 p (cm_Version m)) (cm_Message m))"

text \<open>The version is read as 64 bits and cut to 32.\<close>

definition ConsensusMessage_DecodeRLP ::
  "crypto \<Rightarrow> exec_protocol \<Rightarrow> bytes \<Rightarrow> (rlp_error, ConsensusMessage \<times> bytes) go" where
  "ConsensusMessage_DecodeRLP cr ep s =
     go_bind (rlp_List s) (\<lambda>(l, rest).
     go_bind (rlp_Uint64 l) (\<lambda>(v, l).
     go_bind (ProtocolMessage_DecodeRLP cr ep l) (\<lambda>(m, l).
     go_bind (rlp_Done l) (\<lambda>_. Ok (\<lparr>cm_Version = ucast v, cm_Message = m\<rparr>, rest)))))"

definition ConsensusMessage_GetRound :: "ConsensusMessage \<Rightarrow> round" where
  "ConsensusMessage_GetRound m = ProtocolMessage_GetRound (cm_Message m)"

record Unverified =
  uv_Obj :: ConsensusMessage
  uv_AuthorSignature :: secp_sig

definition Unverified_EncodeRLP :: "bytes \<Rightarrow> Unverified \<Rightarrow> bytes" where
  "Unverified_EncodeRLP dst u =
     AppendList dst (\<lambda>p. AppendString (ConsensusMessage_EncodeRLP p (uv_Obj u)) (uv_AuthorSignature u))"

definition Unverified_DecodeRLP :: "crypto \<Rightarrow> exec_protocol \<Rightarrow> bytes \<Rightarrow> (rlp_error, Unverified \<times> bytes) go" where
  "Unverified_DecodeRLP cr ep s =
     go_bind (rlp_List s) (\<lambda>(l, rest).
     go_bind (ConsensusMessage_DecodeRLP cr ep l) (\<lambda>(m, l).
     go_bind (secp_sig_Decode l) (\<lambda>(sig, l).
     go_bind (rlp_Done l) (\<lambda>_. Ok (\<lparr>uv_Obj = m, uv_AuthorSignature = sig\<rparr>, rest)))))"

record Verified =
  vf_Author :: node_id
  vf_Message :: Unverified

definition Unverified_Verify :: "crypto \<Rightarrow> Unverified \<Rightarrow> Verified option" where
  "Unverified_Verify cr u =
     (case RecoverPubKey cr (uv_AuthorSignature u) DomainConsensusMessage (ConsensusMessage_EncodeRLP [] (uv_Obj u)) of
        None \<Rightarrow> None
      | Some pk \<Rightarrow> Some \<lparr>vf_Author = pk, vf_Message = u\<rparr>)"

text \<open>\<open>Sign\<close>: the key pair is its secret key and its public key.\<close>

definition Sign :: "crypto \<Rightarrow> ConsensusMessage \<Rightarrow> bytes \<times> node_id \<Rightarrow> Verified" where
  "Sign cr msg kp =
     \<lparr>vf_Author = snd kp,
      vf_Message = \<lparr>uv_Obj = msg,
        uv_AuthorSignature = SecpKeyPair_Sign cr (fst kp) DomainConsensusMessage (ConsensusMessage_EncodeRLP [] msg)\<rparr>\<rparr>"

section \<open>Round trips\<close>

lemma rlp_append_messages [rlp_append]:
  "NO_MATCH [] dst \<Longrightarrow> VoteMessage_EncodeRLP dst vm = dst @ VoteMessage_EncodeRLP [] vm"
  "NO_MATCH [] dst \<Longrightarrow> ProposalMessage_EncodeRLP dst pm = dst @ ProposalMessage_EncodeRLP [] pm"
  "NO_MATCH [] dst \<Longrightarrow> AdvanceRoundMessage_EncodeRLP dst am = dst @ AdvanceRoundMessage_EncodeRLP [] am"
  "NO_MATCH [] dst \<Longrightarrow> RoundRecoveryMessage_EncodeRLP dst rm = dst @ RoundRecoveryMessage_EncodeRLP [] rm"
  "NO_MATCH [] dst \<Longrightarrow> NoEndorsementMessage_EncodeRLP dst nm = dst @ NoEndorsementMessage_EncodeRLP [] nm"
  "NO_MATCH [] dst \<Longrightarrow> ProtocolMessage_EncodeRLP dst m = dst @ ProtocolMessage_EncodeRLP [] m"
  "NO_MATCH [] dst \<Longrightarrow> ConsensusMessage_EncodeRLP dst cm = dst @ ConsensusMessage_EncodeRLP [] cm"
  "NO_MATCH [] dst \<Longrightarrow> Unverified_EncodeRLP dst uv = dst @ Unverified_EncodeRLP [] uv"
  unfolding VoteMessage_EncodeRLP_def ProposalMessage_EncodeRLP_def AdvanceRoundMessage_EncodeRLP_def
    RoundRecoveryMessage_EncodeRLP_def NoEndorsementMessage_EncodeRLP_def ProtocolMessage_EncodeRLP_def
    ConsensusMessage_EncodeRLP_def Unverified_EncodeRLP_def
  by (rule AppendList_dst)+

lemma rlp_append_TimeoutMessage [rlp_append]:
  "NO_MATCH [] dst \<Longrightarrow> TimeoutMessage_EncodeRLP dst m = dst @ TimeoutMessage_EncodeRLP [] m"
  unfolding TimeoutMessage_EncodeRLP_def by (rule rlp_append_cstypes)

lemma PM_inner_append [rlp_append]: "NO_MATCH [] p \<Longrightarrow> PM_inner p m = p @ PM_inner [] m"
  by (cases m) (simp_all add: rlp_append)

lemmas [rlp_read] = timeout_rlp.reads

definition wf_VoteMessage :: "crypto \<Rightarrow> VoteMessage \<Rightarrow> bool" where
  "wf_VoteMessage cr m \<longleftrightarrow> wf_Vote (vm_Vote m) \<and> wf_bls cr (vm_Sig m)"

interpretation vote_msg_rlp: rlp_codec "VoteMessage_EncodeRLP []" "VoteMessage_DecodeRLP cr" "wf_VoteMessage cr" for cr
proof
  fix x and rest :: bytes
  assume wf: "wf_VoteMessage cr x" and len: "length (VoteMessage_EncodeRLP [] x) + length rest < 2 ^ 62"
  have e: "VoteMessage_EncodeRLP [] x = AppendList [] (\<lambda>p. p @ Vote_EncodeRLP [] (vm_Vote x) @ AppendString [] (vm_Sig x))"
    by (simp add: VoteMessage_EncodeRLP_def rlp_append)
  show "VoteMessage_DecodeRLP cr (VoteMessage_EncodeRLP [] x @ rest) = Ok (x, rest)"
    using wf rlp_List_fields[OF len[unfolded e]] by (simp add: e VoteMessage_DecodeRLP_def wf_VoteMessage_def rlp_read)
qed (simp add: VoteMessage_EncodeRLP_def AppendList_nonempty)

interpretation timeout_msg_rlp: rlp_codec "TimeoutMessage_EncodeRLP []" "TimeoutMessage_DecodeRLP cr ep" "wf_Timeout cr ep" for cr ep
  unfolding TimeoutMessage_EncodeRLP_def TimeoutMessage_DecodeRLP_def by (rule timeout_rlp.rlp_codec_axioms)

definition wf_ProposalMessage :: "crypto \<Rightarrow> exec_protocol \<Rightarrow> ProposalMessage \<Rightarrow> bool" where
  "wf_ProposalMessage cr ep m \<longleftrightarrow> wf_Tip cr ep (pm_Tip m) \<and> exec_wf (\<lambda>b. b) (ep_Body ep) (pm_BlockBody m)
     \<and> (\<forall>tc. pm_LastRoundTC m = Some tc \<longrightarrow> wf_TC cr ep tc)"

interpretation proposal_msg_rlp: rlp_codec "ProposalMessage_EncodeRLP []" "ProposalMessage_DecodeRLP cr ep"
    "wf_ProposalMessage cr ep" for cr ep
proof
  fix x and rest :: bytes
  assume wf: "wf_ProposalMessage cr ep x" and len: "length (ProposalMessage_EncodeRLP [] x) + length rest < 2 ^ 62"
  show "ProposalMessage_DecodeRLP cr ep (ProposalMessage_EncodeRLP [] x @ rest) = Ok (x, rest)"
  proof (cases "pm_LastRoundTC x")
    case None
    then have e: "ProposalMessage_EncodeRLP [] x = AppendList [] (\<lambda>p. p @ Round_EncodeRLP [] (pm_ProposalRound x)
        @ Epoch_EncodeRLP [] (pm_ProposalEpoch x) @ ConsensusTip_EncodeRLP [] (pm_Tip x)
        @ ConsensusBlockBody_EncodeRLP [] (pm_BlockBody x))"
      by (simp add: ProposalMessage_EncodeRLP_def rlp_append)
    show ?thesis unfolding e using wf None rlp_List_fields[OF len[unfolded e]]
      by (simp add: ProposalMessage_DecodeRLP_def wf_ProposalMessage_def rlp_read)
  next
    case (Some tc)
    then have e: "ProposalMessage_EncodeRLP [] x = AppendList [] (\<lambda>p. p @ Round_EncodeRLP [] (pm_ProposalRound x)
        @ Epoch_EncodeRLP [] (pm_ProposalEpoch x) @ ConsensusTip_EncodeRLP [] (pm_Tip x)
        @ ConsensusBlockBody_EncodeRLP [] (pm_BlockBody x) @ TimeoutCertificate_EncodeRLP [] tc)"
      by (simp add: ProposalMessage_EncodeRLP_def rlp_append)
    have "TimeoutCertificate_EncodeRLP [] tc \<noteq> []"
      by (simp add: TimeoutCertificate_EncodeRLP_def AppendList_nonempty)
    then show ?thesis unfolding e using wf Some rlp_List_fields[OF len[unfolded e]]
      by (simp add: ProposalMessage_DecodeRLP_def wf_ProposalMessage_def rlp_read)
  qed
qed (simp add: ProposalMessage_EncodeRLP_def AppendList_nonempty)

interpretation advance_msg_rlp: rlp_codec "AdvanceRoundMessage_EncodeRLP []" "AdvanceRoundMessage_DecodeRLP cr ep"
    "\<lambda>m. wf_RC cr ep (am_LastRoundCertificate m)" for cr ep
proof
  fix x and rest :: bytes
  assume wf: "wf_RC cr ep (am_LastRoundCertificate x)" and len: "length (AdvanceRoundMessage_EncodeRLP [] x) + length rest < 2 ^ 62"
  have e: "AdvanceRoundMessage_EncodeRLP [] x = AppendList [] (\<lambda>p. p @ RoundCertificate_EncodeRLP [] (am_LastRoundCertificate x))"
    by (simp add: AdvanceRoundMessage_EncodeRLP_def rlp_append)
  show "AdvanceRoundMessage_DecodeRLP cr ep (AdvanceRoundMessage_EncodeRLP [] x @ rest) = Ok (x, rest)"
    using wf rlp_List_fields[OF len[unfolded e]] by (simp add: e AdvanceRoundMessage_DecodeRLP_def rlp_read)
qed (simp add: AdvanceRoundMessage_EncodeRLP_def AppendList_nonempty)

interpretation recovery_msg_rlp: rlp_codec "RoundRecoveryMessage_EncodeRLP []" "RoundRecoveryMessage_DecodeRLP cr ep"
    "\<lambda>m. wf_TC cr ep (rm_TC m)" for cr ep
proof
  fix x and rest :: bytes
  assume wf: "wf_TC cr ep (rm_TC x)" and len: "length (RoundRecoveryMessage_EncodeRLP [] x) + length rest < 2 ^ 62"
  have e: "RoundRecoveryMessage_EncodeRLP [] x = AppendList [] (\<lambda>p. p @ Round_EncodeRLP [] (rm_Round x)
      @ Epoch_EncodeRLP [] (rm_Epoch x) @ TimeoutCertificate_EncodeRLP [] (rm_TC x))"
    by (simp add: RoundRecoveryMessage_EncodeRLP_def rlp_append)
  show "RoundRecoveryMessage_DecodeRLP cr ep (RoundRecoveryMessage_EncodeRLP [] x @ rest) = Ok (x, rest)"
    using wf rlp_List_fields[OF len[unfolded e]] by (simp add: e RoundRecoveryMessage_DecodeRLP_def rlp_read)
qed (simp add: RoundRecoveryMessage_EncodeRLP_def AppendList_nonempty)

interpretation ne_msg_rlp: rlp_codec "NoEndorsementMessage_EncodeRLP []" "NoEndorsementMessage_DecodeRLP cr"
    "\<lambda>m. wf_bls cr (nm_Signature m)" for cr
proof
  fix x and rest :: bytes
  assume wf: "wf_bls cr (nm_Signature x)" and len: "length (NoEndorsementMessage_EncodeRLP [] x) + length rest < 2 ^ 62"
  have e: "NoEndorsementMessage_EncodeRLP [] x
      = AppendList [] (\<lambda>p. p @ NoEndorsement_EncodeRLP [] (nm_Msg x) @ AppendString [] (nm_Signature x))"
    by (simp add: NoEndorsementMessage_EncodeRLP_def rlp_append)
  show "NoEndorsementMessage_DecodeRLP cr (NoEndorsementMessage_EncodeRLP [] x @ rest) = Ok (x, rest)"
    using wf rlp_List_fields[OF len[unfolded e]] by (simp add: e NoEndorsementMessage_DecodeRLP_def rlp_read)
qed (simp add: NoEndorsementMessage_EncodeRLP_def AppendList_nonempty)

lemmas [rlp_read] = vote_msg_rlp.reads timeout_msg_rlp.reads proposal_msg_rlp.reads advance_msg_rlp.reads
  recovery_msg_rlp.reads ne_msg_rlp.reads

fun wf_ProtocolMessage :: "crypto \<Rightarrow> exec_protocol \<Rightarrow> ProtocolMessage \<Rightarrow> bool" where
  "wf_ProtocolMessage cr ep (PMProposal x) = wf_ProposalMessage cr ep x"
| "wf_ProtocolMessage cr ep (PMVote x) = wf_VoteMessage cr x"
| "wf_ProtocolMessage cr ep (PMTimeout x) = wf_Timeout cr ep x"
| "wf_ProtocolMessage cr ep (PMRoundRecovery x) = wf_TC cr ep (rm_TC x)"
| "wf_ProtocolMessage cr ep (PMNoEndorsement x) = wf_bls cr (nm_Signature x)"
| "wf_ProtocolMessage cr ep (PMAdvanceRound x) = wf_RC cr ep (am_LastRoundCertificate x)"

interpretation protocol_msg_rlp: rlp_codec "ProtocolMessage_EncodeRLP []" "ProtocolMessage_DecodeRLP cr ep"
    "wf_ProtocolMessage cr ep" for cr ep
proof
  fix x and rest :: bytes
  assume wf: "wf_ProtocolMessage cr ep x" and len: "length (ProtocolMessage_EncodeRLP [] x) + length rest < 2 ^ 62"
  have e: "ProtocolMessage_EncodeRLP [] x
      = AppendList [] (\<lambda>p. p @ AppendString [] protocolMessageName @ AppendUint8 [] (PM_Kind x) @ PM_inner [] x)"
    by (simp add: ProtocolMessage_EncodeRLP_def rlp_append)
  show "ProtocolMessage_DecodeRLP cr ep (ProtocolMessage_EncodeRLP [] x @ rest) = Ok (x, rest)"
    unfolding e using wf rlp_List_fields[OF len[unfolded e]]
    by (cases x) (simp_all add: ProtocolMessage_DecodeRLP_def rlp_read)
qed (simp add: ProtocolMessage_EncodeRLP_def AppendList_nonempty)

lemmas [rlp_read] = protocol_msg_rlp.reads

lemma rlp_Uint64_AppendUint32:
  "length (AppendUint32 [] v) + length rest < 2 ^ 62 \<Longrightarrow> rlp_Uint64 (AppendUint32 [] v @ rest) = Ok (ucast v, rest)"
  using u64_rlp.dec_enc[of "ucast v" rest] by (simp add: AppendUint32_def)

interpretation consensus_msg_rlp: rlp_codec "ConsensusMessage_EncodeRLP []" "ConsensusMessage_DecodeRLP cr ep"
    "\<lambda>m. wf_ProtocolMessage cr ep (cm_Message m)" for cr ep
proof
  fix x and rest :: bytes
  assume wf: "wf_ProtocolMessage cr ep (cm_Message x)" and len: "length (ConsensusMessage_EncodeRLP [] x) + length rest < 2 ^ 62"
  have e: "ConsensusMessage_EncodeRLP [] x
      = AppendList [] (\<lambda>p. p @ AppendUint32 [] (cm_Version x) @ ProtocolMessage_EncodeRLP [] (cm_Message x))"
    by (simp add: ConsensusMessage_EncodeRLP_def rlp_append)
  have "ucast (ucast (cm_Version x) :: u64) = cm_Version x" by (simp add: ucast_up_ucast_id is_up)
  then show "ConsensusMessage_DecodeRLP cr ep (ConsensusMessage_EncodeRLP [] x @ rest) = Ok (x, rest)"
    using wf rlp_List_fields[OF len[unfolded e]]
    by (simp add: e ConsensusMessage_DecodeRLP_def rlp_read rlp_Uint64_AppendUint32)
qed (simp add: ConsensusMessage_EncodeRLP_def AppendList_nonempty)

lemmas [rlp_read] = consensus_msg_rlp.reads

definition wf_Unverified :: "crypto \<Rightarrow> exec_protocol \<Rightarrow> Unverified \<Rightarrow> bool" where
  "wf_Unverified cr ep u \<longleftrightarrow> wf_ProtocolMessage cr ep (cm_Message (uv_Obj u)) \<and> wf_secp (uv_AuthorSignature u)"

interpretation unverified_rlp: rlp_codec "Unverified_EncodeRLP []" "Unverified_DecodeRLP cr ep" "wf_Unverified cr ep" for cr ep
proof
  fix x and rest :: bytes
  assume wf: "wf_Unverified cr ep x" and len: "length (Unverified_EncodeRLP [] x) + length rest < 2 ^ 62"
  have e: "Unverified_EncodeRLP [] x
      = AppendList [] (\<lambda>p. p @ ConsensusMessage_EncodeRLP [] (uv_Obj x) @ AppendString [] (uv_AuthorSignature x))"
    by (simp add: Unverified_EncodeRLP_def rlp_append)
  show "Unverified_DecodeRLP cr ep (Unverified_EncodeRLP [] x @ rest) = Ok (x, rest)"
    using wf rlp_List_fields[OF len[unfolded e]] by (simp add: e Unverified_DecodeRLP_def wf_Unverified_def rlp_read)
qed (simp add: Unverified_EncodeRLP_def AppendList_nonempty)

section \<open>Properties\<close>

text \<open>C26. A message arrives as it was sent and under its author's name: the receiver decodes what \<open>Sign\<close>
  produced, and recovering the author over the decoded message gives the signer, provided the signature
  library recovers the key that signed.\<close>

theorem signed_message_arrives:
  assumes "wf_ProtocolMessage cr ep (cm_Message msg)" and "\<forall>h. wf_secp (secp_Sign cr sk h)"
    and "\<forall>h. secp_Recover cr h (secp_Sign cr sk h) = Some pk"
    and "length (Unverified_EncodeRLP [] (vf_Message (Sign cr msg (sk, pk)))) < 2 ^ 62"
  shows "\<exists>u. DecodeExact (Unverified_EncodeRLP [] (vf_Message (Sign cr msg (sk, pk)))) (Unverified_DecodeRLP cr ep) = Ok u
    \<and> Unverified_Verify cr u = Some (Sign cr msg (sk, pk)) \<and> vf_Author (Sign cr msg (sk, pk)) = pk \<and> uv_Obj u = msg"
proof -
  have "wf_Unverified cr ep (vf_Message (Sign cr msg (sk, pk)))"
    using assms(1,2) by (simp add: wf_Unverified_def Sign_def SecpKeyPair_Sign_def)
  from unverified_rlp.DecodeExact_enc[OF this assms(4)] assms(3) show ?thesis
    by (simp add: Unverified_Verify_def Sign_def RecoverPubKey_def SecpKeyPair_Sign_def)
qed

definition recovering_crypto :: crypto where
  "recovering_crypto = example_crypto\<lparr>secp_Recover := (\<lambda>_ _. Some (replicate 33 2))\<rparr>"

definition example_vote_message :: ConsensusMessage where
  "example_vote_message = \<lparr>cm_Version = 1, cm_Message =
     PMVote (NewVoteMessage recovering_crypto \<lparr>v_ID = replicate 32 7, v_Round = 5, v_Epoch = 1\<rparr> [])\<rparr>"

lemma recovering_crypto_simps [simp]:
  "blst_P2_Uncompress recovering_crypto b = True" "blst_Sign recovering_crypto sk b = example_sig"
  "secp_Sign recovering_crypto sk h = replicate 65 0"
  "secp_Recover recovering_crypto h ss = Some (replicate 33 2)"
  by (simp_all add: recovering_crypto_def)

lemma signed_message_arrives_witness:
  "\<exists>u. DecodeExact (Unverified_EncodeRLP [] (vf_Message (Sign recovering_crypto example_vote_message ([], replicate 33 2))))
       (Unverified_DecodeRLP recovering_crypto Mock) = Ok u
     \<and> Unverified_Verify recovering_crypto u = Some (Sign recovering_crypto example_vote_message ([], replicate 33 2))"
proof -
  have wf: "wf_ProtocolMessage recovering_crypto Mock (cm_Message example_vote_message)"
    by (simp add: example_vote_message_def NewVoteMessage_def wf_VoteMessage_def wf_Vote_def wf_bls_def
        BlsKeyPair_Sign_def BlsSignatureUncompress_def BlsSignatureCompressdLen_def)
  have "length (replicate n x) \<le> n" "length example_sig \<le> 96" "length (ascii s) \<le> length s" for n s and x :: u8
    by (simp_all add: ascii_def)
  note size = this enc_size
  have len: "length (Unverified_EncodeRLP [] (vf_Message (Sign recovering_crypto example_vote_message ([], replicate 33 2)))) < 2 ^ 62"
    unfolding Unverified_EncodeRLP_def ConsensusMessage_EncodeRLP_def ProtocolMessage_EncodeRLP_def Sign_def
      example_vote_message_def NewVoteMessage_def SecpKeyPair_Sign_def BlsKeyPair_Sign_def VoteMessage_EncodeRLP_def
      Vote_EncodeRLP_def Let_def protocolMessageName_def
    by (simp add: VoteMessage_EncodeRLP_def Vote_EncodeRLP_def Let_def, rule le_less_trans, (rule size)+) simp
  show ?thesis
    using signed_message_arrives[OF wf _ _ len] by (auto simp: wf_secp_def SecpSignatureSize_def)
qed

end
