(* ===== verification/Votes.thy ===== *)
theory Votes
  imports Messages
begin

text \<open>
  \<open>consensus/vote_state.go\<close> and \<open>consensus/ne_state.go\<close>: the collection of votes and of no-endorsements
  by round and the certificates they form. The loop that builds a certificate drops the senders of
  invalid signatures and tries again; it is the same code in both files and one definition here. A
  bucket is the Go map from a sender to its entry, as an association list: the list is the order in
  which the map is ranged over.
\<close>

record voteEntry =
  ve_nodeId :: node_id
  ve_sig :: bls_sig

type_synonym bucket = "(node_id \<times> voteEntry) list"

section \<open>The certificate loop\<close>

definition bucket_sigs :: "bucket \<Rightarrow> (node_id \<times> bls_sig) list" where
  "bucket_sigs b = map (\<lambda>(k, e). (ve_nodeId e, ve_sig e)) b"

text \<open>
  One call of the loop with fuel: the number of rounds it may take. The result is the signatures of
  the certificate, if one is formed, the bucket left and the invalid senders.
\<close>

fun certify_loop :: "nat \<Rightarrow> crypto \<Rightarrow> bytes \<Rightarrow> bytes \<Rightarrow> ValidatorSet \<Rightarrow> ValidatorMapping
    \<Rightarrow> bucket \<Rightarrow> node_id set \<Rightarrow> ('e, BlsSignatureCollection option \<times> bucket \<times> node_id set) go" where
  "certify_loop 0 cr domain enc validators mapping b invalid = Diverge"
| "certify_loop (Suc n) cr domain enc validators mapping b invalid =
     (case HasSuperMajorityVotes validators (map (\<lambda>(k, e). ve_nodeId e) b) of
        Panic s \<Rightarrow> Panic s
      | Diverge \<Rightarrow> Diverge
      | Err _ \<Rightarrow> Ok (None, b, invalid)
      | Ok False \<Rightarrow> Ok (None, b, invalid)
      | Ok True \<Rightarrow> (case sigcol_New cr domain (bucket_sigs b) mapping enc of
          Panic s \<Rightarrow> Panic s
        | Diverge \<Rightarrow> Diverge
        | Ok sc \<Rightarrow> Ok (Some sc, b, invalid)
        | Err (InvalidSignaturesCreate bad) \<Rightarrow>
            certify_loop n cr domain enc validators mapping
              (filter (\<lambda>(k, e). k \<notin> fst ` set bad) b) (invalid \<union> fst ` set bad)
        | Err _ \<Rightarrow> Ok (None, b, invalid)))"

section \<open>Votes\<close>

record roundVoteState =
  rv_pendingVotes :: "Vote \<rightharpoonup> bucket"
  rv_nodeVotes :: "node_id \<rightharpoonup> bls_sig set"
  rv_invalidVoters :: "node_id set"

definition newRoundVoteState :: roundVoteState where
  "newRoundVoteState = \<lparr>rv_pendingVotes = Map.empty, rv_nodeVotes = Map.empty, rv_invalidVoters = {}\<rparr>"

record VoteState =
  vs_pendingVotes :: "round \<rightharpoonup> roundVoteState"
  vs_earliestRound :: round

definition NewVoteState :: "round \<Rightarrow> VoteState" where
  "NewVoteState round = \<lparr>vs_pendingVotes = Map.empty, vs_earliestRound = round\<rparr>"

definition ProcessVote :: "crypto \<Rightarrow> node_id \<Rightarrow> VoteMessage \<Rightarrow> ValidatorSet \<Rightarrow> ValidatorMapping \<Rightarrow> VoteState
    \<Rightarrow> ('e, VoteState \<times> QuorumCertificate option) go" where
  "ProcessVote cr author voteMsg validators mapping v =
     (let vote = vm_Vote voteMsg; round = v_Round vote in
      if round < vs_earliestRound v then Ok (v, None) else
      let rs = (case vs_pendingVotes v round of Some rs \<Rightarrow> rs | None \<Rightarrow> newRoundVoteState);
          nv = (case rv_nodeVotes rs author of Some nv \<Rightarrow> nv | None \<Rightarrow> {});
          rpv = (case rv_pendingVotes rs vote of Some rpv \<Rightarrow> rpv | None \<Rightarrow> []);
          rs = rs\<lparr>rv_nodeVotes := (rv_nodeVotes rs)(author \<mapsto> insert (vm_Sig voteMsg) nv),
                  rv_pendingVotes := (rv_pendingVotes rs)(vote \<mapsto> rpv)\<rparr>;
          v = v\<lparr>vs_pendingVotes := (vs_pendingVotes v)(round \<mapsto> rs)\<rparr> in
      if author \<in> rv_invalidVoters rs then Ok (v, None) else
      let rpv = aput author \<lparr>ve_nodeId = author, ve_sig = vm_Sig voteMsg\<rparr> rpv in
      go_bind (certify_loop (Suc (length rpv)) cr DomainVote (Vote_EncodeRLP [] vote) validators mapping rpv
                 (rv_invalidVoters rs)) (\<lambda>(sc, rpv, invalid).
        let rs = rs\<lparr>rv_pendingVotes := (rv_pendingVotes rs)(vote \<mapsto> rpv), rv_invalidVoters := invalid\<rparr>;
            v = v\<lparr>vs_pendingVotes := (vs_pendingVotes v)(round \<mapsto> rs)\<rparr> in
        case sc of
          None \<Rightarrow> Ok (v, None)
        | Some sc \<Rightarrow> Ok (v\<lparr>vs_earliestRound := round + 1\<rparr>, Some \<lparr>qc_Info = vote, qc_Signatures = sc\<rparr>)))"

definition VoteState_StartNewRound :: "round \<Rightarrow> VoteState \<Rightarrow> VoteState" where
  "VoteState_StartNewRound newRound v =
     v\<lparr>vs_earliestRound := newRound,
       vs_pendingVotes := (\<lambda>r. if r < newRound then None else vs_pendingVotes v r)\<rparr>"

section \<open>No-endorsements\<close>

record roundNEState =
  rn_qcRoundNEs :: "round \<rightharpoonup> bucket"
  rn_nodeNEs :: "node_id \<rightharpoonup> bls_sig set"
  rn_invalidSenders :: "node_id set"
  rn_certificate :: "NoEndorsementCertificate option"

definition newRoundNEState :: roundNEState where
  "newRoundNEState = \<lparr>rn_qcRoundNEs = Map.empty, rn_nodeNEs = Map.empty, rn_invalidSenders = {},
     rn_certificate = None\<rparr>"

record NoEndorsementState =
  nes_pending :: "round \<rightharpoonup> roundNEState"
  nes_earliestRound :: round

definition NewNoEndorsementState :: "round \<Rightarrow> NoEndorsementState" where
  "NewNoEndorsementState round = \<lparr>nes_pending = Map.empty, nes_earliestRound = round\<rparr>"

definition ProcessNoEndorsement :: "crypto \<Rightarrow> node_id \<Rightarrow> NoEndorsementMessage \<Rightarrow> ValidatorSet \<Rightarrow> ValidatorMapping
    \<Rightarrow> NoEndorsementState \<Rightarrow> ('e, NoEndorsementState \<times> NoEndorsementCertificate option) go" where
  "ProcessNoEndorsement cr author msg validators mapping n =
     (let ne = nm_Msg msg; round = ne_Round ne in
      if round < nes_earliestRound n then Ok (n, None) else
      let rs = (case nes_pending n round of Some rs \<Rightarrow> rs | None \<Rightarrow> newRoundNEState);
          nv = (case rn_nodeNEs rs author of Some nv \<Rightarrow> nv | None \<Rightarrow> {});
          rp = (case rn_qcRoundNEs rs (ne_TipQcRound ne) of Some rp \<Rightarrow> rp | None \<Rightarrow> []);
          rs = rs\<lparr>rn_nodeNEs := (rn_nodeNEs rs)(author \<mapsto> insert (nm_Signature msg) nv),
                  rn_qcRoundNEs := (rn_qcRoundNEs rs)(ne_TipQcRound ne \<mapsto> rp)\<rparr>;
          n = n\<lparr>nes_pending := (nes_pending n)(round \<mapsto> rs)\<rparr> in
      if author \<in> rn_invalidSenders rs then Ok (n, None) else
      let rp = aput author \<lparr>ve_nodeId = author, ve_sig = nm_Signature msg\<rparr> rp in
      go_bind (certify_loop (Suc (length rp)) cr DomainNoEndorsement (NoEndorsement_EncodeRLP [] ne) validators mapping rp
                 (rn_invalidSenders rs)) (\<lambda>(sc, rp, invalid).
        let rs = rs\<lparr>rn_qcRoundNEs := (rn_qcRoundNEs rs)(ne_TipQcRound ne \<mapsto> rp), rn_invalidSenders := invalid\<rparr> in
        case sc of
          None \<Rightarrow> Ok (n\<lparr>nes_pending := (nes_pending n)(round \<mapsto> rs)\<rparr>, None)
        | Some sc \<Rightarrow> let nec = \<lparr>nec_Msg = ne, nec_Signatures = sc\<rparr> in
            Ok (n\<lparr>nes_pending := (nes_pending n)(round \<mapsto> rs\<lparr>rn_certificate := Some nec\<rparr>),
                   nes_earliestRound := round + 1\<rparr>, Some nec)))"

definition NoEndorsementState_StartNewRound :: "round \<Rightarrow> NoEndorsementState \<Rightarrow> NoEndorsementState" where
  "NoEndorsementState_StartNewRound newRound n =
     n\<lparr>nes_earliestRound := (if newRound > nes_earliestRound n then newRound else nes_earliestRound n),
       nes_pending := (\<lambda>r. if r < newRound then None else nes_pending n r)\<rparr>"

definition GetNec :: "round \<Rightarrow> NoEndorsementState \<Rightarrow> NoEndorsementCertificate option" where
  "GetNec round n = (case nes_pending n round of None \<Rightarrow> None | Some rs \<Rightarrow> rn_certificate rs)"

section \<open>Buckets\<close>

abbreviation bucket_inv :: "bucket \<Rightarrow> bool" where
  "bucket_inv \<equiv> keyed ve_nodeId"

lemmas bucket_nodes = map_keyed[where key = ve_nodeId]

lemma fst_bucket_sigs: "bucket_inv b \<Longrightarrow> map fst (bucket_sigs b) = akeys b"
  by (auto simp: keyed_def akeys_def bucket_sigs_def)

lemma set_fst_bucket_sigs: "bucket_inv b \<Longrightarrow> fst ` set (bucket_sigs b) = set (akeys b)"
  using fst_bucket_sigs[of b] by (metis list.set_map)

lemma filter_bad_shorter:
  assumes "bucket_inv b" and "bad \<noteq> []" and "set bad \<subseteq> set (bucket_sigs b)"
  shows "length (filter (\<lambda>(k, e). k \<notin> fst ` set bad) b) < length b"
  using assms set_fst_bucket_sigs[OF assms(1)] by (intro keyed_drop_shorter[OF assms(1)]) auto

section \<open>The loop returns\<close>

lemma certify_loop_returns:
  assumes "wf_stake (vs_totalStake validators)" and "wf_mapping mapping" and "bucket_inv b" and "length b < n"
  shows "\<exists>sc b' invalid'. (certify_loop n cr domain enc validators mapping b invalid :: ('e, _) go) = Ok (sc, b', invalid')
    \<and> bucket_inv b'"
  using assms(3,4)
proof (induction n arbitrary: b invalid)
  case (Suc n)
  show ?case
  proof (rule HasVotes_total[OF assms(1), of "map (\<lambda>(k, e). ve_nodeId e) b"])
    fix sm
    assume ok: "HasSuperMajorityVotes validators (map (\<lambda>(k, e). ve_nodeId e) b) = Ok sm"
    show ?thesis
    proof (cases "sm \<and> b \<noteq> []")
      case True
      then have ne: "bucket_sigs b \<noteq> []" by (simp add: bucket_sigs_def)
      show ?thesis
      proof (cases "fst ` set (bucket_sigs b) \<subseteq> set (vm_nodeIds mapping)")
        case sub: True
        have d: "distinct (map fst (bucket_sigs b))"
          using fst_bucket_sigs[OF Suc.prems(1)] Suc.prems(1) by (simp add: keyed_def)
        let ?bad = "filter (\<lambda>(n, s). \<not> sig_valid cr domain mapping enc n s) (bucket_sigs b)"
        consider c where "sigcol_New cr domain (bucket_sigs b) mapping enc = Ok c"
          | "sigcol_New cr domain (bucket_sigs b) mapping enc = Err ErrInvalidSignatures"
          | "sigcol_New cr domain (bucket_sigs b) mapping enc = Err (InvalidSignaturesCreate ?bad)" "?bad \<noteq> []"
          using sigcol_New_distinct[OF assms(2) d ne sub, of cr domain enc] by (auto simp: Let_def split: if_splits)
        then show ?thesis
        proof cases
          case 3
          have "length (filter (\<lambda>(k, e). k \<notin> fst ` set ?bad) b) < length b"
            by (rule filter_bad_shorter[OF Suc.prems(1) 3(2)]) auto
          then show ?thesis
            using Suc.IH[of "filter (\<lambda>(k, e). k \<notin> fst ` set ?bad) b" "invalid \<union> fst ` set ?bad"] Suc.prems True
            by (auto simp: ok 3 intro: keyed_filter)
        qed (use Suc.prems True in \<open>auto simp: ok\<close>)
      next
        case False
        then obtain e where "sigcol_New cr domain (bucket_sigs b) mapping enc = Err e" "\<forall>bad. e \<noteq> InvalidSignaturesCreate bad"
          using sigcol_New_missing[OF assms(2)] by blast
        then show ?thesis using Suc.prems True by (cases e) (auto simp: ok)
      qed
    next
      case False
      then have "sm \<Longrightarrow> sigcol_New cr domain (bucket_sigs b) mapping enc
          = Ok \<lparr>sc_Signers = NewSignerMap (length (vm_nodeIds mapping)),
                sc_Sig = BlsSignatureUncompress cr BlsSignatureInfinity, sc_RawSig = BlsSignatureInfinity\<rparr>"
        by (simp add: sigcol_New_def bucket_sigs_def)
      then show ?thesis using Suc.prems by (cases sm) (simp_all add: ok)
    qed
  qed (use Suc.prems in auto)
qed simp

section \<open>What the loop certifies\<close>

lemma certify_loop_sound:
  assumes "(certify_loop n cr domain enc validators mapping b invalid :: ('e, _) go) = Ok (Some sc, b', invalid')"
    and "bucket_inv b"
  shows "bucket_inv b' \<and> HasSuperMajorityVotes validators (akeys b') = Ok True
    \<and> sigcol_New cr domain (bucket_sigs b') mapping enc = Ok sc"
  using assms
proof (induction n arbitrary: b invalid)
  case (Suc n)
  let ?keep = "\<lambda>bad. filter (\<lambda>(k, e). k \<notin> fst ` set bad) b"
  have sm: "HasSuperMajorityVotes validators (akeys b) = Ok True"
    using Suc.prems bucket_nodes[OF Suc.prems(2)] by (auto split: go.splits bool.splits)
  note step = Suc.prems(1)[unfolded certify_loop.simps bucket_nodes[OF Suc.prems(2)] sm]
  show ?case
  proof (cases "sigcol_New cr domain (bucket_sigs b) mapping enc")
    case (Ok c)
    then show ?thesis using step sm Suc.prems(2) by simp
  next
    case (Err e)
    then obtain bad where "e = InvalidSignaturesCreate bad" using step by (cases e) simp_all
    with Err step have "(certify_loop n cr domain enc validators mapping (?keep bad) (invalid \<union> fst ` set bad) :: ('e, _) go)
        = Ok (Some sc, b', invalid')" by simp
    then show ?thesis by (rule Suc.IH) (use Suc.prems(2) in blast)
  qed (use step in simp_all)
qed simp

lemma certificate_verifies:
  assumes loop: "(certify_loop n cr domain enc validators mapping b invalid :: ('e, _) go) = Ok (Some sc, b', invalid')"
    and inv: "bucket_inv b" "stakes_inv validators" "total_fits validators" "wf_mapping mapping"
    and bls: "bls_aggregation cr" "length (vm_nodeIds mapping) \<le> MaxSignersLen" "\<not> BlsSignature_IsInfinity (sc_RawSig sc)"
  shows "\<exists>signers. sigcol_Verify cr sc domain mapping enc = Ok signers
    \<and> HasSuperMajorityVotes validators signers = Ok True \<and> set signers = set (akeys b')"
proof -
  note s = certify_loop_sound[OF loop inv(1)]
  have "b' \<noteq> []"
    using s HasSuperMajorityVotes_weight[OF inv(2,3), of "[]"] by (auto simp: akeys_def weight_def)
  then have ne: "bucket_sigs b' \<noteq> []" by (simp add: bucket_sigs_def)
  let ?A = "filter (\<lambda>x. x \<in> fst ` set (bucket_sigs b')) (vm_nodeIds mapping)"
  have v: "sigcol_Verify cr sc domain mapping enc = Ok ?A"
    using s by (intro sigcol_New_Verify[OF _ inv(4) ne bls]) blast
  have "set (akeys b') \<subseteq> set (vm_nodeIds mapping)"
    using s sigcol_New_missing[OF inv(4), of "bucket_sigs b'" cr domain enc] set_fst_bucket_sigs by fastforce
  then have A: "set ?A = set (akeys b')" using s set_fst_bucket_sigs[of b'] by auto
  moreover have "distinct ?A" using inv(4) by (simp add: wf_mapping_def)
  ultimately have "HasSuperMajorityVotes validators ?A = Ok True"
    using s unfolding HasSuperMajorityVotes_iff[OF inv(2,3)] by simp
  with v A show ?thesis by blast
qed

text \<open>
  The documented behaviour of aggregation on one message: signatures that verify on their own verify
  together.
\<close>

definition bls_complete :: "crypto \<Rightarrow> bool" where
  "bls_complete cr \<longleftrightarrow> (\<forall>domain msg ps. ps \<noteq> [] \<longrightarrow> (\<forall>(pk, s)\<in>set ps. BlsSignature_Verify cr s domain msg pk) \<longrightarrow>
     FastAggregateVerifyPreAggregated cr (blst_P2_Aggregate cr (map snd ps)) domain msg (blst_P1_Aggregate cr (map fst ps)))"

definition entry_valid :: "crypto \<Rightarrow> bytes \<Rightarrow> ValidatorMapping \<Rightarrow> bytes \<Rightarrow> node_id \<times> voteEntry \<Rightarrow> bool" where
  "entry_valid cr domain mapping enc = (\<lambda>(k, e). sig_valid cr domain mapping enc (ve_nodeId e) (ve_sig e))"

lemma sigcol_New_all_valid:
  assumes "wf_mapping m" and "distinct (map fst sigs)" and "sigs \<noteq> []" and "fst ` set sigs \<subseteq> set (vm_nodeIds m)"
    and "bls_complete cr" and "\<forall>(n, s)\<in>set sigs. sig_valid cr domain m msg n s"
  shows "\<exists>c. sigcol_New cr domain sigs m msg = Ok c"
proof -
  let ?ps = "map (\<lambda>(n, s). (the (vm_pubs m n), s)) sigs"
  have "?ps \<noteq> []" using assms(3) by simp
  moreover have "\<forall>(pk, s)\<in>set ?ps. BlsSignature_Verify cr s domain msg pk"
    using assms(6) by (force simp: sig_valid_def split: option.splits)
  moreover have "map snd ?ps = map snd sigs" "map fst ?ps = map (\<lambda>(n, s). the (vm_pubs m n)) sigs"
    by (auto simp: case_prod_beta)
  ultimately have "FastAggregateVerifyPreAggregated cr (blst_P2_Aggregate cr (map snd sigs)) domain msg
      (blst_P1_Aggregate cr (map (\<lambda>(n, s). the (vm_pubs m n)) sigs))"
    using assms(5) unfolding bls_complete_def by metis
  then show ?thesis using sigcol_New_distinct[OF assms(1-4), of cr domain msg] by auto
qed

lemma sigcol_New_complete:
  assumes "wf_mapping m" and "distinct (map fst sigs)" and "sigs \<noteq> []" and "fst ` set sigs \<subseteq> set (vm_nodeIds m)"
    and "bls_complete cr"
  obtains (ok) c where "sigcol_New cr domain sigs m msg = Ok c"
  | (bad) "sigcol_New cr domain sigs m msg
      = Err (InvalidSignaturesCreate (filter (\<lambda>(n, s). \<not> sig_valid cr domain m msg n s) sigs))"
    "filter (\<lambda>(n, s). \<not> sig_valid cr domain m msg n s) sigs \<noteq> []"
proof (cases "filter (\<lambda>(n, s). \<not> sig_valid cr domain m msg n s) sigs = []")
  case True
  then have "\<forall>(n, s)\<in>set sigs. sig_valid cr domain m msg n s" by (auto simp: filter_empty_conv)
  then show ?thesis using sigcol_New_all_valid[OF assms] ok by blast
next
  case False
  then show ?thesis
    using sigcol_New_distinct[OF assms(1-4), of cr domain msg] ok bad by (auto simp: Let_def split: if_splits)
qed

lemma super_majority_mono:
  assumes "stakes_inv v" "total_fits v" "HasSuperMajorityVotes v A = Ok True" "set A \<subseteq> set B" "distinct B"
  shows "HasSuperMajorityVotes v B = Ok True"
proof -
  have "weight v (set A) \<le> weight v (set B)" by (rule weight_mono[OF finite_stakes[OF assms(1)] assms(4)])
  then show ?thesis
    using assms(3,5) unfolding HasSuperMajorityVotes_iff[OF assms(1,2)] super_majority_def by simp
qed

lemma filter_bad_valid:
  assumes "bucket_inv b"
  shows "filter (\<lambda>(k, e). k \<notin> fst ` set (filter (\<lambda>(n, s). \<not> sig_valid cr domain mapping enc n s) (bucket_sigs b))) b
    = filter (entry_valid cr domain mapping enc) b"
proof (rule filter_cong[OF refl])
  let ?bad = "filter (\<lambda>(n, s). \<not> sig_valid cr domain mapping enc n s) (bucket_sigs b)"
  fix x assume x: "x \<in> set b"
  obtain k e where ke: "x = (k, e)" by (cases x)
  have n: "ve_nodeId e = k" using x ke assms by (auto simp: keyed_def)
  have mem: "(k, ve_sig e) \<in> set (bucket_sigs b)"
    using x ke n unfolding bucket_sigs_def by (force intro: rev_image_eqI)
  have "distinct (map fst (bucket_sigs b))" using fst_bucket_sigs[OF assms] assms by (simp add: keyed_def)
  then have s: "(k, s) \<in> set (bucket_sigs b) \<longleftrightarrow> s = ve_sig e" for s
    using eq_key_imp_eq_value[of "bucket_sigs b" k s "ve_sig e"] mem by blast
  have "k \<in> fst ` set ?bad \<longleftrightarrow> (\<exists>s. (k, s) \<in> set (bucket_sigs b) \<and> \<not> sig_valid cr domain mapping enc k s)"
    by (simp only: set_filter image_iff) force
  with n show "(case x of (k, e) \<Rightarrow> k \<notin> fst ` set ?bad) = entry_valid cr domain mapping enc x"
    by (simp add: ke entry_valid_def s)
qed

text \<open>Invalid signatures cannot keep a super-majority of valid ones from forming a certificate.\<close>

lemma certify_loop_complete:
  assumes inv: "bucket_inv b" "stakes_inv validators" "total_fits validators" "wf_mapping mapping" "bls_complete cr"
    and sub: "set (akeys b) \<subseteq> set (vm_nodeIds mapping)"
    and sm: "HasSuperMajorityVotes validators (akeys (filter (entry_valid cr domain mapping enc) b)) = Ok True"
  shows "\<exists>sc b' invalid'. (certify_loop (Suc (Suc n)) cr domain enc validators mapping b invalid :: ('e, _) go)
    = Ok (Some sc, b', invalid')"
proof -
  let ?good = "filter (entry_valid cr domain mapping enc) b"
  let ?bad = "filter (\<lambda>(n, s). \<not> sig_valid cr domain mapping enc n s) (bucket_sigs b)"
  have good: "bucket_inv ?good" using inv(1) by blast
  have "?good \<noteq> []"
    using sm HasSuperMajorityVotes_weight[OF inv(2,3), of "[]"] by (auto simp: akeys_def weight_def)
  then have ne: "b \<noteq> []" "bucket_sigs b \<noteq> []" "bucket_sigs ?good \<noteq> []" by (auto simp: bucket_sigs_def)
  have d: "distinct (map fst (bucket_sigs b))" "distinct (map fst (bucket_sigs ?good))"
    using fst_bucket_sigs[OF inv(1)] fst_bucket_sigs[OF good] inv(1) good by (simp_all add: keyed_def)
  have subg: "set (akeys ?good) \<subseteq> set (akeys b)" by (auto simp: akeys_def)
  have smb: "HasSuperMajorityVotes validators (akeys b) = Ok True"
    using super_majority_mono[OF inv(2,3) sm subg] inv(1) by (simp add: keyed_def)
  note keep = filter_bad_valid[OF inv(1), of cr domain mapping enc]
  have okg: "\<exists>c. sigcol_New cr domain (bucket_sigs ?good) mapping enc = Ok c"
    using sub subg set_fst_bucket_sigs[OF good]
    by (intro sigcol_New_all_valid[OF inv(4) d(2) ne(3) _ inv(5)]) (auto simp: bucket_sigs_def entry_valid_def)
  have subs: "fst ` set (bucket_sigs b) \<subseteq> set (vm_nodeIds mapping)" using sub set_fst_bucket_sigs[OF inv(1)] by simp
  show ?thesis
  proof (cases rule: sigcol_New_complete[OF inv(4) d(1) ne(2) subs inv(5), of domain enc, case_names ok bad])
    case bad
    from okg obtain c where c: "sigcol_New cr domain (bucket_sigs ?good) mapping enc = Ok c" ..
    show ?thesis
      by (simp only: certify_loop.simps bucket_nodes[OF inv(1)] smb bad(1) go.case bool.case sigcol_error.case keep
          bucket_nodes[OF good] sm c) simp
  qed (simp add: bucket_nodes[OF inv(1)] smb)
qed

section \<open>The vote state\<close>

definition pending_bucket :: "VoteState \<Rightarrow> Vote \<Rightarrow> bucket" where
  "pending_bucket v vote = (case vs_pendingVotes v (v_Round vote) of None \<Rightarrow> []
     | Some rs \<Rightarrow> (case rv_pendingVotes rs vote of None \<Rightarrow> [] | Some b \<Rightarrow> b))"

definition invalid_voters :: "VoteState \<Rightarrow> round \<Rightarrow> node_id set" where
  "invalid_voters v r = (case vs_pendingVotes v r of None \<Rightarrow> {} | Some rs \<Rightarrow> rv_invalidVoters rs)"

definition VoteState_inv :: "VoteState \<Rightarrow> bool" where
  "VoteState_inv v \<longleftrightarrow> (\<forall>r rs vote b. vs_pendingVotes v r = Some rs \<longrightarrow> rv_pendingVotes rs vote = Some b \<longrightarrow> bucket_inv b)"

abbreviation vote_bucket :: "node_id \<Rightarrow> VoteMessage \<Rightarrow> VoteState \<Rightarrow> bucket" where
  "vote_bucket author m v \<equiv> aput author \<lparr>ve_nodeId = author, ve_sig = vm_Sig m\<rparr> (pending_bucket v (vm_Vote m))"

lemma pending_bucket_inv: "VoteState_inv v \<Longrightarrow> bucket_inv (pending_bucket v vote)"
  by (auto simp: VoteState_inv_def pending_bucket_def split: option.splits)

lemma VoteState_inv_put:
  assumes "VoteState_inv v" and "\<And>vote b. rv_pendingVotes rs vote = Some b \<Longrightarrow> bucket_inv b"
  shows "VoteState_inv (v\<lparr>vs_pendingVotes := (vs_pendingVotes v)(r \<mapsto> rs)\<rparr>)"
  using assms by (auto simp: VoteState_inv_def)

lemma ProcessVote_stale:
  "v_Round (vm_Vote m) < vs_earliestRound v \<Longrightarrow> ProcessVote cr author m validators mapping v = Ok (v, None)"
  by (simp add: ProcessVote_def Let_def)

text \<open>The state and the certificate after the loop.\<close>

definition finish_vote :: "VoteState \<Rightarrow> roundVoteState \<Rightarrow> Vote \<Rightarrow> BlsSignatureCollection option \<times> bucket \<times> node_id set
    \<Rightarrow> VoteState \<times> QuorumCertificate option" where
  "finish_vote v rs vote = (\<lambda>(sc, b, invalid).
     let v1 = v\<lparr>vs_pendingVotes := (vs_pendingVotes v)(v_Round vote \<mapsto>
           rs\<lparr>rv_pendingVotes := (rv_pendingVotes rs)(vote \<mapsto> b), rv_invalidVoters := invalid\<rparr>)\<rparr> in
     case sc of None \<Rightarrow> (v1, None)
     | Some sc \<Rightarrow> (v1\<lparr>vs_earliestRound := v_Round vote + 1\<rparr>, Some \<lparr>qc_Info = vote, qc_Signatures = sc\<rparr>))"

definition round_state_inv :: "roundVoteState \<Rightarrow> bool" where
  "round_state_inv rs \<longleftrightarrow> (\<forall>vote b. rv_pendingVotes rs vote = Some b \<longrightarrow> bucket_inv b)"

lemma finish_vote_inv:
  assumes "VoteState_inv v" "round_state_inv rs" "bucket_inv b"
  shows "VoteState_inv (fst (finish_vote v rs vote (sc, b, invalid)))"
proof -
  have "VoteState_inv (v\<lparr>vs_pendingVotes := (vs_pendingVotes v)(v_Round vote \<mapsto>
      rs\<lparr>rv_pendingVotes := (rv_pendingVotes rs)(vote \<mapsto> b), rv_invalidVoters := invalid\<rparr>)\<rparr>)"
    using assms(2,3) by (intro VoteState_inv_put[OF assms(1)]) (auto simp: round_state_inv_def split: if_splits)
  then show ?thesis by (cases sc) (simp_all add: finish_vote_def VoteState_inv_def)
qed

lemma finish_vote_qc:
  "snd (finish_vote v rs vote (sc, b, invalid)) = map_option (\<lambda>sc. \<lparr>qc_Info = vote, qc_Signatures = sc\<rparr>) sc"
  "vs_earliestRound (fst (finish_vote v rs vote (sc, b, invalid)))
     = (if sc = None then vs_earliestRound v else v_Round vote + 1)"
  by (cases sc; simp add: finish_vote_def)+

lemma ProcessVote_fresh:
  assumes "vs_earliestRound v \<le> v_Round (vm_Vote m)" and "VoteState_inv v"
  obtains v0 rs where "VoteState_inv v0" "vs_earliestRound v0 = vs_earliestRound v" "round_state_inv rs"
    and "(ProcessVote cr author m validators mapping v :: ('e, _) go) =
      (if author \<in> invalid_voters v (v_Round (vm_Vote m)) then Ok (v0, None) else
       go_bind (certify_loop (Suc (length (vote_bucket author m v))) cr DomainVote (Vote_EncodeRLP [] (vm_Vote m))
                  validators mapping (vote_bucket author m v) (invalid_voters v (v_Round (vm_Vote m))))
         (\<lambda>x. Ok (finish_vote v0 rs (vm_Vote m) x)))"
proof -
  let ?r = "v_Round (vm_Vote m)" and ?vt = "vm_Vote m"
  define rs0 where "rs0 = (case vs_pendingVotes v ?r of Some rs \<Rightarrow> rs | None \<Rightarrow> newRoundVoteState)"
  define nv where "nv = (case rv_nodeVotes rs0 author of Some nv \<Rightarrow> nv | None \<Rightarrow> {})"
  define rs where "rs = rs0\<lparr>rv_nodeVotes := (rv_nodeVotes rs0)(author \<mapsto> insert (vm_Sig m) nv),
      rv_pendingVotes := (rv_pendingVotes rs0)(?vt \<mapsto> pending_bucket v ?vt)\<rparr>"
  define v0 where "v0 = v\<lparr>vs_pendingVotes := (vs_pendingVotes v)(?r \<mapsto> rs)\<rparr>"
  have b0: "(case rv_pendingVotes rs0 ?vt of Some rpv \<Rightarrow> rpv | None \<Rightarrow> []) = pending_bucket v ?vt"
    by (auto simp: rs0_def pending_bucket_def newRoundVoteState_def split: option.splits)
  have inv: "rv_invalidVoters rs = invalid_voters v ?r"
    by (auto simp: rs_def rs0_def invalid_voters_def newRoundVoteState_def split: option.splits)
  have rs0: "bucket_inv b" if "rv_pendingVotes rs0 vote = Some b" for vote b
    using that assms(2) by (auto simp: rs0_def VoteState_inv_def newRoundVoteState_def split: option.splits)
  have rsi: "round_state_inv rs"
    using rs0 pending_bucket_inv[OF assms(2)] by (auto simp: round_state_inv_def rs_def)
  have v0: "VoteState_inv v0"
    unfolding v0_def using rsi by (intro VoteState_inv_put[OF assms(2)]) (auto simp: round_state_inv_def)
  have "(ProcessVote cr author m validators mapping v :: ('e, _) go) =
      (if author \<in> invalid_voters v ?r then Ok (v0, None) else
       go_bind (certify_loop (Suc (length (vote_bucket author m v))) cr DomainVote (Vote_EncodeRLP [] ?vt)
                  validators mapping (vote_bucket author m v) (invalid_voters v ?r))
         (\<lambda>(sc, b, invalid).
            let v1 = v0\<lparr>vs_pendingVotes := (vs_pendingVotes v0)(?r \<mapsto>
                  rs\<lparr>rv_pendingVotes := (rv_pendingVotes rs)(?vt \<mapsto> b), rv_invalidVoters := invalid\<rparr>)\<rparr> in
            case sc of None \<Rightarrow> Ok (v1, None)
            | Some sc \<Rightarrow> Ok (v1\<lparr>vs_earliestRound := ?r + 1\<rparr>, Some \<lparr>qc_Info = ?vt, qc_Signatures = sc\<rparr>)))"
    using assms(1)
    by (simp only: ProcessVote_def Let_def not_less[symmetric] if_False rs0_def[symmetric] nv_def[symmetric] b0
        rs_def[symmetric] v0_def[symmetric] inv)
  also have "(\<lambda>(sc, b, invalid).
            let v1 = v0\<lparr>vs_pendingVotes := (vs_pendingVotes v0)(?r \<mapsto>
                  rs\<lparr>rv_pendingVotes := (rv_pendingVotes rs)(?vt \<mapsto> b), rv_invalidVoters := invalid\<rparr>)\<rparr> in
            case sc of None \<Rightarrow> Ok (v1, None)
            | Some sc \<Rightarrow> Ok (v1\<lparr>vs_earliestRound := ?r + 1\<rparr>, Some \<lparr>qc_Info = ?vt, qc_Signatures = sc\<rparr>))
      = (\<lambda>x. (Ok (finish_vote v0 rs ?vt x) :: ('e, _) go))"
    by (auto simp: fun_eq_iff finish_vote_def Let_def split: option.splits)
  finally show ?thesis using that[of v0 rs] rsi v0 by (simp add: v0_def)
qed

lemma vote_bucket_inv: "VoteState_inv v \<Longrightarrow> bucket_inv (vote_bucket author m v)"
  using pending_bucket_inv by (intro keyed_aput) simp_all

lemma ProcessVote_returns_inv:
  assumes "VoteState_inv v" and "wf_stake (vs_totalStake validators)" and "wf_mapping mapping"
  shows "\<exists>v' qc. (ProcessVote cr author m validators mapping v :: ('e, _) go) = Ok (v', qc) \<and> VoteState_inv v'"
proof (cases "vs_earliestRound v \<le> v_Round (vm_Vote m)")
  case True
  show ?thesis
  proof (rule ProcessVote_fresh[OF True assms(1), where ?'e = 'e, of cr author validators mapping])
    fix v0 rs
    assume v0: "VoteState_inv v0" "round_state_inv rs"
      and eq: "(ProcessVote cr author m validators mapping v :: ('e, _) go) =
      (if author \<in> invalid_voters v (v_Round (vm_Vote m)) then Ok (v0, None) else
       go_bind (certify_loop (Suc (length (vote_bucket author m v))) cr DomainVote (Vote_EncodeRLP [] (vm_Vote m))
                  validators mapping (vote_bucket author m v) (invalid_voters v (v_Round (vm_Vote m))))
         (\<lambda>x. Ok (finish_vote v0 rs (vm_Vote m) x)))"
    obtain sc b' invalid' where loop: "(certify_loop (Suc (length (vote_bucket author m v))) cr DomainVote
        (Vote_EncodeRLP [] (vm_Vote m)) validators mapping (vote_bucket author m v)
        (invalid_voters v (v_Round (vm_Vote m))) :: ('e, _) go) = Ok (sc, b', invalid')" "bucket_inv b'"
      using certify_loop_returns[OF assms(2,3) vote_bucket_inv[OF assms(1)]] by (metis lessI)
    show ?thesis
      using v0(1) finish_vote_inv[OF v0 loop(2)] unfolding eq loop(1) by (auto simp: prod_eq_iff)
  qed
qed (use assms in \<open>auto simp: ProcessVote_stale not_le\<close>)

lemma ProcessVote_Some:
  assumes "(ProcessVote cr author m validators mapping v :: ('e, _) go) = Ok (v', Some qc)" and "VoteState_inv v"
  obtains sc b' invalid' where "(certify_loop (Suc (length (vote_bucket author m v))) cr DomainVote
        (Vote_EncodeRLP [] (vm_Vote m)) validators mapping (vote_bucket author m v)
        (invalid_voters v (v_Round (vm_Vote m))) :: ('e, _) go) = Ok (Some sc, b', invalid')"
    and "qc = \<lparr>qc_Info = vm_Vote m, qc_Signatures = sc\<rparr>" and "vs_earliestRound v' = v_Round (vm_Vote m) + 1"
proof -
  have fresh: "vs_earliestRound v \<le> v_Round (vm_Vote m)"
    using assms(1) by (rule_tac ccontr) (simp add: ProcessVote_stale not_le)
  show ?thesis
  proof (rule ProcessVote_fresh[OF fresh assms(2), where ?'e = 'e, of cr author validators mapping])
    fix v0 rs
    assume eq: "(ProcessVote cr author m validators mapping v :: ('e, _) go) =
      (if author \<in> invalid_voters v (v_Round (vm_Vote m)) then Ok (v0, None) else
       go_bind (certify_loop (Suc (length (vote_bucket author m v))) cr DomainVote (Vote_EncodeRLP [] (vm_Vote m))
                  validators mapping (vote_bucket author m v) (invalid_voters v (v_Round (vm_Vote m))))
         (\<lambda>x. Ok (finish_vote v0 rs (vm_Vote m) x)))"
    from assms(1)[unfolded eq] obtain x where x: "(certify_loop (Suc (length (vote_bucket author m v))) cr DomainVote
        (Vote_EncodeRLP [] (vm_Vote m)) validators mapping (vote_bucket author m v)
        (invalid_voters v (v_Round (vm_Vote m))) :: ('e, _) go) = Ok x"
      "finish_vote v0 rs (vm_Vote m) x = (v', Some qc)"
      by (auto simp: go_simps split: if_splits)
    obtain sc b' invalid' where e: "x = (sc, b', invalid')" by (cases x)
    from x(2) e finish_vote_qc[of v0 rs "vm_Vote m" sc b' invalid'] obtain sc' where
      "sc = Some sc'" "qc = \<lparr>qc_Info = vm_Vote m, qc_Signatures = sc'\<rparr>" "vs_earliestRound v' = v_Round (vm_Vote m) + 1"
      by (cases sc) auto
    with x(1) e show ?thesis using that by blast
  qed
qed

section \<open>No-endorsements form certificates the same way\<close>

definition NoEndorsementState_inv :: "NoEndorsementState \<Rightarrow> bool" where
  "NoEndorsementState_inv n \<longleftrightarrow>
     (\<forall>r rs q b. nes_pending n r = Some rs \<longrightarrow> rn_qcRoundNEs rs q = Some b \<longrightarrow> bucket_inv b)"

lemma ProcessNoEndorsement_Some:
  assumes "(ProcessNoEndorsement cr author m validators mapping n :: ('e, _) go) = Ok (n', Some nec)"
    and "NoEndorsementState_inv n"
  obtains sc b b' invalid invalid' where "(certify_loop (Suc (length b)) cr DomainNoEndorsement
        (NoEndorsement_EncodeRLP [] (nm_Msg m)) validators mapping b invalid :: ('e, _) go) = Ok (Some sc, b', invalid')"
    and "bucket_inv b" and "nec = \<lparr>nec_Msg = nm_Msg m, nec_Signatures = sc\<rparr>"
    and "nes_earliestRound n' = ne_Round (nm_Msg m) + 1" and "GetNec (ne_Round (nm_Msg m)) n' = Some nec"
proof -
  let ?r = "ne_Round (nm_Msg m)" and ?q = "ne_TipQcRound (nm_Msg m)"
  define rs0 where "rs0 = (case nes_pending n ?r of Some rs \<Rightarrow> rs | None \<Rightarrow> newRoundNEState)"
  define b0 where "b0 = (case rn_qcRoundNEs rs0 ?q of Some rp \<Rightarrow> rp | None \<Rightarrow> [])"
  define b where "b = aput author \<lparr>ve_nodeId = author, ve_sig = nm_Signature m\<rparr> b0"
  have "bucket_inv b0"
    using assms(2) unfolding NoEndorsementState_inv_def
    by (auto simp: b0_def rs0_def newRoundNEState_def split: option.splits)
  then have b: "bucket_inv b" unfolding b_def by (rule keyed_aput) simp
  from assms(1) obtain sc b' invalid' where
    "(certify_loop (Suc (length b)) cr DomainNoEndorsement (NoEndorsement_EncodeRLP [] (nm_Msg m)) validators mapping b
        (rn_invalidSenders rs0) :: ('e, _) go) = Ok (Some sc, b', invalid')"
    "nec = \<lparr>nec_Msg = nm_Msg m, nec_Signatures = sc\<rparr>" "nes_earliestRound n' = ?r + 1" "GetNec ?r n' = Some nec"
    unfolding ProcessNoEndorsement_def rs0_def[symmetric] b0_def[symmetric] Let_def b_def[symmetric]
    by (auto simp: go_simps GetNec_def b_def b0_def split: if_splits option.splits)
  then show ?thesis using that b by blast
qed

lemma ProcessVote_complete:
  assumes "VoteState_inv v" "stakes_inv validators" "total_fits validators" "wf_mapping mapping" "bls_complete cr"
    and "vs_earliestRound v \<le> v_Round (vm_Vote m)" and "author \<notin> invalid_voters v (v_Round (vm_Vote m))"
    and "set (akeys (vote_bucket author m v)) \<subseteq> set (vm_nodeIds mapping)"
    and "HasSuperMajorityVotes validators (akeys (filter
        (entry_valid cr DomainVote mapping (Vote_EncodeRLP [] (vm_Vote m))) (vote_bucket author m v))) = Ok True"
  shows "\<exists>v' qc. (ProcessVote cr author m validators mapping v :: ('e, _) go) = Ok (v', Some qc) \<and> qc_Info qc = vm_Vote m"
proof (rule ProcessVote_fresh[OF assms(6,1), where ?'e = 'e, of cr author validators mapping])
  fix v0 rs
  assume eq: "(ProcessVote cr author m validators mapping v :: ('e, _) go) =
      (if author \<in> invalid_voters v (v_Round (vm_Vote m)) then Ok (v0, None) else
       go_bind (certify_loop (Suc (length (vote_bucket author m v))) cr DomainVote (Vote_EncodeRLP [] (vm_Vote m))
                  validators mapping (vote_bucket author m v) (invalid_voters v (v_Round (vm_Vote m))))
         (\<lambda>x. Ok (finish_vote v0 rs (vm_Vote m) x)))"
  have "author \<in> set (akeys (vote_bucket author m v))" by simp
  then obtain k where k: "length (vote_bucket author m v) = Suc k"
    by (cases "vote_bucket author m v") (auto simp: akeys_def)
  obtain sc b' invalid' where "(certify_loop (Suc (length (vote_bucket author m v))) cr DomainVote
        (Vote_EncodeRLP [] (vm_Vote m)) validators mapping (vote_bucket author m v)
        (invalid_voters v (v_Round (vm_Vote m))) :: ('e, _) go) = Ok (Some sc, b', invalid')"
    unfolding k
    using certify_loop_complete[OF vote_bucket_inv[OF assms(1)] assms(2-5,8,9)] by blast
  then show ?thesis using assms(7) finish_vote_qc(1)[of v0 rs "vm_Vote m" "Some sc" b' invalid']
    unfolding eq by (cases "finish_vote v0 rs (vm_Vote m) (Some sc, b', invalid')") auto
qed

section \<open>Properties\<close>

text \<open>C13. Every quorum certificate that the vote state forms is sound: it is for the vote of the message that
  completed it, its signatures verify for that vote, and the signers hold a super-majority of the stake.\<close>

theorem formed_qc_verifies:
  assumes "(ProcessVote cr author m validators mapping v :: (unit, _) go) = Ok (v', Some qc)" and "VoteState_inv v"
    and "stakes_inv validators" and "total_fits validators" and "wf_mapping mapping" and "bls_aggregation cr"
    and "length (vm_nodeIds mapping) \<le> MaxSignersLen" and "\<not> BlsSignature_IsInfinity (sc_RawSig (qc_Signatures qc))"
  shows "qc_Info qc = vm_Vote m \<and> (\<exists>signers.
      sigcol_Verify cr (qc_Signatures qc) DomainVote mapping (Vote_EncodeRLP [] (qc_Info qc)) = Ok signers
      \<and> HasSuperMajorityVotes validators signers = Ok True)"
proof (rule ProcessVote_Some[OF assms(1,2)])
  fix sc b' invalid'
  assume loop: "(certify_loop (Suc (length (vote_bucket author m v))) cr DomainVote
        (Vote_EncodeRLP [] (vm_Vote m)) validators mapping (vote_bucket author m v)
        (invalid_voters v (v_Round (vm_Vote m))) :: (unit, _) go) = Ok (Some sc, b', invalid')"
    and qc: "qc = \<lparr>qc_Info = vm_Vote m, qc_Signatures = sc\<rparr>"
  from certificate_verifies[OF loop vote_bucket_inv[OF assms(2)] assms(3-7)] assms(8) qc show ?thesis by auto
qed

definition example_votes :: VoteState where
  "example_votes = \<lparr>vs_pendingVotes = [5 \<mapsto> \<lparr>rv_pendingVotes =
       [\<lparr>v_ID = replicate 32 7, v_Round = 5, v_Epoch = 1\<rparr> \<mapsto>
          [([1], \<lparr>ve_nodeId = [1], ve_sig = example_sig\<rparr>), ([2], \<lparr>ve_nodeId = [2], ve_sig = example_sig\<rparr>)]],
       rv_nodeVotes = Map.empty, rv_invalidVoters = {}\<rparr>], vs_earliestRound = 5\<rparr>"

definition example_vote :: VoteMessage where
  "example_vote = \<lparr>vm_Vote = \<lparr>v_ID = replicate 32 7, v_Round = 5, v_Epoch = 1\<rparr>, vm_Sig = example_sig\<rparr>"

lemma example_votes_inv: "VoteState_inv example_votes"
  by (auto simp: VoteState_inv_def example_votes_def keyed_def akeys_def split: if_splits)

lemma example_bls_complete: "bls_complete example_crypto"
  by (simp add: bls_complete_def FastAggregateVerifyPreAggregated_def)

lemma example_bucket: "akeys (vote_bucket [3] example_vote example_votes) = [[1], [2], [3]]"
  "akeys (filter (entry_valid example_crypto DomainVote example_mapping (Vote_EncodeRLP [] (vm_Vote example_vote)))
     (vote_bucket [3] example_vote example_votes)) = [[1], [2], [3]]"
  by (simp_all add: akeys_def pending_bucket_def example_votes_def example_vote_def entry_valid_def sig_valid_def
      example_mapping_fields BlsSignature_Verify_def)

lemma example_qc_forms:
  "\<exists>v' qc. (ProcessVote example_crypto [3] example_vote example_set example_mapping example_votes :: ('e, _) go)
     = Ok (v', Some qc) \<and> qc_Info qc = vm_Vote example_vote"
  by (rule ProcessVote_complete[OF example_votes_inv example_set_inv example_mapping_wf example_bls_complete])
    (simp_all only: example_bucket, simp_all add: invalid_voters_def example_votes_def example_vote_def
      example_mapping_fields HasSuperMajorityVotes_weight[OF example_set_inv] example_weight)

lemma example_qc_raw:
  assumes qc: "(ProcessVote example_crypto [3] example_vote example_set example_mapping example_votes :: (unit, _) go) = Ok (v', Some qc)"
  shows "sc_RawSig (qc_Signatures qc) = example_sig"
proof (rule ProcessVote_Some[OF qc example_votes_inv])
  fix sc b' invalid'
  assume loop: "(certify_loop (Suc (length (vote_bucket [3] example_vote example_votes))) example_crypto DomainVote
      (Vote_EncodeRLP [] (vm_Vote example_vote)) example_set example_mapping (vote_bucket [3] example_vote example_votes)
      (invalid_voters example_votes (v_Round (vm_Vote example_vote))) :: (unit, _) go) = Ok (Some sc, b', invalid')"
    and e: "qc = \<lparr>qc_Info = vm_Vote example_vote, qc_Signatures = sc\<rparr>"
  note s = certify_loop_sound[OF loop vote_bucket_inv[OF example_votes_inv]]
  have "b' \<noteq> []"
    using s HasSuperMajorityVotes_weight[OF example_set_inv, of "[]"] by (auto simp: akeys_def weight_def)
  then show ?thesis
    using s e sigcol_New_shape[OF _ example_mapping_wf, of example_crypto DomainVote "bucket_sigs b'"]
    by (auto simp: bucket_sigs_def)
qed

lemma formed_qc_verifies_witness:
  "\<exists>v' qc signers. (ProcessVote example_crypto [3] example_vote example_set example_mapping example_votes :: (unit, _) go)
       = Ok (v', Some qc)
     \<and> sigcol_Verify example_crypto (qc_Signatures qc) DomainVote example_mapping (Vote_EncodeRLP [] (qc_Info qc)) = Ok signers
     \<and> HasSuperMajorityVotes example_set signers = Ok True"
proof -
  obtain v' qc where qc: "(ProcessVote example_crypto [3] example_vote example_set example_mapping example_votes :: (unit, _) go)
      = Ok (v', Some qc)" using example_qc_forms by blast
  from formed_qc_verifies[OF qc example_votes_inv example_set_inv example_mapping_wf example_bls_aggregation] example_qc_raw[OF qc] qc
  show ?thesis by (auto simp: example_mapping_fields MaxSignersLen_def)
qed



text \<open>Processing a vote always returns: the retry loop ends for every bucket, nothing panics, and the
  invariant of the vote state is kept.\<close>

theorem ProcessVote_returns:
  assumes "VoteState_inv v" and "wf_stake (vs_totalStake validators)" and "wf_mapping mapping"
  shows "\<exists>v' qc. (ProcessVote cr author m validators mapping v :: (unit, _) go) = Ok (v', qc) \<and> VoteState_inv v'"
  using assms by (rule ProcessVote_returns_inv)

lemma ProcessVote_returns_witness:
  "\<exists>v' qc. (ProcessVote example_crypto [3] example_vote example_set example_mapping example_votes :: (unit, _) go) = Ok (v', qc)
     \<and> VoteState_inv v'"
  using ProcessVote_returns[OF example_votes_inv _ example_mapping_wf, of example_set] example_set_inv(1)
  by (simp add: stakes_inv_def)



end
