(* ===== verification/Pacemakers.thy ===== *)
theory Pacemakers
  imports Safety Epoch Votes
begin

text \<open>
  \<open>consensus/pacemaker.go\<close>: rounds advance on certificates, timeouts of other nodes are collected into
  a timeout certificate, and the node's own timeout is prepared from its safety state. The commands
  are returned as a list. The pending timeouts are the Go map as an association list in the order it
  is ranged over.
\<close>

datatype phaseHonest = phaseZero | phaseOne

datatype PacemakerCommand =
    CmdEnterRound (er_Epoch: epoch) (er_Round: round) (er_HighCert: RoundCertificate)
  | CmdPrepareTimeout (pt_Timeout: TimeoutInfo) (pt_HighExtend: HighExtend) (pt_SafeToVote: bool)
      (pt_LastRC: "RoundCertificate option")
  | CmdSchedule (sc_Round: round) (sc_Duration: duration)
  | CmdScheduleReset

record pendingTimeout =
  pd_nodeId :: node_id
  pd_msg :: TimeoutMessage

record Pacemaker =
  pk_delta :: duration
  pk_chainConfig :: Config
  pk_localProcessing :: duration
  pk_currentEpoch :: epoch
  pk_highCertificate :: RoundCertificate
  pk_pendingTimeouts :: "(node_id \<times> pendingTimeout) list"
  pk_invalidTimeoutSenders :: "node_id set"
  pk_phase :: phaseHonest

section \<open>Operations\<close>

definition NewPacemaker :: "duration \<Rightarrow> Config \<Rightarrow> duration \<Rightarrow> EpochManager \<Rightarrow> RoundCertificate \<Rightarrow> ('e, Pacemaker) go" where
  "NewPacemaker delta chainConfig localProcessing epochManager highCertificate =
     (let currentRound = rc_Round highCertificate + 1 in
      case GetEpoch epochManager currentRound of
        None \<Rightarrow> Panic ''pacemaker: init round must exist in epoch manager''
      | Some epoch \<Rightarrow> Ok \<lparr>pk_delta = delta, pk_chainConfig = chainConfig, pk_localProcessing = localProcessing,
          pk_currentEpoch = epoch, pk_highCertificate = highCertificate, pk_pendingTimeouts = [],
          pk_invalidTimeoutSenders = {}, pk_phase = phaseZero\<rparr>)"

definition GetCurrentRound :: "Pacemaker \<Rightarrow> round" where
  "GetCurrentRound p = rc_Round (pk_highCertificate p) + 1"

definition getRoundTimer :: "Pacemaker \<Rightarrow> round \<Rightarrow> duration" where
  "getRoundTimer p round =
     (let voteDelay = cp_VotePace (cfg_GetChainRevision (pk_chainConfig p) round) in
      pk_delta p * 3 + voteDelay + pk_localProcessing p)"

definition Pacemaker_ProcessCertificate :: "EpochManager \<Rightarrow> RoundCertificate \<Rightarrow> Pacemaker \<times> Safety
    \<Rightarrow> ('e, (Pacemaker \<times> Safety) \<times> PacemakerCommand list) go" where
  "Pacemaker_ProcessCertificate epochManager certificate = (\<lambda>(p, safety).
     if rc_Round certificate \<le> rc_Round (pk_highCertificate p) then Ok ((p, safety), []) else
     let safety = Safety_ProcessCertificate certificate safety;
         p = p\<lparr>pk_highCertificate := certificate\<rparr> in
     case GetEpoch epochManager (GetCurrentRound p) of
       None \<Rightarrow> Panic ''pacemaker: epoch must exist for higher round''
     | Some epoch \<Rightarrow>
         let p = p\<lparr>pk_currentEpoch := epoch, pk_phase := phaseZero, pk_pendingTimeouts := [],
                   pk_invalidTimeoutSenders := {}\<rparr> in
         Ok ((p, safety),
             [CmdEnterRound (pk_currentEpoch p) (GetCurrentRound p) (pk_highCertificate p),
              CmdSchedule (GetCurrentRound p) (getRoundTimer p (GetCurrentRound p))]))"

definition localTimeoutRound :: "Pacemaker \<Rightarrow> Safety \<Rightarrow> ('e, Safety \<times> PacemakerCommand list) go" where
  "localTimeoutRound p safety =
     (let currentRound = GetCurrentRound p in
      go_bind (Safety_Timeout currentRound safety) (\<lambda>(safety, safeToIncludeVote).
      let highExtend = (case sf_maybeHighTip safety of
            Some tip \<Rightarrow> HE_Tip tip
          | None \<Rightarrow> HE_QC (rc_GetQC (pk_highCertificate p)));
          highTipRound = (case highExtend of HE_Tip t \<Rightarrow> bh_BlockRound (tip_BlockHeader t) | HE_QC q \<Rightarrow> GENESIS_ROUND);
          highExtendQcRound = (case highExtend of
            HE_Tip t \<Rightarrow> qc_GetRound (bh_QC (tip_BlockHeader t)) | HE_QC q \<Rightarrow> qc_GetRound q);
          tinfo = \<lparr>ti_Epoch = pk_currentEpoch p, ti_Round = currentRound,
                   ti_HighQcRound = highExtendQcRound, ti_HighTipRound = highTipRound\<rparr>;
          lastRC = (if highExtendQcRound + 1 \<noteq> currentRound then Some (pk_highCertificate p) else None) in
      Ok (safety, [CmdScheduleReset,
                   CmdPrepareTimeout tinfo highExtend safeToIncludeVote lastRC,
                   CmdSchedule currentRound (getRoundTimer p currentRound)])))"

definition ProcessLocalTimeout :: "Pacemaker \<times> Safety \<Rightarrow> ('e, (Pacemaker \<times> Safety) \<times> PacemakerCommand list) go" where
  "ProcessLocalTimeout = (\<lambda>(p, safety).
     let p = p\<lparr>pk_phase := phaseOne\<rparr> in
     go_bind (localTimeoutRound p safety) (\<lambda>(safety, cmds). Ok ((p, safety), cmds)))"

definition pendingNodeIds :: "Pacemaker \<Rightarrow> node_id list" where
  "pendingNodeIds p = map (\<lambda>(k, pt). pd_nodeId pt) (pk_pendingTimeouts p)"

text \<open>The first part of \<open>ProcessRemoteTimeout\<close>: with timeouts of an honest share the node times out itself.\<close>

definition honest_timeout :: "ValidatorSet \<Rightarrow> Pacemaker \<times> Safety \<Rightarrow> ('e, (Pacemaker \<times> Safety) \<times> PacemakerCommand list) go" where
  "honest_timeout validators = (\<lambda>(p, safety).
     if pk_phase p = phaseZero then
       (case HasHonestVote validators (pendingNodeIds p) of
          Err _ \<Rightarrow> Panic ''pacemaker: has_honest_vote''
        | Panic s \<Rightarrow> Panic s
        | Diverge \<Rightarrow> Diverge
        | Ok False \<Rightarrow> Ok ((p, safety), [])
        | Ok True \<Rightarrow> go_bind (localTimeoutRound p safety) (\<lambda>(safety, cmds).
            Ok ((p\<lparr>pk_phase := phaseOne\<rparr>, safety), cmds)))
     else Ok ((p, safety), []))"

text \<open>The loop of \<open>ProcessRemoteTimeout\<close> that builds the certificate, with fuel.\<close>

fun remote_timeout_loop :: "nat \<Rightarrow> crypto \<Rightarrow> EpochManager \<Rightarrow> ValidatorSet \<Rightarrow> ValidatorMapping \<Rightarrow> TimeoutInfo
    \<Rightarrow> Pacemaker \<times> Safety \<Rightarrow> PacemakerCommand list \<Rightarrow> ('e, (Pacemaker \<times> Safety) \<times> PacemakerCommand list) go" where
  "remote_timeout_loop 0 cr em validators mapping tmInfo ps cmds = Diverge"
| "remote_timeout_loop (Suc n) cr em validators mapping tmInfo (p, safety) cmds =
     (if pk_phase p \<noteq> phaseOne then Ok ((p, safety), cmds) else
      case HasSuperMajorityVotes validators (pendingNodeIds p) of
        Err _ \<Rightarrow> Panic ''pacemaker: has_super_majority_votes''
      | Panic s \<Rightarrow> Panic s
      | Diverge \<Rightarrow> Diverge
      | Ok False \<Rightarrow> Ok ((p, safety), cmds)
      | Ok True \<Rightarrow>
          (case NewTimeoutCertificate cr (ti_Epoch tmInfo) (ti_Round tmInfo)
                  (map (\<lambda>(k, pt). (pd_nodeId pt, pd_msg pt)) (pk_pendingTimeouts p)) mapping of
             Panic s \<Rightarrow> Panic s
           | Diverge \<Rightarrow> Diverge
           | Ok tc \<Rightarrow> go_bind (Pacemaker_ProcessCertificate em (RC_TC tc) (p, safety)) (\<lambda>((p, safety), cs).
               if pk_phase p \<noteq> phaseZero then Panic ''pacemaker: phase must reset after certificate''
               else Ok ((p, safety), cmds @ cs))
           | Err (InvalidSignaturesCreate bad) \<Rightarrow>
               remote_timeout_loop n cr em validators mapping tmInfo
                 (p\<lparr>pk_invalidTimeoutSenders := pk_invalidTimeoutSenders p \<union> fst ` set bad,
                    pk_pendingTimeouts := filter (\<lambda>(k, pt). k \<notin> fst ` set bad) (pk_pendingTimeouts p)\<rparr>, safety) cmds
           | Err _ \<Rightarrow> Panic ''pacemaker: unexpected TC creation error''))"

definition ProcessRemoteTimeout :: "crypto \<Rightarrow> EpochManager \<Rightarrow> ValidatorSet \<Rightarrow> ValidatorMapping \<Rightarrow> node_id
    \<Rightarrow> TimeoutMessage \<Rightarrow> Pacemaker \<times> Safety \<Rightarrow> ('e, (Pacemaker \<times> Safety) \<times> PacemakerCommand list) go" where
  "ProcessRemoteTimeout cr em validators mapping author timeoutMsg = (\<lambda>(p, safety).
     let tmInfo = tm_TmInfo timeoutMsg in
     if ti_Round tmInfo < GetCurrentRound p then Ok ((p, safety), [])
     else if ti_Round tmInfo \<noteq> GetCurrentRound p then Panic ''pacemaker: timeout round != current round''
     else if author \<in> pk_invalidTimeoutSenders p then Ok ((p, safety), [])
     else
     let p = p\<lparr>pk_pendingTimeouts := aput author \<lparr>pd_nodeId = author, pd_msg = timeoutMsg\<rparr> (pk_pendingTimeouts p)\<rparr> in
     go_bind (honest_timeout validators (p, safety)) (\<lambda>(ps, cmds).
     remote_timeout_loop (Suc (length (pk_pendingTimeouts (fst ps)))) cr em validators mapping tmInfo ps cmds))"

section \<open>Behaviour\<close>

lemma Pacemaker_ProcessCertificate_Ok:
  assumes "Pacemaker_ProcessCertificate em c (p, s) = Ok ((p', s'), cmds)"
  shows "(rc_Round c \<le> rc_Round (pk_highCertificate p) \<and> p' = p \<and> s' = s \<and> cmds = [])
    \<or> (rc_Round (pk_highCertificate p) < rc_Round c \<and> pk_highCertificate p' = c \<and> pk_phase p' = phaseZero
       \<and> pk_pendingTimeouts p' = [] \<and> pk_invalidTimeoutSenders p' = {} \<and> s' = Safety_ProcessCertificate c s
       \<and> GetEpoch em (GetCurrentRound p') = Some (pk_currentEpoch p')
       \<and> cmds = [CmdEnterRound (pk_currentEpoch p') (GetCurrentRound p') c,
                  CmdSchedule (GetCurrentRound p') (getRoundTimer p' (GetCurrentRound p'))])"
  using assms
  by (auto simp: Pacemaker_ProcessCertificate_def GetCurrentRound_def getRoundTimer_def Let_def
      split: if_splits option.splits)

text \<open>The timeout a node prepares: its high extend, the info it signs and the certificate it attaches.\<close>

definition timeout_extend :: "Pacemaker \<Rightarrow> Safety \<Rightarrow> HighExtend" where
  "timeout_extend p s = (case sf_maybeHighTip s of Some t \<Rightarrow> HE_Tip t | None \<Rightarrow> HE_QC (rc_GetQC (pk_highCertificate p)))"

definition timeout_info :: "Pacemaker \<Rightarrow> Safety \<Rightarrow> TimeoutInfo" where
  "timeout_info p s = \<lparr>ti_Epoch = pk_currentEpoch p, ti_Round = GetCurrentRound p,
     ti_HighQcRound = qc_GetRound (HighExtend_GetQC (timeout_extend p s)),
     ti_HighTipRound = (case timeout_extend p s of HE_Tip t \<Rightarrow> tip_GetRound t | HE_QC q \<Rightarrow> GENESIS_ROUND)\<rparr>"

lemma localTimeoutRound_Ok:
  assumes "(localTimeoutRound p s :: ('e, _) go) = Ok (s', cmds)"
  shows "sf_highestVote s \<le> GetCurrentRound p" and "s' = s\<lparr>sf_highestVote := GetCurrentRound p\<rparr>"
    and "\<exists>safe. cmds = [CmdScheduleReset,
        CmdPrepareTimeout (timeout_info p s) (timeout_extend p s) safe
          (if ti_HighQcRound (timeout_info p s) + 1 = GetCurrentRound p then None else Some (pk_highCertificate p)),
        CmdSchedule (GetCurrentRound p) (getRoundTimer p (GetCurrentRound p))]"
proof -
  from assms obtain safe where t: "(Safety_Timeout (GetCurrentRound p) s :: ('e, _) go) = Ok (s', safe)"
    by (auto simp: localTimeoutRound_def Let_def go_simps)
  note ok = Safety_Timeout_Ok[OF t]
  show "sf_highestVote s \<le> GetCurrentRound p" "s' = s\<lparr>sf_highestVote := GetCurrentRound p\<rparr>" using ok by simp_all
  have tip: "sf_maybeHighTip s' = sf_maybeHighTip s" using ok(2) by simp
  show "\<exists>safe. cmds = [CmdScheduleReset,
        CmdPrepareTimeout (timeout_info p s) (timeout_extend p s) safe
          (if ti_HighQcRound (timeout_info p s) + 1 = GetCurrentRound p then None else Some (pk_highCertificate p)),
        CmdSchedule (GetCurrentRound p) (getRoundTimer p (GetCurrentRound p))]"
    using assms tip
    by (intro exI[of _ safe], cases "sf_maybeHighTip s")
      (auto simp: localTimeoutRound_def Let_def t timeout_info_def timeout_extend_def tip_GetRound_def)
qed

lemma watermarks_le_refl: "watermarks_le s s"
  by (simp add: watermarks_le_def)

lemma watermarks_le_trans: "watermarks_le a b \<Longrightarrow> watermarks_le b c \<Longrightarrow> watermarks_le a c"
  unfolding watermarks_le_def by (blast intro: order_trans)

lemma watermarks_le_certificate: "watermarks_le s (Safety_ProcessCertificate c s)"
  by (simp add: watermarks_le_def Safety_ProcessCertificate_fields)

lemma watermarks_le_vote: "sf_highestVote s \<le> r \<Longrightarrow> watermarks_le s (s\<lparr>sf_highestVote := r\<rparr>)"
  by (simp add: watermarks_le_def)

lemma localTimeoutRound_returns:
  "sf_highestVote s \<le> GetCurrentRound p \<Longrightarrow> \<exists>s' cmds. localTimeoutRound p s = Ok (s', cmds)"
  by (simp add: localTimeoutRound_def Let_def Safety_Timeout_def not_less)

section \<open>Building the timeout certificate\<close>

abbreviation pending_inv :: "Pacemaker \<Rightarrow> bool" where
  "pending_inv p \<equiv> keyed pd_nodeId (pk_pendingTimeouts p)"

definition pending_tms :: "Pacemaker \<Rightarrow> (node_id \<times> Timeout) list" where
  "pending_tms p = map (\<lambda>(k, pt). (pd_nodeId pt, pd_msg pt)) (pk_pendingTimeouts p)"

lemma pendingNodeIds_keys: "pending_inv p \<Longrightarrow> pendingNodeIds p = akeys (pk_pendingTimeouts p)"
  unfolding pendingNodeIds_def by (rule map_keyed)

lemma fst_pending_tms: "pending_inv p \<Longrightarrow> map fst (pending_tms p) = akeys (pk_pendingTimeouts p)"
  by (auto simp: pending_tms_def keyed_def akeys_def)

text \<open>A certificate from a super-majority of the given timeouts.\<close>

definition tc_from :: "crypto \<Rightarrow> ValidatorSet \<Rightarrow> ValidatorMapping \<Rightarrow> TimeoutInfo \<Rightarrow> (node_id \<times> Timeout) set
    \<Rightarrow> TimeoutCertificate \<Rightarrow> bool" where
  "tc_from cr validators mapping ti T tc \<longleftrightarrow> (\<exists>tms. set tms \<subseteq> T
     \<and> NewTimeoutCertificate cr (ti_Epoch ti) (ti_Round ti) tms mapping = Ok tc
     \<and> HasSuperMajorityVotes validators (map fst tms) = Ok True)"

lemma tc_from_mono: "tc_from cr validators mapping ti T tc \<Longrightarrow> T \<subseteq> T' \<Longrightarrow> tc_from cr validators mapping ti T' tc"
  unfolding tc_from_def by blast

text \<open>A step of the loop that succeeds: nothing to do, a certificate, or a retry without the bad senders.\<close>

lemma remote_timeout_loop_Ok:
  assumes "(remote_timeout_loop n cr em validators mapping ti (p, s) cmds :: ('e, _) go) = Ok ((p', s'), cmds')"
    and "pending_inv p"
  shows "(pk_highCertificate p' = pk_highCertificate p \<and> s' = s \<and> cmds' = cmds \<and> pending_inv p')
    \<or> (\<exists>tc cs. tc_from cr validators mapping ti (set (pending_tms p)) tc
        \<and> cmds' = cmds @ cs \<and> pk_phase p' = phaseZero \<and> pending_inv p'
        \<and> (pk_highCertificate p' = RC_TC tc \<or> pk_highCertificate p' = pk_highCertificate p)
        \<and> rc_Round (pk_highCertificate p) \<le> rc_Round (pk_highCertificate p') \<and> watermarks_le s s')"
  using assms
proof (induction n arbitrary: p)
  case (Suc n)
  let ?drop = "\<lambda>bad. p\<lparr>pk_invalidTimeoutSenders := pk_invalidTimeoutSenders p \<union> fst ` set bad,
                    pk_pendingTimeouts := filter (\<lambda>(k, pt). k \<notin> fst ` set bad) (pk_pendingTimeouts p)\<rparr>"
  show ?case
  proof (cases "pk_phase p = phaseOne \<and> HasSuperMajorityVotes validators (pendingNodeIds p) = Ok True")
    case False
    then show ?thesis using Suc.prems by (auto split: if_splits go.splits bool.splits)
  next
    case True
    note step = Suc.prems(1)[unfolded remote_timeout_loop.simps pending_tms_def[symmetric]]
    have sm: "HasSuperMajorityVotes validators (map fst (pending_tms p)) = Ok True"
      using True by (simp add: pendingNodeIds_keys[OF Suc.prems(2)] fst_pending_tms[OF Suc.prems(2)])
    show ?thesis
    proof (cases "NewTimeoutCertificate cr (ti_Epoch ti) (ti_Round ti) (pending_tms p) mapping")
      case (Ok tc)
      with step True obtain p1 s1 cs where
        pc: "(Pacemaker_ProcessCertificate em (RC_TC tc) (p, s) :: ('e, _) go) = Ok ((p1, s1), cs)"
        and e: "p' = p1" "s' = s1" "cmds' = cmds @ cs" "pk_phase p1 = phaseZero"
        by (auto simp: go_simps split: if_splits)
      have tc: "tc_from cr validators mapping ti (set (pending_tms p)) tc"
        using Ok sm unfolding tc_from_def by blast
      have "(pk_highCertificate p1 = RC_TC tc \<or> pk_highCertificate p1 = pk_highCertificate p)
        \<and> rc_Round (pk_highCertificate p) \<le> rc_Round (pk_highCertificate p1) \<and> pending_inv p1 \<and> watermarks_le s s1"
        using Pacemaker_ProcessCertificate_Ok[OF pc] Suc.prems(2)
        by (elim disjE conjE) (simp_all add: watermarks_le_refl watermarks_le_certificate)
      with tc e show ?thesis by blast
    next
      case (Err e)
      then obtain bad where "e = InvalidSignaturesCreate bad" using step True by (cases e) simp_all
      with Err step True have "(remote_timeout_loop n cr em validators mapping ti (?drop bad, s) cmds :: ('e, _) go)
          = Ok ((p', s'), cmds')" by simp
      moreover have "pending_inv (?drop bad)" using Suc.prems(2) by auto
      ultimately have IH: "(pk_highCertificate p' = pk_highCertificate (?drop bad) \<and> s' = s \<and> cmds' = cmds \<and> pending_inv p')
        \<or> (\<exists>tc cs. tc_from cr validators mapping ti (set (pending_tms (?drop bad))) tc
          \<and> cmds' = cmds @ cs \<and> pk_phase p' = phaseZero \<and> pending_inv p'
          \<and> (pk_highCertificate p' = RC_TC tc \<or> pk_highCertificate p' = pk_highCertificate (?drop bad))
          \<and> rc_Round (pk_highCertificate (?drop bad)) \<le> rc_Round (pk_highCertificate p') \<and> watermarks_le s s')"
        by (rule Suc.IH)
      have sub: "set (pending_tms (?drop bad)) \<subseteq> set (pending_tms p)" by (auto simp: pending_tms_def)
      have hi: "pk_highCertificate (?drop bad) = pk_highCertificate p" by simp
      show ?thesis using IH[unfolded hi] tc_from_mono[OF _ sub] by blast
    qed (use step True in simp_all)
  qed
qed simp

subsection \<open>The construction only fails on invalid signatures\<close>

lemma NewTimeoutCertificate_tips_outcome:
  assumes "wf_mapping m" "bls_complete cr" "N \<subseteq> set (vm_nodeIds m)"
    and "\<forall>(ti, sigs)\<in>set groups. distinct (map fst sigs) \<and> sigs \<noteq> [] \<and> fst ` set sigs \<subseteq> N"
  shows "(\<exists>trs. NewTimeoutCertificate_tips cr m groups = Ok trs)
    \<or> (\<exists>bad. NewTimeoutCertificate_tips cr m groups = Err (InvalidSignaturesCreate bad) \<and> bad \<noteq> [] \<and> fst ` set bad \<subseteq> N)"
  using assms(4)
proof (induction groups)
  case (Cons g groups)
  obtain ti sigs where g: "g = (ti, sigs)" by (cases g)
  have d: "distinct (map fst sigs)" "sigs \<noteq> []" "fst ` set sigs \<subseteq> N" using Cons.prems g by auto
  have sub: "fst ` set sigs \<subseteq> set (vm_nodeIds m)" using d(3) assms(3) by blast
  have IH: "(\<exists>trs. NewTimeoutCertificate_tips cr m groups = Ok trs)
    \<or> (\<exists>bad. NewTimeoutCertificate_tips cr m groups = Err (InvalidSignaturesCreate bad) \<and> bad \<noteq> [] \<and> fst ` set bad \<subseteq> N)"
    using Cons by simp
  show ?case
  proof (cases rule: sigcol_New_complete[OF assms(1) d(1,2) sub assms(2), of DomainTimeout "TimeoutInfo_EncodeRLP [] ti",
        case_names ok bad])
    case (ok c)
    then show ?thesis using IH by (auto simp: g)
  next
    case bad
    have "fst ` set (filter (\<lambda>(n, s). \<not> sig_valid cr DomainTimeout m (TimeoutInfo_EncodeRLP [] ti) n s) sigs) \<subseteq> N"
      using d(3) by auto
    with bad show ?thesis by (simp add: g)
  qed
qed simp

lemma timeout_group_sigs:
  assumes "NewTimeoutCertificate_group tms [] h0 = (groups, h)" and "(ti, sigs) \<in> set groups"
  shows "sigs = map (\<lambda>(n, t). (n, tm_TimeoutSignature t)) (filter (\<lambda>(n, t). tm_TmInfo t = ti) tms)" and "sigs \<noteq> []"
proof -
  have nil: "distinct (akeys [])" by (simp add: akeys_def)
  note g = NewTimeoutCertificate_group_groups[OF assms(1) nil]
  have m: "map_of groups ti = Some sigs" using g assms(2) map_of_in_set[of groups ti sigs] by simp
  have "(case map_of groups ti of None \<Rightarrow> [] | Some xs \<Rightarrow> xs)
      = (case map_of [] ti of None \<Rightarrow> [] | Some xs \<Rightarrow> xs)
        @ map (\<lambda>(n, t). (n, tm_TimeoutSignature t)) (filter (\<lambda>(n, t). tm_TmInfo t = ti) tms)"
    using g by blast
  then show s: "sigs = map (\<lambda>(n, t). (n, tm_TimeoutSignature t)) (filter (\<lambda>(n, t). tm_TmInfo t = ti) tms)"
    by (simp only: m option.case map_of.simps append_Nil)
  have "ti \<in> set (akeys groups)" using assms(2) by (force simp: akeys_def)
  then have "ti \<in> (\<lambda>(n, t). tm_TmInfo t) ` set tms" using g by (simp add: akeys_def)
  then show "sigs \<noteq> []" using s by (auto simp: filter_empty_conv)
qed

lemma NewTimeoutCertificate_outcome:
  assumes "wf_mapping m" "bls_complete cr" "distinct (map fst tms)" "fst ` set tms \<subseteq> set (vm_nodeIds m)"
  shows "(\<exists>tc. NewTimeoutCertificate cr e r tms m = Ok tc)
    \<or> (\<exists>bad. NewTimeoutCertificate cr e r tms m = Err (InvalidSignaturesCreate bad) \<and> bad \<noteq> [] \<and> fst ` set bad \<subseteq> fst ` set tms)"
proof -
  obtain groups h where g: "NewTimeoutCertificate_group tms [] (HE_QC GenesisQC) = (groups, h)"
    by (cases "NewTimeoutCertificate_group tms [] (HE_QC GenesisQC)")
  have "distinct (map fst sigs) \<and> sigs \<noteq> [] \<and> fst ` set sigs \<subseteq> fst ` set tms" if "(ti, sigs) \<in> set groups" for ti sigs
  proof -
    note s = timeout_group_sigs[OF g that]
    have m: "map fst sigs = map fst (filter (\<lambda>(n, t). tm_TmInfo t = ti) tms)" by (simp add: s(1) case_prod_beta comp_def)
    then have "set (map fst sigs) \<subseteq> fst ` set tms" by auto
    moreover have "distinct (map fst sigs)" unfolding m using assms(3) by (rule distinct_map_filter)
    ultimately show ?thesis using s(2) by simp
  qed
  then have "\<forall>(ti, sigs)\<in>set groups. distinct (map fst sigs) \<and> sigs \<noteq> [] \<and> fst ` set sigs \<subseteq> fst ` set tms" by blast
  from NewTimeoutCertificate_tips_outcome[OF assms(1,2,4) this] show ?thesis
    by (auto simp: NewTimeoutCertificate_def g)
qed

subsection \<open>The loop returns\<close>

lemma remote_timeout_loop_returns:
  assumes inv: "stakes_inv validators" "total_fits validators" "wf_mapping mapping" "bls_complete cr"
    and p: "pending_inv p" "set (akeys (pk_pendingTimeouts p)) \<subseteq> set (vm_nodeIds mapping)" "length (pk_pendingTimeouts p) < n"
    and r: "ti_Round ti = GetCurrentRound p" "ti_Round ti \<noteq> 0" "GetEpoch em (GetCurrentRound p + 1) \<noteq> None"
  shows "\<exists>p' s' cmds'. (remote_timeout_loop n cr em validators mapping ti (p, s) cmds :: ('e, _) go) = Ok ((p', s'), cmds')"
  using p r
proof (induction n arbitrary: p)
  case (Suc n)
  have d: "distinct (akeys (pk_pendingTimeouts p))" using Suc.prems(1) by (rule keyed_distinct)
  let ?sm = "2 * weight validators UNIV < 3 * weight validators (set (akeys (pk_pendingTimeouts p)))"
  have sm: "HasSuperMajorityVotes validators (pendingNodeIds p) = Ok ?sm"
    unfolding pendingNodeIds_keys[OF Suc.prems(1)] by (rule HasSuperMajorityVotes_weight[OF inv(1,2) d])
  show ?case
  proof (cases "pk_phase p = phaseOne \<and> ?sm")
    case False
    then show ?thesis by (auto simp: sm)
  next
    case True
    have tms: "distinct (map fst (pending_tms p))" "fst ` set (pending_tms p) \<subseteq> set (vm_nodeIds mapping)"
      using d Suc.prems(2) fst_pending_tms[OF Suc.prems(1)] by (simp, metis list.set_map)
    consider (tc) tc where "NewTimeoutCertificate cr (ti_Epoch ti) (ti_Round ti) (pending_tms p) mapping = Ok tc"
      | (bad) bad where "NewTimeoutCertificate cr (ti_Epoch ti) (ti_Round ti) (pending_tms p) mapping
          = Err (InvalidSignaturesCreate bad)" "bad \<noteq> []" "fst ` set bad \<subseteq> fst ` set (pending_tms p)"
      using NewTimeoutCertificate_outcome[OF inv(3,4) tms] by blast
    then show ?thesis
    proof cases
      case tc
      have "tc_Round tc = ti_Round ti" using tc by (auto simp: NewTimeoutCertificate_def go_simps split: prod.splits)
      moreover have "rc_Round (pk_highCertificate p) < ti_Round ti"
        using Suc.prems(4,5) word_less_succ[of "rc_Round (pk_highCertificate p)"]
        by (cases "rc_Round (pk_highCertificate p) = - 1") (simp_all add: GetCurrentRound_def)
      ultimately have "\<exists>p' s' cs. (Pacemaker_ProcessCertificate em (RC_TC tc) (p, s) :: ('e, _) go) = Ok ((p', s'), cs)
          \<and> pk_phase p' = phaseZero"
        using Suc.prems(4,6) by (auto simp: Pacemaker_ProcessCertificate_def GetCurrentRound_def Let_def)
      then show ?thesis using True tc by (auto simp: sm pending_tms_def)
    next
      case bad
      let ?p = "p\<lparr>pk_invalidTimeoutSenders := pk_invalidTimeoutSenders p \<union> fst ` set bad,
                    pk_pendingTimeouts := filter (\<lambda>(k, pt). k \<notin> fst ` set bad) (pk_pendingTimeouts p)\<rparr>"
      have "fst ` set (pending_tms p) = set (akeys (pk_pendingTimeouts p))"
        using fst_pending_tms[OF Suc.prems(1)] by (metis list.set_map)
      then have "length (pk_pendingTimeouts ?p) < length (pk_pendingTimeouts p)"
        using bad(2,3) keyed_drop_shorter[OF Suc.prems(1), of "fst ` set bad"] by simp
      then have len: "length (pk_pendingTimeouts ?p) < n" using Suc.prems(3) by linarith
      have "pending_inv ?p" using Suc.prems(1) by auto
      moreover have "set (akeys (pk_pendingTimeouts ?p)) \<subseteq> set (vm_nodeIds mapping)"
        using Suc.prems(2) by (auto simp: akeys_def)
      moreover have "GetCurrentRound ?p = GetCurrentRound p" by (simp add: GetCurrentRound_def)
      ultimately have "\<exists>p' s' cmds'. (remote_timeout_loop n cr em validators mapping ti (?p, s) cmds :: ('e, _) go)
          = Ok ((p', s'), cmds')"
        using Suc.IH[of ?p] len Suc.prems(4-6) by simp
      then show ?thesis using True bad(1) by (simp add: sm pending_tms_def)
    qed
  qed
qed simp

section \<open>Remote timeouts\<close>

abbreviation with_timeout :: "node_id \<Rightarrow> TimeoutMessage \<Rightarrow> Pacemaker \<Rightarrow> Pacemaker" where
  "with_timeout author m p \<equiv> p\<lparr>pk_pendingTimeouts := aput author \<lparr>pd_nodeId = author, pd_msg = m\<rparr> (pk_pendingTimeouts p)\<rparr>"

lemma with_timeout_inv: "pending_inv p \<Longrightarrow> pending_inv (with_timeout author m p)"
  by auto

lemma honest_timeout_Ok:
  assumes "(honest_timeout validators (p, s) :: ('e, _) go) = Ok ((q, s'), cmds)"
  shows "q = p \<and> s' = s \<or> q = p\<lparr>pk_phase := phaseOne\<rparr> \<and> s' = s\<lparr>sf_highestVote := GetCurrentRound p\<rparr>
      \<and> sf_highestVote s \<le> GetCurrentRound p"
  using assms localTimeoutRound_Ok(1,2)[of p s s' cmds, where ?'e = 'e]
  by (auto simp: honest_timeout_def go_simps split: if_splits go.splits bool.splits)

lemma honest_timeout_returns:
  assumes "HasHonestVote validators (pendingNodeIds p) = Ok b" and "sf_highestVote s \<le> GetCurrentRound p"
  shows "\<exists>q s' cmds. (honest_timeout validators (p, s) :: ('e, _) go) = Ok ((q, s'), cmds)"
proof -
  obtain s' cmds where "(localTimeoutRound p s :: ('e, _) go) = Ok (s', cmds)"
    using localTimeoutRound_returns[OF assms(2)] by blast
  then show ?thesis using assms(1) by (cases b) (auto simp: honest_timeout_def)
qed

lemma ProcessRemoteTimeout_cases:
  assumes "(ProcessRemoteTimeout cr em validators mapping author m (p, s) :: ('e, _) go) = Ok ((p', s'), cmds)"
  obtains (same) "p' = p" "s' = s"
  | (loop) q1 s1 cs where "ti_Round (tm_TmInfo m) = GetCurrentRound p"
    "(honest_timeout validators (with_timeout author m p, s) :: ('e, _) go) = Ok ((q1, s1), cs)"
    "(remote_timeout_loop (Suc (length (pk_pendingTimeouts q1))) cr em validators mapping (tm_TmInfo m) (q1, s1) cs
       :: ('e, _) go) = Ok ((p', s'), cmds)"
  using assms unfolding ProcessRemoteTimeout_def by (auto simp: go_simps Let_def split: if_splits)

lemma ProcessRemoteTimeout_Ok:
  assumes "(ProcessRemoteTimeout cr em validators mapping author m (p, s) :: ('e, _) go) = Ok ((p', s'), cmds)"
    and "pending_inv p"
  shows "(pk_highCertificate p' = pk_highCertificate p
      \<or> (\<exists>tc. tc_from cr validators mapping (tm_TmInfo m) (set (pending_tms (with_timeout author m p))) tc
           \<and> pk_highCertificate p' = RC_TC tc \<and> ti_Round (tm_TmInfo m) = GetCurrentRound p))
    \<and> rc_Round (pk_highCertificate p) \<le> rc_Round (pk_highCertificate p') \<and> pending_inv p' \<and> watermarks_le s s'"
proof (rule ProcessRemoteTimeout_cases[OF assms(1)])
  let ?q = "with_timeout author m p"
  fix q1 s1 cs
  assume r: "ti_Round (tm_TmInfo m) = GetCurrentRound p"
    and h: "(honest_timeout validators (?q, s) :: ('e, _) go) = Ok ((q1, s1), cs)"
    and loop: "(remote_timeout_loop (Suc (length (pk_pendingTimeouts q1))) cr em validators mapping (tm_TmInfo m) (q1, s1) cs
       :: ('e, _) go) = Ok ((p', s'), cmds)"
  have q1: "pk_pendingTimeouts q1 = pk_pendingTimeouts ?q" "pk_highCertificate q1 = pk_highCertificate p"
    using honest_timeout_Ok[OF h] by auto
  have inv: "pending_inv q1" unfolding q1(1) by (rule with_timeout_inv[OF assms(2)])
  have eq: "set (pending_tms q1) = set (pending_tms ?q)" unfolding pending_tms_def q1(1) ..
  have w: "watermarks_le s s1"
    using honest_timeout_Ok[OF h] by (auto simp: watermarks_le_refl GetCurrentRound_def intro: watermarks_le_vote)
  from remote_timeout_loop_Ok[OF loop inv] r w show ?thesis unfolding eq q1(2) by (auto intro: watermarks_le_trans)
qed (use assms(2) in \<open>simp add: watermarks_le_refl\<close>)

lemma ProcessRemoteTimeout_returns_aux:
  assumes inv: "stakes_inv validators" "total_fits validators" "wf_mapping mapping" "bls_complete cr"
    and p: "pending_inv p" "insert author (set (akeys (pk_pendingTimeouts p))) \<subseteq> set (vm_nodeIds mapping)"
    and r: "ti_Round (tm_TmInfo m) \<le> GetCurrentRound p" "GetCurrentRound p \<noteq> 0" "GetEpoch em (GetCurrentRound p + 1) \<noteq> None"
    and s: "sf_highestVote s \<le> GetCurrentRound p"
  shows "\<exists>p' s' cmds. (ProcessRemoteTimeout cr em validators mapping author m (p, s) :: ('e, _) go) = Ok ((p', s'), cmds)"
proof (cases "ti_Round (tm_TmInfo m) = GetCurrentRound p \<and> author \<notin> pk_invalidTimeoutSenders p")
  case True
  let ?q = "with_timeout author m p"
  have q: "pending_inv ?q" by (rule with_timeout_inv[OF p(1)])
  have cur: "GetCurrentRound ?q = GetCurrentRound p" by (simp add: GetCurrentRound_def)
  obtain b where h: "HasHonestVote validators (pendingNodeIds ?q) = Ok b"
    unfolding pendingNodeIds_keys[OF q] using HasHonestVote_weight[OF inv(1,2) keyed_distinct[OF q]] by blast
  obtain q1 s1 cs where step: "(honest_timeout validators (?q, s) :: ('e, _) go) = Ok ((q1, s1), cs)"
    using honest_timeout_returns[OF h, of s] s cur by auto
  have "pending_inv q1" "set (akeys (pk_pendingTimeouts q1)) \<subseteq> set (vm_nodeIds mapping)"
    "GetCurrentRound q1 = GetCurrentRound p"
    using honest_timeout_Ok[OF step] q p(2) by (auto simp: GetCurrentRound_def)
  then have "\<exists>p' s' cmds. (remote_timeout_loop (Suc (length (pk_pendingTimeouts q1))) cr em validators mapping
      (tm_TmInfo m) (q1, s1) cs :: ('e, _) go) = Ok ((p', s'), cmds)"
    using True r by (intro remote_timeout_loop_returns[OF inv]) simp_all
  then show ?thesis using True unfolding ProcessRemoteTimeout_def by (simp add: Let_def step)
qed (use r(1) in \<open>auto simp: ProcessRemoteTimeout_def Let_def\<close>)

section \<open>Runs of the pacemaker\<close>

text \<open>The calls other components make, in any order; the validator set may differ from call to call.\<close>

inductive pacemaker_step :: "crypto \<Rightarrow> EpochManager \<Rightarrow> Pacemaker \<times> Safety \<Rightarrow> Pacemaker \<times> Safety \<Rightarrow> bool" for cr em where
  certificate: "(Pacemaker_ProcessCertificate em c ps :: (unit, _) go) = Ok (ps', cmds) \<Longrightarrow> pacemaker_step cr em ps ps'"
| local_timeout: "(ProcessLocalTimeout ps :: (unit, _) go) = Ok (ps', cmds) \<Longrightarrow> pacemaker_step cr em ps ps'"
| remote_timeout: "(ProcessRemoteTimeout cr em validators mapping author m ps :: (unit, _) go) = Ok (ps', cmds) \<Longrightarrow>
    pacemaker_step cr em ps ps'"

inductive_cases pacemaker_stepE: "pacemaker_step cr em (p, s) (p', s')"

lemma ProcessLocalTimeout_Ok:
  assumes "(ProcessLocalTimeout (p, s) :: ('e, _) go) = Ok ((p', s'), cmds)"
  shows "sf_highestVote s \<le> GetCurrentRound p" and "p' = p\<lparr>pk_phase := phaseOne\<rparr>"
    and "s' = s\<lparr>sf_highestVote := GetCurrentRound p\<rparr>"
proof -
  let ?q = "p\<lparr>pk_phase := phaseOne\<rparr>"
  have "go_bind (localTimeoutRound ?q s) (\<lambda>(safety, cmds). Ok ((?q, safety), cmds)) = (Ok ((p', s'), cmds) :: ('e, _) go)"
    using assms by (simp only: ProcessLocalTimeout_def Let_def prod.case)
  then have l: "(localTimeoutRound ?q s :: ('e, _) go) = Ok (s', cmds)" and q: "p' = ?q"
    by (cases "localTimeoutRound ?q s :: ('e, _) go"; simp only: go_bind.simps; force)+
  have cur: "GetCurrentRound ?q = GetCurrentRound p" by (simp add: GetCurrentRound_def)
  show "sf_highestVote s \<le> GetCurrentRound p" "p' = ?q" "s' = s\<lparr>sf_highestVote := GetCurrentRound p\<rparr>"
    using localTimeoutRound_Ok(1,2)[OF l] q unfolding cur by simp_all
qed

lemma pacemaker_step_mono:
  assumes "pacemaker_step cr em (p, s) (p', s')" and "pending_inv p"
  shows "rc_Round (pk_highCertificate p) \<le> rc_Round (pk_highCertificate p') \<and> watermarks_le s s' \<and> pending_inv p'"
proof (rule pacemaker_stepE[OF assms(1)])
  fix c cmds assume "(Pacemaker_ProcessCertificate em c (p, s) :: (unit, _) go) = Ok ((p', s'), cmds)"
  from Pacemaker_ProcessCertificate_Ok[OF this] assms(2) show ?thesis
    by (elim disjE conjE) (simp_all add: watermarks_le_refl watermarks_le_certificate)
next
  fix cmds assume "(ProcessLocalTimeout (p, s) :: (unit, _) go) = Ok ((p', s'), cmds)"
  from ProcessLocalTimeout_Ok[OF this] have
    "sf_highestVote s \<le> GetCurrentRound p" "p' = p\<lparr>pk_phase := phaseOne\<rparr>" "s' = s\<lparr>sf_highestVote := GetCurrentRound p\<rparr>" .
  then show ?thesis using assms(2) by (simp add: watermarks_le_vote)
next
  fix validators mapping author m cmds
  assume "(ProcessRemoteTimeout cr em validators mapping author m (p, s) :: (unit, _) go) = Ok ((p', s'), cmds)"
  from ProcessRemoteTimeout_Ok[OF this assms(2)] show ?thesis by simp
qed

lemma pending_tms_with_timeout:
  assumes "pending_inv p"
  shows "set (pending_tms (with_timeout author m p))
    \<subseteq> insert (author, m) ((\<lambda>(k, pt). (k, pd_msg pt)) ` set (pk_pendingTimeouts p))"
proof
  fix x assume "x \<in> set (pending_tms (with_timeout author m p))"
  then obtain k pt where x: "x = (pd_nodeId pt, pd_msg pt)" "(k, pt) \<in> set (pk_pendingTimeouts (with_timeout author m p))"
    by (auto simp: pending_tms_def)
  note k = with_timeout_inv[OF assms, of author m]
  have key: "x = (k, pd_msg pt)" using x(1) keyed_mem[OF k x(2)] by simp
  have "map_of (pk_pendingTimeouts (with_timeout author m p)) k = Some pt"
    using x(2) map_of_in_set[OF keyed_distinct[OF k]] by blast
  then consider "k = author" "pt = \<lparr>pd_nodeId = author, pd_msg = m\<rparr>" | "(k, pt) \<in> set (pk_pendingTimeouts p)"
    by (auto dest: map_of_SomeD split: if_splits)
  then show "x \<in> insert (author, m) ((\<lambda>(k, pt). (k, pd_msg pt)) ` set (pk_pendingTimeouts p))"
  proof cases
    case 1 then show ?thesis by (simp add: key)
  next
    case 2 then show ?thesis by (intro insertI2 image_eqI[of _ _ "(k, pt)"]) (simp_all add: key)
  qed
qed

section \<open>Properties\<close>

text \<open>C16. Rounds and watermarks only move forward: over every sequence of certificates, local timeouts and
  remote timeouts, the round of the high certificate and every safety watermark never decrease.\<close>

theorem pacemaker_moves_forward:
  assumes "(pacemaker_step cr em)\<^sup>*\<^sup>* (p, s) (p', s')" and "keyed pd_nodeId (pk_pendingTimeouts p)"
  shows "rc_Round (pk_highCertificate p) \<le> rc_Round (pk_highCertificate p') \<and> watermarks_le s s'"
proof -
  have "rc_Round (pk_highCertificate p) \<le> rc_Round (pk_highCertificate p') \<and> watermarks_le s s' \<and> pending_inv p'"
    using assms
  proof (induction rule: rtranclp_induct2)
    case (step p1 s1 p2 s2)
    then have "rc_Round (pk_highCertificate p) \<le> rc_Round (pk_highCertificate p1)" "watermarks_le s s1" "pending_inv p1" by auto
    with pacemaker_step_mono[OF step.hyps(2)] show ?case by (auto intro: order_trans watermarks_le_trans)
  qed (simp add: watermarks_le_refl)
  then show ?thesis by simp
qed

definition example_pacemaker :: Pacemaker where
  "example_pacemaker = \<lparr>pk_delta = 1000, pk_chainConfig = StaticConfig DefaultParams 100 10 5, pk_localProcessing = 10,
     pk_currentEpoch = 1, pk_highCertificate = example_certificate, pk_pendingTimeouts = [], pk_invalidTimeoutSenders = {},
     pk_phase = phaseZero\<rparr>"

lemma example_local_timeout:
  "\<exists>s' cmds. (ProcessLocalTimeout (example_pacemaker, DefaultSafety) :: (unit, _) go)
     = Ok ((example_pacemaker\<lparr>pk_phase := phaseOne\<rparr>, s'), cmds) \<and> sf_highestVote s' = 6"
proof -
  have "sf_highestVote DefaultSafety \<le> GetCurrentRound (example_pacemaker\<lparr>pk_phase := phaseOne\<rparr>)"
    by (simp add: DefaultSafety_def GENESIS_ROUND_def)
  then obtain s' cmds where
    "(localTimeoutRound (example_pacemaker\<lparr>pk_phase := phaseOne\<rparr>) DefaultSafety :: (unit, _) go) = Ok (s', cmds)"
    using localTimeoutRound_returns by blast
  with localTimeoutRound_Ok(2)[OF this] show ?thesis
    by (auto simp: ProcessLocalTimeout_def GetCurrentRound_def example_pacemaker_def example_certificate_def example_qc_def)
qed

lemma pacemaker_moves_forward_witness:
  "\<exists>s'. (pacemaker_step example_crypto example_em)\<^sup>*\<^sup>* (example_pacemaker, DefaultSafety) (example_pacemaker\<lparr>pk_phase := phaseOne\<rparr>, s')
     \<and> watermarks_le DefaultSafety s'"
proof -
  obtain s' where "pacemaker_step example_crypto example_em (example_pacemaker, DefaultSafety) (example_pacemaker\<lparr>pk_phase := phaseOne\<rparr>, s')"
    using example_local_timeout pacemaker_step.local_timeout by blast
  then have "(pacemaker_step example_crypto example_em)\<^sup>*\<^sup>* (example_pacemaker, DefaultSafety) (example_pacemaker\<lparr>pk_phase := phaseOne\<rparr>, s')"
    by (rule r_into_rtranclp)
  from pacemaker_moves_forward[OF this] this show ?thesis by (auto simp: example_pacemaker_def)
qed

text \<open>C17. Timeouts end a round only with a super-majority: if handling a remote timeout changes the high
  certificate, the new one is a timeout certificate of the current round, built by \<open>NewTimeoutCertificate\<close>
  from pending timeouts whose senders hold a super-majority of the stake.\<close>

theorem timeout_certificate_needs_super_majority:
  assumes "(ProcessRemoteTimeout cr em validators mapping author m (p, s) :: (unit, _) go) = Ok ((p', s'), cmds)"
    and "keyed pd_nodeId (pk_pendingTimeouts p)" and "pk_highCertificate p' \<noteq> pk_highCertificate p"
  shows "\<exists>tc tms. pk_highCertificate p' = RC_TC tc \<and> tc_Round tc = GetCurrentRound p
    \<and> NewTimeoutCertificate cr (ti_Epoch (tm_TmInfo m)) (GetCurrentRound p) tms mapping = Ok tc
    \<and> set tms \<subseteq> insert (author, m) ((\<lambda>(k, pt). (k, pd_msg pt)) ` set (pk_pendingTimeouts p))
    \<and> HasSuperMajorityVotes validators (map fst tms) = Ok True"
proof -
  obtain tc where tc: "tc_from cr validators mapping (tm_TmInfo m) (set (pending_tms (with_timeout author m p))) tc"
    "pk_highCertificate p' = RC_TC tc" "ti_Round (tm_TmInfo m) = GetCurrentRound p"
    using ProcessRemoteTimeout_Ok[OF assms(1,2)] assms(3) by auto
  have "set (pending_tms (with_timeout author m p)) \<subseteq> insert (author, m) ((\<lambda>(k, pt). (k, pd_msg pt)) ` set (pk_pendingTimeouts p))"
    by (rule pending_tms_with_timeout[OF assms(2)])
  moreover obtain tms where "set tms \<subseteq> set (pending_tms (with_timeout author m p))"
    "NewTimeoutCertificate cr (ti_Epoch (tm_TmInfo m)) (ti_Round (tm_TmInfo m)) tms mapping = Ok tc"
    "HasSuperMajorityVotes validators (map fst tms) = Ok True"
    using tc(1) unfolding tc_from_def by blast
  moreover have "tc_Round tc = ti_Round (tm_TmInfo m)"
    using calculation(3) by (auto simp: NewTimeoutCertificate_def go_simps split: prod.splits)
  ultimately show ?thesis unfolding tc(3)[symmetric] using tc(2) by blast
qed

definition example_pending :: Pacemaker where
  "example_pending = example_pacemaker\<lparr>pk_phase := phaseOne, pk_pendingTimeouts :=
     [([1], \<lparr>pd_nodeId = [1], pd_msg = example_timeout\<rparr>), ([2], \<lparr>pd_nodeId = [2], pd_msg = example_timeout\<rparr>)]\<rparr>"

lemma example_pending_runs:
  "\<exists>p' s' cmds. (ProcessRemoteTimeout example_crypto example_em example_set example_mapping [3] example_timeout
       (example_pending, DefaultSafety) :: (unit, _) go) = Ok ((p', s'), cmds) \<and> rc_Round (pk_highCertificate p') = 6"
proof -
  have "case (ProcessRemoteTimeout example_crypto example_em example_set example_mapping [3] example_timeout
       (example_pending, DefaultSafety) :: (unit, _) go) of Ok ((p', s'), cmds) \<Rightarrow> rc_Round (pk_highCertificate p') = 6 | _ \<Rightarrow> False"
    by code_simp
  then show ?thesis by (auto split: go.splits)
qed

lemma example_pending_inv: "keyed pd_nodeId (pk_pendingTimeouts example_pending)"
  by (simp add: example_pending_def keyed_def akeys_def)

lemma timeout_certificate_needs_super_majority_witness:
  "\<exists>tc tms. NewTimeoutCertificate example_crypto 1 6 tms example_mapping = Ok tc
     \<and> HasSuperMajorityVotes example_set (map fst tms) = Ok True"
proof -
  obtain p' s' cmds where run: "(ProcessRemoteTimeout example_crypto example_em example_set example_mapping [3] example_timeout
       (example_pending, DefaultSafety) :: (unit, _) go) = Ok ((p', s'), cmds)" "rc_Round (pk_highCertificate p') = 6"
    using example_pending_runs by blast
  have old: "rc_Round (pk_highCertificate example_pending) = 5" by code_simp
  then have "pk_highCertificate p' \<noteq> pk_highCertificate example_pending" using run(2) by auto
  moreover have "GetCurrentRound example_pending = 6" by code_simp
  moreover have "ti_Epoch (tm_TmInfo example_timeout) = 1" by code_simp
  ultimately show ?thesis
    using timeout_certificate_needs_super_majority[OF run(1) example_pending_inv] by metis
qed



end
