(* ===== verification/Election.thy ===== *)
theory Election
  imports Validator
begin

unbundle bit_operations_syntax

text \<open>
  \<open>validator/chacha.go\<close> and \<open>validator/election.go\<close>: the leader of a round is drawn with a probability
  proportional to its stake. A ChaCha20 key stream seeded by the round is sampled by rejection, and
  the sample is located among the cumulative stakes by binary search. Words wrap as in Go; the
  stakes are summed as unbounded integers, as with \<open>math/big\<close>. The rejection loop has no bound: not
  returning is \<open>None\<close>.
\<close>

section \<open>The key stream\<close>

record chacha20Stream =
  ch_state :: "u32 list"
  ch_counter :: u64
  ch_buf :: bytes
  ch_pos :: nat

definition PutUint32_le :: "u32 \<Rightarrow> bytes" where
  "PutUint32_le w = [ucast w, ucast (drop_bit 8 w), ucast (drop_bit 16 w), ucast (drop_bit 24 w)]"

fun Uint32_le :: "bytes \<Rightarrow> u32" where
  "Uint32_le (a # b # c # d # _) = ucast a OR push_bit 8 (ucast b) OR push_bit 16 (ucast c) OR push_bit 24 (ucast d)"
| "Uint32_le _ = 0"

definition newChaCha20Stream :: "bytes \<Rightarrow> chacha20Stream" where
  "newChaCha20Stream key = \<lparr>
     ch_state = [0x61707865, 0x3320646e, 0x79622d32, 0x6b206574]
       @ map (\<lambda>i. Uint32_le (drop (i * 4) key)) [0..<8] @ [0, 0, 0, 0],
     ch_counter = 0, ch_buf = replicate 64 0, ch_pos = 64\<rparr>"

definition quarterRound :: "u32 list \<Rightarrow> nat \<Rightarrow> nat \<Rightarrow> nat \<Rightarrow> nat \<Rightarrow> u32 list" where
  "quarterRound st a b c d =
     (let st = st[a := st ! a + st ! b];
          st = st[d := st ! d XOR st ! a];
          st = st[d := push_bit 16 (st ! d) OR drop_bit 16 (st ! d)];
          st = st[c := st ! c + st ! d];
          st = st[b := st ! b XOR st ! c];
          st = st[b := push_bit 12 (st ! b) OR drop_bit 20 (st ! b)];
          st = st[a := st ! a + st ! b];
          st = st[d := st ! d XOR st ! a];
          st = st[d := push_bit 8 (st ! d) OR drop_bit 24 (st ! d)];
          st = st[c := st ! c + st ! d];
          st = st[b := st ! b XOR st ! c];
          st = st[b := push_bit 7 (st ! b) OR drop_bit 25 (st ! b)] in st)"

definition doubleRound :: "u32 list \<Rightarrow> u32 list" where
  "doubleRound w =
     (let w = quarterRound w 0 4 8 12;
          w = quarterRound w 1 5 9 13;
          w = quarterRound w 2 6 10 14;
          w = quarterRound w 3 7 11 15;
          w = quarterRound w 0 5 10 15;
          w = quarterRound w 1 6 11 12;
          w = quarterRound w 2 7 8 13;
          w = quarterRound w 3 4 9 14 in w)"

definition refill :: "chacha20Stream \<Rightarrow> chacha20Stream" where
  "refill s =
     (let w = (doubleRound ^^ 10) (ch_state s);
          counter = ch_counter s + 1 in
      s\<lparr>ch_buf := concat (map (\<lambda>i. PutUint32_le (w ! i + ch_state s ! i)) [0..<16]),
        ch_counter := counter,
        ch_state := (ch_state s)[12 := ucast counter, 13 := ucast (drop_bit 32 counter)],
        ch_pos := 0\<rparr>)"

lemma ch_pos_refill [simp]: "ch_pos (refill s) = 0"
  by (simp add: refill_def Let_def)

text \<open>\<open>fill\<close> returns the bytes written to the destination of length \<open>k\<close>.\<close>

function fill :: "nat \<Rightarrow> chacha20Stream \<Rightarrow> ('e, bytes \<times> chacha20Stream) go" where
  "fill k s =
     (if k = 0 then Ok ([], s) else
      let s = (if ch_pos s = 64 then refill s else s) in
      if ch_pos s > 64 then Panic ''slice bounds out of range'' else
      let n = min k (64 - ch_pos s) in
      go_bind (fill (k - n) (s\<lparr>ch_pos := ch_pos s + n\<rparr>)) (\<lambda>(rest, s').
        Ok (take n (drop (ch_pos s) (ch_buf s)) @ rest, s')))"
  by pat_completeness auto
termination by (relation "measure fst") (auto split: if_splits)

declare fill.simps [simp del]

section \<open>Sampling\<close>

fun seedFromU64_loop :: "nat \<Rightarrow> u64 \<Rightarrow> bytes" where
  "seedFromU64_loop 0 state = []"
| "seedFromU64_loop (Suc n) state =
     (let state = state * 6364136223846793005 + 11634580027462260723;
          xorshifted = (ucast (drop_bit 27 (drop_bit 18 state XOR state)) :: u32);
          rot = unat (drop_bit 59 state);
          x = drop_bit rot xorshifted OR push_bit (32 - rot) xorshifted in
      PutUint32_le x @ seedFromU64_loop n state)"

definition seedFromU64 :: "u64 \<Rightarrow> bytes" where
  "seedFromU64 state = seedFromU64_loop 8 state"

definition u256Max :: int where
  "u256Max = 2 ^ 256 - 1"

definition randomize256_max :: "int \<Rightarrow> int" where
  "randomize256_max m = u256Max - (u256Max - m + 1) mod m"

partial_function (option) randomize256_loop :: "chacha20Stream \<Rightarrow> int \<Rightarrow> int \<Rightarrow> ('e, int) go option" where
  "randomize256_loop stream m mx =
     (case fill 32 stream of
        Err e \<Rightarrow> Some (Err e)
      | Panic s \<Rightarrow> Some (Panic s)
      | Diverge \<Rightarrow> None
      | Ok (b, stream') \<Rightarrow>
          let r = int (be_val (rev b)) in
          if r \<le> mx then Some (Ok (r mod m)) else randomize256_loop stream' m mx)"

definition randomize256 :: "chacha20Stream \<Rightarrow> int \<Rightarrow> ('e, int) go" where
  "randomize256 stream m =
     (if m = 0 then Panic ''division by zero'' else
      case randomize256_loop stream m (randomize256_max m) of
        None \<Rightarrow> Diverge
      | Some r \<Rightarrow> r)"

section \<open>Leaders\<close>

text \<open>The cumulative stakes of the members with a positive stake, and the total.\<close>

fun leader_bounds :: "(node_id \<Rightarrow> stake) \<Rightarrow> node_id list \<Rightarrow> int \<Rightarrow> (node_id \<times> int) list \<times> int" where
  "leader_bounds stakeOf [] tot = ([], tot)"
| "leader_bounds stakeOf (nid # members) tot =
     (let s = stakeOf nid in
      if Stake_IsZero s then leader_bounds stakeOf members tot else
      let tot = tot + int (stake_val s);
          (bounds, tot') = leader_bounds stakeOf members tot in
      ((nid, tot) # bounds, tot'))"

text \<open>The binary search of \<open>getLeader\<close> is the loop of \<open>sort.Search\<close> written out.\<close>

definition pickLeader :: "(node_id \<times> int) list \<Rightarrow> int \<Rightarrow> ('e, node_id) go" where
  "pickLeader bounds stakeIndex =
     (let lo = sort_Search_loop 0 (length bounds) (\<lambda>mid. snd (bounds ! mid) > stakeIndex) in
      if lo < length bounds then Ok (fst (bounds ! lo)) else Panic ''index out of range'')"

definition getLeader :: "round \<Rightarrow> node_id list \<Rightarrow> (node_id \<Rightarrow> stake) \<Rightarrow> ('e, node_id) go" where
  "getLeader round members stakeOf =
     (let (bounds, tot) = leader_bounds stakeOf members 0 in
      if bounds = [] then Panic ''election: no validator has positive stake'' else
      go_bind (randomize256 (newChaCha20Stream (seedFromU64 round)) tot) (pickLeader bounds))"

definition GetLeader :: "round \<Rightarrow> ValidatorSet \<Rightarrow> ('e, node_id) go" where
  "GetLeader round valSet = getLeader round (vs_members valSet) (\<lambda>nid. fst (StakeOf valSet nid))"

section \<open>The stream never runs out\<close>

definition stream_inv :: "chacha20Stream \<Rightarrow> bool" where
  "stream_inv s \<longleftrightarrow> ch_pos s \<le> 64 \<and> length (ch_buf s) = 64"

lemma length_PutUint32_le [simp]: "length (PutUint32_le w) = 4"
  by (simp add: PutUint32_le_def)

lemma stream_inv_new: "stream_inv (newChaCha20Stream key)"
  by (simp add: stream_inv_def newChaCha20Stream_def)

lemma stream_inv_refill: "stream_inv (refill s)"
  by (simp add: stream_inv_def refill_def Let_def length_concat comp_def sum_list_replicate upt_conv_Cons)

lemma fill_Ok:
  assumes "stream_inv s"
  shows "\<exists>b s'. (fill k s :: ('e, _) go) = Ok (b, s') \<and> (fill k s :: (unit, _) go) = Ok (b, s') \<and> length b = k \<and> stream_inv s'"
  using assms
proof (induction k s rule: fill.induct)
  case (1 k s)
  define s1 where "s1 = (if ch_pos s = 64 then refill s else s)"
  define n where "n = min k (64 - ch_pos s1)"
  have inv: "stream_inv s1" "ch_pos s1 < 64"
    using "1.prems" stream_inv_refill[of s] by (auto simp: s1_def stream_inv_def)
  show ?case
  proof (cases "k = 0")
    case False
    have "stream_inv (s1\<lparr>ch_pos := ch_pos s1 + n\<rparr>)" using inv by (auto simp: stream_inv_def n_def)
    then obtain b s' where "(fill (k - n) (s1\<lparr>ch_pos := ch_pos s1 + n\<rparr>) :: ('e, _) go) = Ok (b, s')"
      "(fill (k - n) (s1\<lparr>ch_pos := ch_pos s1 + n\<rparr>) :: (unit, _) go) = Ok (b, s')" "length b = k - n" "stream_inv s'"
      using "1.IH"[OF False s1_def _ n_def] inv(2) by auto
    then show ?thesis
      using inv False by (subst (1 2) fill.simps) (simp add: s1_def[symmetric] n_def[symmetric] Let_def stream_inv_def, simp add: n_def)
  qed (use "1.prems" in \<open>simp add: fill.simps\<close>)
qed

definition draw :: "chacha20Stream \<Rightarrow> int \<times> chacha20Stream" where
  "draw s = (case (fill 32 s :: (unit, _) go) of Ok (b, s') \<Rightarrow> (int (be_val (rev b)), s') | _ \<Rightarrow> (0, s))"

fun sample :: "chacha20Stream \<Rightarrow> nat \<Rightarrow> int" where
  "sample s 0 = fst (draw s)"
| "sample s (Suc k) = sample (snd (draw s)) k"

lemma fill_draw:
  assumes "stream_inv s"
  shows "\<exists>b. (fill 32 s :: ('e, _) go) = Ok (b, snd (draw s)) \<and> int (be_val (rev b)) = fst (draw s)"
    and "stream_inv (snd (draw s))" and "0 \<le> fst (draw s) \<and> fst (draw s) \<le> u256Max"
proof -
  obtain b s' where f: "(fill 32 s :: ('e, _) go) = Ok (b, s')" "(fill 32 s :: (unit, _) go) = Ok (b, s')" "length b = 32" "stream_inv s'"
    using fill_Ok[OF assms, of 32] by blast
  have "be_val (rev b) < 2 ^ 256" using be_val_less[of "rev b"] f(3) by simp
  then have "int (be_val (rev b)) < int (2 ^ 256)" by (simp only: of_nat_less_iff)
  then have "int (be_val (rev b)) \<le> u256Max" by (simp add: u256Max_def)
  with f show "\<exists>b. (fill 32 s :: ('e, _) go) = Ok (b, snd (draw s)) \<and> int (be_val (rev b)) = fst (draw s)"
    "stream_inv (snd (draw s))" "0 \<le> fst (draw s) \<and> fst (draw s) \<le> u256Max" by (simp_all add: draw_def)
qed

lemma randomize256_loop_step:
  assumes "stream_inv s"
  shows "randomize256_loop s m mx = (if fst (draw s) \<le> mx then Some (Ok (fst (draw s) mod m)) else randomize256_loop (snd (draw s)) m mx)"
  using fill_draw(1)[OF assms, where ?'e = 'a] by (subst randomize256_loop.simps) (auto simp: Let_def)

lemma randomize256_loop_accepts:
  assumes "stream_inv s" and "sample s k \<le> mx"
  shows "\<exists>j\<le>k. sample s j \<le> mx \<and> (\<forall>i<j. mx < sample s i) \<and> (randomize256_loop s m mx :: ('e, _) go option) = Some (Ok (sample s j mod m))"
  using assms
proof (induction k arbitrary: s)
  case 0
  then show ?case by (subst randomize256_loop_step) auto
next
  case (Suc k)
  show ?case
  proof (cases "fst (draw s) \<le> mx")
    case True
    then show ?thesis using Suc.prems(1) by (intro exI[of _ 0]) (simp add: randomize256_loop_step)
  next
    case False
    obtain j where j: "j \<le> k" "sample (snd (draw s)) j \<le> mx" "\<forall>i<j. mx < sample (snd (draw s)) i"
      "(randomize256_loop (snd (draw s)) m mx :: ('e, _) go option) = Some (Ok (sample (snd (draw s)) j mod m))"
      using Suc.IH[of "snd (draw s)"] fill_draw(2)[OF Suc.prems(1)] Suc.prems(2) by auto
    with False Suc.prems(1) show ?thesis
      by (intro exI[of _ "Suc j"]) (auto simp: randomize256_loop_step less_Suc_eq_0_disj)
  qed
qed

section \<open>Rejection makes the draw uniform\<close>

lemma randomize256_max_multiple:
  assumes "0 < m" shows "randomize256_max m + 1 = 2 ^ 256 div m * m"
proof -
  have "(2 ^ 256 - m) mod m = 2 ^ 256 mod m" by simp
  then have "randomize256_max m + 1 = 2 ^ 256 - 2 ^ 256 mod m" by (simp add: randomize256_max_def u256Max_def)
  then show ?thesis by (simp add: minus_mod_eq_div_mult)
qed

lemma bij_residues:
  fixes m q a s :: int
  assumes "0 < m" "0 \<le> a" "a + s \<le> m"
  shows "bij_betw (\<lambda>(k, x). k * m + x) ({0..<q} \<times> {a..<a + s}) {r. 0 \<le> r \<and> r < q * m \<and> a \<le> r mod m \<and> r mod m < a + s}"
    (is "bij_betw ?f ?A ?R")
proof (rule bij_betw_byWitness[where f' = "\<lambda>r. (r div m, r mod m)"])
  have image: "?f (k, x) \<in> ?R" if "(k, x) \<in> ?A" for k x
  proof -
    have x: "0 \<le> x" "x < m" using that assms by auto
    have "k * m + x < (k + 1) * m" using x by (simp add: distrib_right)
    also have "(k + 1) * m \<le> q * m" using that assms(1) by (intro mult_right_mono) auto
    finally show ?thesis using that assms(1) x by (simp add: mod_pos_pos_trivial)
  qed
  then show "?f ` ?A \<subseteq> ?R" by blast
  show "\<forall>y\<in>?A. (?f y div m, ?f y mod m) = y"
    using assms by (auto simp: div_pos_pos_trivial mod_pos_pos_trivial)
  show "\<forall>r\<in>?R. ?f (r div m, r mod m) = r" by simp
  show "(\<lambda>r. (r div m, r mod m)) ` ?R \<subseteq> ?A"
  proof -
    have "r div m < q" if "r < q * m" for r
    proof -
      have "r div m * m \<le> r" using assms(1) by (metis div_mult_mod_eq le_add_same_cancel1 pos_mod_sign)
      with that have "r div m * m < q * m" by linarith
      then show ?thesis using assms(1) by simp
    qed
    then show ?thesis using assms(1) by (auto simp: pos_imp_zdiv_nonneg_iff)
  qed
qed

lemma card_residues:
  fixes m q a s :: int
  assumes "0 < m" "0 \<le> q" "0 \<le> a" "0 \<le> s" "a + s \<le> m"
  shows "int (card {r. 0 \<le> r \<and> r < q * m \<and> a \<le> r mod m \<and> r mod m < a + s}) = s * q"
  using bij_betw_same_card[OF bij_residues[OF assms(1,3,5), of q], symmetric] assms
  by (simp add: card_cartesian_product mult.commute)

section \<open>Stake intervals\<close>

abbreviation stake_sum :: "(node_id \<Rightarrow> stake) \<Rightarrow> node_id list \<Rightarrow> int" where
  "stake_sum stakeOf ms \<equiv> (\<Sum>n\<leftarrow>ms. int (stake_val (stakeOf n)))"

lemma stake_sum_nonneg [simp]: "0 \<le> stake_sum stakeOf ms"
  by (induction ms) auto

lemma leader_bounds_spec:
  assumes "leader_bounds stakeOf ms t = (bs, t')" and "\<forall>n\<in>set ms. wf_stake (stakeOf n)"
  shows "t' = t + stake_sum stakeOf ms \<and> sorted (map snd bs) \<and> (\<forall>b\<in>set bs. t < snd b)"
  using assms
proof (induction ms arbitrary: t bs t')
  case (Cons n ms)
  let ?v = "int (stake_val (stakeOf n))"
  obtain bs1 where r: "leader_bounds stakeOf ms (t + ?v) = (bs1, t')"
    and bs: "bs = (if ?v = 0 then bs1 else (n, t + ?v) # bs1)"
    using Cons.prems by (auto simp: Let_def Stake_IsZero_val split: if_splits prod.splits)
  have "t' = t + ?v + stake_sum stakeOf ms \<and> sorted (map snd bs1) \<and> (\<forall>b\<in>set bs1. t + ?v < snd b)"
    using Cons.IH[OF r] Cons.prems(2) by simp
  then show ?case unfolding bs by (auto simp: add.assoc)
qed auto

lemma leader_bounds_find:
  assumes "leader_bounds stakeOf ms t = (bs, t')" and "\<forall>n\<in>set ms. wf_stake (stakeOf n)" and "t \<le> x" and "x < t'"
  shows "\<exists>pre n post. ms = pre @ n # post \<and> t + stake_sum stakeOf pre \<le> x
    \<and> x < t + stake_sum stakeOf pre + int (stake_val (stakeOf n))
    \<and> find (\<lambda>b. x < snd b) bs = Some (n, t + stake_sum stakeOf pre + int (stake_val (stakeOf n)))"
  using assms
proof (induction ms arbitrary: t bs t')
  case (Cons n ms)
  let ?t = "t + int (stake_val (stakeOf n))"
  show ?case
  proof (cases "x < ?t")
    case True
    then have "\<not> Stake_IsZero (stakeOf n)" using Cons.prems(2,3) by (auto simp: Stake_IsZero_val)
    with Cons.prems True show ?thesis
      by (intro exI[of _ "[]"] exI[of _ n] exI[of _ ms]) (auto simp: Let_def split: prod.splits)
  next
    case False
    obtain bs1 where r: "leader_bounds stakeOf ms ?t = (bs1, t')" "find (\<lambda>b. x < snd b) bs = find (\<lambda>b. x < snd b) bs1"
      using Cons.prems(1,2) False by (auto simp: Let_def Stake_IsZero_val split: if_splits prod.splits)
    obtain pre k post where "ms = pre @ k # post" "?t + stake_sum stakeOf pre \<le> x"
      "x < ?t + stake_sum stakeOf pre + int (stake_val (stakeOf k))"
      "find (\<lambda>b. x < snd b) bs1 = Some (k, ?t + stake_sum stakeOf pre + int (stake_val (stakeOf k)))"
      using Cons.IH[OF r(1)] Cons.prems(2,4) False by auto
    then show ?thesis unfolding r(2)
      by (intro exI[of _ "n # pre"] exI[of _ k] exI[of _ post]) (simp add: add.assoc)
  qed
qed auto

lemma pickLeader_find:
  assumes "sorted (map snd bs)" and "find (\<lambda>b. x < snd b) bs = Some (n, b)"
  shows "pickLeader bs x = Ok n"
proof -
  let ?i = "sort_Search (length bs) (\<lambda>i. x < snd (bs ! i))"
  obtain i where i: "i < length bs" "x < snd (bs ! i)" "(n, b) = bs ! i" "\<forall>j<i. \<not> x < snd (bs ! j)"
    using assms(2) unfolding find_Some_iff by blast
  have mono: "x < snd (bs ! l)" if "k \<le> l" "l < length bs" "x < snd (bs ! k)" for k l
    using sorted_nth_mono[OF assms(1), of k l] that by simp
  have s: "\<And>k. k < ?i \<Longrightarrow> \<not> x < snd (bs ! k)" "\<And>k. k < length bs \<Longrightarrow> ?i \<le> k \<Longrightarrow> x < snd (bs ! k)"
    using sort_Search_spec[of "length bs" "\<lambda>i. x < snd (bs ! i)"] mono by blast+
  have "\<not> i < ?i" using s(1)[of i] i(2) by blast
  moreover have "\<not> ?i < i" using s(2)[of ?i] i(1,4) by auto
  ultimately have "?i = i" by simp
  then show ?thesis using i(1,3) by (simp add: pickLeader_def sort_Search_def flip: i(3))
qed

section \<open>Properties\<close>

abbreviation members_stake :: "ValidatorSet \<Rightarrow> node_id \<Rightarrow> stake" where
  "members_stake v \<equiv> (\<lambda>n. fst (StakeOf v n))"

abbreviation stake_before :: "ValidatorSet \<Rightarrow> node_id \<Rightarrow> int" where
  "stake_before v n \<equiv> stake_sum (members_stake v) (takeWhile (\<lambda>k. k \<noteq> n) (vs_members v))"

lemma members_stake_wf:
  assumes "stakes_inv v" and "n \<in> set (vs_members v)"
  shows "wf_stake (members_stake v n)" and "0 < stake_val (members_stake v n)"
  using assms by (auto simp: stakes_inv_def StakeOf_def ran_def split: option.splits)

lemma stake_sum_members:
  assumes "stakes_inv v"
  shows "stake_sum (members_stake v) (vs_members v) = int (weight v UNIV)"
proof -
  have m: "distinct (vs_members v)" "set (vs_members v) = dom (vs_stakes v)" using assms by (auto simp: stakes_inv_def)
  have "stake_sum (members_stake v) (vs_members v) = (\<Sum>n\<in>dom (vs_stakes v). int (stake_val (members_stake v n)))"
    using sum_list_distinct_conv_sum_set[OF m(1)] m(2) by metis
  also have "\<dots> = int (weight v UNIV)"
    unfolding weight_def by (auto simp: StakeOf_def intro!: sum.cong)
  finally show ?thesis .
qed

lemma pickLeader_interval:
  assumes "stakes_inv v" and "leader_bounds (members_stake v) (vs_members v) 0 = (bs, t)"
    and "0 \<le> x" and "x < t"
  obtains n where "pickLeader bs x = Ok n" and "n \<in> set (vs_members v)"
    and "stake_before v n \<le> x" and "x < stake_before v n + int (stake_val (members_stake v n))"
proof -
  have wf: "\<forall>n\<in>set (vs_members v). wf_stake (members_stake v n)" using members_stake_wf[OF assms(1)] by blast
  obtain pre n post where s: "vs_members v = pre @ n # post" "stake_sum (members_stake v) pre \<le> x"
    "x < stake_sum (members_stake v) pre + int (stake_val (members_stake v n))"
    "find (\<lambda>b. x < snd b) bs = Some (n, stake_sum (members_stake v) pre + int (stake_val (members_stake v n)))"
    using leader_bounds_find[OF assms(2) wf assms(3,4)] by auto
  have "n \<notin> set pre" using assms(1) s(1) by (auto simp: stakes_inv_def)
  then have "takeWhile (\<lambda>k. k \<noteq> n) (vs_members v) = pre"
    unfolding s(1) by (subst takeWhile_append2) auto
  with s pickLeader_find[OF _ s(4)] leader_bounds_spec[OF assms(2) wf] show ?thesis by (intro that[of n]) auto
qed

lemma stake_before_disjoint:
  assumes "stakes_inv v" and "n \<in> set (vs_members v)" and "k \<in> set (vs_members v)" and "n \<noteq> k"
  shows "stake_before v n + int (stake_val (members_stake v n)) \<le> stake_before v k
    \<or> stake_before v k + int (stake_val (members_stake v k)) \<le> stake_before v n"
proof -
  have split: "stake_sum f (takeWhile (\<lambda>z. z \<noteq> a) xs) + int (stake_val (f a)) \<le> stake_sum f (takeWhile (\<lambda>z. z \<noteq> b) xs)
      \<or> stake_sum f (takeWhile (\<lambda>z. z \<noteq> b) xs) + int (stake_val (f b)) \<le> stake_sum f (takeWhile (\<lambda>z. z \<noteq> a) xs)"
    if "a \<in> set xs" "b \<in> set xs" "a \<noteq> b" for f :: "node_id \<Rightarrow> stake" and a b xs
    using that by (induction xs) auto
  show ?thesis by (rule split[OF assms(2-4)])
qed

text \<open>C24. Election is proportional to stake: of the draws the rejection loop accepts, exactly the fraction a
  member's stake is of the total elects that member.\<close>

theorem election_proportional:
  assumes "stakes_inv v" and "n \<in> set (vs_members v)"
    and "leader_bounds (\<lambda>n. fst (StakeOf v n)) (vs_members v) 0 = (bs, t)"
  shows "t = int (weight v UNIV) \<and> int (card {r. 0 \<le> r \<and> r \<le> randomize256_max t \<and> (pickLeader bs (r mod t) :: (unit, _) go) = Ok n})
    = int (stake_val (fst (StakeOf v n))) * (2 ^ 256 div t)"
proof -
  let ?s = "int (stake_val (members_stake v n))"
  have wf: "\<forall>n\<in>set (vs_members v). wf_stake (members_stake v n)" using members_stake_wf[OF assms(1)] by blast
  have t: "t = stake_sum (members_stake v) (vs_members v)" using leader_bounds_spec[OF assms(3) wf] by simp
  obtain pre post where ms: "vs_members v = pre @ n # post" "n \<notin> set pre"
    using split_list_first[OF assms(2)] by blast
  then have "takeWhile (\<lambda>k. k \<noteq> n) (vs_members v) = pre" unfolding ms(1) by (subst takeWhile_append2) auto
  then have le: "stake_before v n + ?s \<le> t" unfolding t by (simp add: ms(1))
  moreover have "0 < ?s" using members_stake_wf(2)[OF assms(1,2)] by simp
  moreover have before: "0 \<le> stake_before v n" by simp
  ultimately have pos: "0 < t" by linarith
  have pick: "(pickLeader bs x :: (unit, _) go) = Ok n \<longleftrightarrow> stake_before v n \<le> x \<and> x < stake_before v n + ?s"
    if x: "0 \<le> x" "x < t" for x
  proof -
    obtain k where k: "(pickLeader bs x :: (unit, _) go) = Ok k" "k \<in> set (vs_members v)"
      "stake_before v k \<le> x" "x < stake_before v k + int (stake_val (members_stake v k))"
      using pickLeader_interval[OF assms(1,3) x] by blast
    then show ?thesis using stake_before_disjoint[OF assms(1,2) k(2)] by (cases "n = k") auto
  qed
  define q where "q = (2 ^ 256 :: int) div t"
  have max: "r \<le> randomize256_max t \<longleftrightarrow> r < q * t" for r
    using randomize256_max_multiple[OF pos] unfolding q_def by linarith
  have "{r. 0 \<le> r \<and> r \<le> randomize256_max t \<and> (pickLeader bs (r mod t) :: (unit, _) go) = Ok n}
      = {r. 0 \<le> r \<and> r < q * t \<and> stake_before v n \<le> r mod t \<and> r mod t < stake_before v n + ?s}"
    unfolding max using pick[OF pos_mod_sign[OF pos] pos_mod_bound[OF pos]] by simp
  moreover have "0 \<le> q" unfolding q_def using pos by (intro div_int_pos_iff[THEN iffD2]) simp
  ultimately have "int (card {r. 0 \<le> r \<and> r \<le> randomize256_max t \<and> (pickLeader bs (r mod t) :: (unit, _) go) = Ok n}) = ?s * q"
    using card_residues[OF pos _ before _ le, of q] by simp
  then show ?thesis using t stake_sum_members[OF assms(1)] unfolding q_def by simp
qed

lemma election_proportional_witness:
  "\<exists>bs. leader_bounds (\<lambda>n. fst (StakeOf example_set n)) (vs_members example_set) 0 = (bs, 4)
     \<and> int (card {r. 0 \<le> r \<and> r \<le> randomize256_max 4 \<and> (pickLeader bs (r mod 4) :: (unit, _) go) = Ok [2]}) = 2 ^ 254"
proof -
  have "leader_bounds (\<lambda>n. fst (StakeOf example_set n)) (vs_members example_set) 0 = ([([1], 1), ([2], 2), ([3], 3), ([4], 4)], 4)"
    by code_simp
  moreover have "[2] \<in> set (vs_members example_set)" "stake_val (fst (StakeOf example_set [2])) = 1" by code_simp+
  ultimately show ?thesis using election_proportional[OF example_set_inv(1), of "[2]"] by auto
qed

lemma randomize256_accepts:
  assumes "stream_inv s" and "0 < m" and "sample s k \<le> randomize256_max m"
  shows "\<exists>j\<le>k. (randomize256 s m :: ('e, _) go) = Ok (sample s j mod m) \<and> (\<forall>i<j. randomize256_max m < sample s i)"
proof -
  obtain j where "j \<le> k" "\<forall>i<j. randomize256_max m < sample s i"
    "(randomize256_loop s m (randomize256_max m) :: ('e, _) go option) = Some (Ok (sample s j mod m))"
    using randomize256_loop_accepts[OF assms(1,3)] by blast
  with assms(2) show ?thesis by (intro exI[of _ j]) (simp add: randomize256_def)
qed


lemma sample_bound: "stream_inv s \<Longrightarrow> 0 \<le> sample s k \<and> sample s k \<le> u256Max"
  by (induction k arbitrary: s) (auto dest: fill_draw(2,3))


end
