(* ===== verification/Policy.thy ===== *)
theory Policy
  imports Messages
begin

text \<open>
  The block policies of \<open>blocktree/blocktree.go\<close>: what makes a block coherent with the chain it
  extends, and the index of committed blocks from which the delayed execution results are resolved.
  Reading the execution state is a parameter. A slice that may be nil is an option.
\<close>

record RootInfo =
  ri_Round :: round
  ri_SeqNum :: seqnum
  ri_Epoch :: epoch
  ri_BlockId :: block_id
  ri_TimestampNs :: u128

datatype policy_error =
  ErrBlockNotCoherent | ErrTimestamp | ErrExecutionResultMismatch | ErrNotAvailableYet | ErrNeverAvailable | ErrBaseFee

record ValidatorReadData =
  rd_PubKey :: bytes
  rd_CertPubKey :: bytes
  rd_Stake :: stake

record ExecutionStateRead =
  sr_GetExecutionResult :: "block_id \<Rightarrow> seqnum \<Rightarrow> bool \<Rightarrow> (policy_error, FinalizedHeader) go"
  sr_EarliestFinalizedBlock :: "seqnum option"
  sr_LatestFinalizedBlock :: "seqnum option"
  sr_ReadValsetAtBlock :: "seqnum \<Rightarrow> epoch \<Rightarrow> ValidatorReadData list"

abbreviation block_SeqNum :: "ConsensusFullBlock \<Rightarrow> seqnum" where
  "block_SeqNum b \<equiv> bh_SeqNum (fb_Header b)"

abbreviation block_Round :: "ConsensusFullBlock \<Rightarrow> round" where
  "block_Round b \<equiv> bh_BlockRound (fb_Header b)"

abbreviation block_QcRound :: "ConsensusFullBlock \<Rightarrow> round" where
  "block_QcRound b \<equiv> qc_GetRound (bh_QC (fb_Header b))"

section \<open>Coherency checks\<close>

definition finalizedHeadersEqual :: "FinalizedHeader list \<Rightarrow> FinalizedHeader list \<Rightarrow> bool" where
  "finalizedHeadersEqual a b \<longleftrightarrow> length a = length b \<and> list_all (\<lambda>(x, y). fh_Encoded x = fh_Encoded y) (zip a b)"

record MockBlockPolicy =
  mp_ExecutionDelay :: seqnum
  mp_lastCommit :: seqnum
  mp_committed :: "seqnum \<rightharpoonup> block_id"

definition NewMockBlockPolicy :: "seqnum \<Rightarrow> MockBlockPolicy" where
  "NewMockBlockPolicy executionDelay =
     \<lparr>mp_ExecutionDelay = executionDelay, mp_lastCommit = GENESIS_SEQ_NUM, mp_committed = Map.empty\<rparr>"

definition Mock_GetExpectedExecutionResults :: "crypto \<Rightarrow> MockBlockPolicy \<Rightarrow> seqnum \<Rightarrow> ConsensusFullBlock list option
    \<Rightarrow> ExecutionStateRead \<Rightarrow> (policy_error, FinalizedHeader list) go" where
  "Mock_GetExpectedExecutionResults cr p blockSeqNum extending stateRead =
     (if blockSeqNum < mp_ExecutionDelay p then Ok [] else
      let baseSeqNum = blockSeqNum - mp_ExecutionDelay p in
      go_bind
        (if baseSeqNum \<le> mp_lastCommit p then
           (if baseSeqNum = GENESIS_SEQ_NUM then Ok (GENESIS_BLOCK_ID, True)
            else case mp_committed p baseSeqNum of
              None \<Rightarrow> Panic ''blocktree: queried recently committed block that does not exist''
            | Some i \<Rightarrow> Ok (i, True))
         else case extending of
           None \<Rightarrow> Err ErrNotAvailableYet
         | Some blks \<Rightarrow> (case find (\<lambda>blk. block_SeqNum blk = baseSeqNum) blks of
             None \<Rightarrow> Err ErrNotAvailableYet
           | Some blk \<Rightarrow> Ok (block_GetId cr blk, False)))
        (\<lambda>(blockID, isFinalized).
      go_bind (sr_GetExecutionResult stateRead blockID baseSeqNum isFinalized) (\<lambda>res. Ok [res])))"

text \<open>The checks both \<open>PassthruBlockPolicy\<close> and \<open>MockBlockPolicy\<close> make, with the expected results as a parameter.\<close>

definition check_extends :: "ConsensusFullBlock \<Rightarrow> ConsensusFullBlock list option \<Rightarrow> RootInfo
    \<Rightarrow> (policy_error, FinalizedHeader list) go \<Rightarrow> (policy_error, unit) go" where
  "check_extends block extending root expected =
     (let ext = (case extending of None \<Rightarrow> [] | Some l \<Rightarrow> l);
          (extSeqNum, extTs) = (if ext \<noteq> [] then (block_SeqNum (last ext), bh_TimestampNs (fb_Header (last ext)))
                                else (ri_SeqNum root, U128_zero)) in
      if block_SeqNum block \<noteq> extSeqNum + 1 then Err ErrBlockNotCoherent
      else if U128_Cmp (bh_TimestampNs (fb_Header block)) extTs \<le> 0 then Err ErrTimestamp
      else go_bind expected (\<lambda>results.
        if finalizedHeadersEqual (bh_DelayedExecutionResults (fb_Header block)) results then Ok ()
        else Err ErrExecutionResultMismatch))"

definition Passthru_CheckCoherency :: "ConsensusFullBlock \<Rightarrow> ConsensusFullBlock list option \<Rightarrow> RootInfo \<Rightarrow> (policy_error, unit) go" where
  "Passthru_CheckCoherency block extending root = check_extends block extending root (Ok [])"

definition Mock_CheckCoherency :: "crypto \<Rightarrow> MockBlockPolicy \<Rightarrow> ConsensusFullBlock \<Rightarrow> ConsensusFullBlock list option
    \<Rightarrow> RootInfo \<Rightarrow> ExecutionStateRead \<Rightarrow> (policy_error, unit) go" where
  "Mock_CheckCoherency cr p block extending root stateRead =
     check_extends block extending root
       (Mock_GetExpectedExecutionResults cr p (block_SeqNum block) extending stateRead)"

record EvmBlockPolicy = MockBlockPolicy +
  evm_BaseFee :: u64
  evm_BaseFeeTrend :: u64
  evm_BaseFeeMoment :: u64

definition NewEvmBlockPolicy :: "seqnum \<Rightarrow> u64 \<Rightarrow> u64 \<Rightarrow> u64 \<Rightarrow> EvmBlockPolicy" where
  "NewEvmBlockPolicy executionDelay baseFee baseFeeTrend baseFeeMoment =
     MockBlockPolicy.extend (NewMockBlockPolicy executionDelay)
       (EvmBlockPolicy.fields baseFee baseFeeTrend baseFeeMoment)"

definition Evm_CheckCoherency :: "crypto \<Rightarrow> EvmBlockPolicy \<Rightarrow> ConsensusFullBlock \<Rightarrow> ConsensusFullBlock list option
    \<Rightarrow> RootInfo \<Rightarrow> ExecutionStateRead \<Rightarrow> (policy_error, unit) go" where
  "Evm_CheckCoherency cr p block extending root stateRead =
     go_bind (Mock_CheckCoherency cr (MockBlockPolicy.truncate p) block extending root stateRead) (\<lambda>_.
       let h = fb_Header block in
       if bh_BaseFee h \<noteq> evm_BaseFee p \<or> bh_BaseFeeTrend h \<noteq> evm_BaseFeeTrend p \<or> bh_BaseFeeMoment h \<noteq> evm_BaseFeeMoment p
       then Err ErrBaseFee else Ok ())"

section \<open>Committed blocks\<close>

definition Mock_UpdateCommittedBlock :: "crypto \<Rightarrow> ConsensusFullBlock \<Rightarrow> MockBlockPolicy \<Rightarrow> ('e, MockBlockPolicy) go" where
  "Mock_UpdateCommittedBlock cr block p =
     (if block_SeqNum block \<noteq> mp_lastCommit p + 1 then Panic ''blocktree: committed seq does not follow'' else
      let minSeq = SeqNum_SaturatingSub (block_SeqNum block) (mp_ExecutionDelay p * 2);
          committed = (mp_committed p)(block_SeqNum block \<mapsto> block_GetId cr block) in
      Ok (p\<lparr>mp_lastCommit := block_SeqNum block,
            mp_committed := (\<lambda>s. if s < minSeq then None else committed s)\<rparr>))"

definition Mock_Reset :: "crypto \<Rightarrow> ConsensusFullBlock list \<Rightarrow> MockBlockPolicy \<Rightarrow> MockBlockPolicy" where
  "Mock_Reset cr lastDelayCommitted p =
     fold (\<lambda>blk p. p\<lparr>mp_committed := (mp_committed p)(block_SeqNum blk \<mapsto> block_GetId cr blk), mp_lastCommit := block_SeqNum blk\<rparr>)
       lastDelayCommitted (p\<lparr>mp_committed := Map.empty, mp_lastCommit := GENESIS_SEQ_NUM\<rparr>)"

section \<open>The interface\<close>

datatype BlockPolicy = PassthruBlockPolicy | MockPolicy MockBlockPolicy | EvmPolicy EvmBlockPolicy

fun CheckCoherency :: "crypto \<Rightarrow> BlockPolicy \<Rightarrow> ConsensusFullBlock \<Rightarrow> ConsensusFullBlock list option \<Rightarrow> RootInfo
    \<Rightarrow> ExecutionStateRead \<Rightarrow> (policy_error, unit) go" where
  "CheckCoherency cr PassthruBlockPolicy block extending root stateRead = Passthru_CheckCoherency block extending root"
| "CheckCoherency cr (MockPolicy p) block extending root stateRead = Mock_CheckCoherency cr p block extending root stateRead"
| "CheckCoherency cr (EvmPolicy p) block extending root stateRead = Evm_CheckCoherency cr p block extending root stateRead"

fun GetExpectedExecutionResults :: "crypto \<Rightarrow> BlockPolicy \<Rightarrow> seqnum \<Rightarrow> ConsensusFullBlock list option
    \<Rightarrow> ExecutionStateRead \<Rightarrow> (policy_error, FinalizedHeader list) go" where
  "GetExpectedExecutionResults cr PassthruBlockPolicy s extending stateRead = Ok []"
| "GetExpectedExecutionResults cr (MockPolicy p) s extending stateRead = Mock_GetExpectedExecutionResults cr p s extending stateRead"
| "GetExpectedExecutionResults cr (EvmPolicy p) s extending stateRead =
     Mock_GetExpectedExecutionResults cr (MockBlockPolicy.truncate p) s extending stateRead"

fun UpdateCommittedBlock :: "crypto \<Rightarrow> ConsensusFullBlock \<Rightarrow> BlockPolicy \<Rightarrow> ('e, BlockPolicy) go" where
  "UpdateCommittedBlock cr block PassthruBlockPolicy = Ok PassthruBlockPolicy"
| "UpdateCommittedBlock cr block (MockPolicy p) = go_bind (Mock_UpdateCommittedBlock cr block p) (\<lambda>p. Ok (MockPolicy p))"
| "UpdateCommittedBlock cr block (EvmPolicy p) =
     go_bind (Mock_UpdateCommittedBlock cr block (MockBlockPolicy.truncate p)) (\<lambda>q.
       Ok (EvmPolicy (p\<lparr>mp_lastCommit := mp_lastCommit q, mp_committed := mp_committed q\<rparr>)))"

fun Policy_Reset :: "crypto \<Rightarrow> ConsensusFullBlock list \<Rightarrow> BlockPolicy \<Rightarrow> BlockPolicy" where
  "Policy_Reset cr blks PassthruBlockPolicy = PassthruBlockPolicy"
| "Policy_Reset cr blks (MockPolicy p) = MockPolicy (Mock_Reset cr blks p)"
| "Policy_Reset cr blks (EvmPolicy p) =
     (let q = Mock_Reset cr blks (MockBlockPolicy.truncate p) in
      EvmPolicy (p\<lparr>mp_lastCommit := mp_lastCommit q, mp_committed := mp_committed q\<rparr>))"

definition MockValidator_Validate :: "crypto \<Rightarrow> ConsensusBlockHeader \<Rightarrow> ConsensusBlockBody \<Rightarrow> (string, ConsensusFullBlock) go" where
  "MockValidator_Validate cr header body = NewFullBlock cr header body"

text \<open>What a successful check gives, whatever the policy.\<close>

abbreviation ext_SeqNum :: "RootInfo \<Rightarrow> ConsensusFullBlock list \<Rightarrow> seqnum" where
  "ext_SeqNum root ext \<equiv> (if ext = [] then ri_SeqNum root else block_SeqNum (last ext))"

abbreviation ext_Timestamp :: "ConsensusFullBlock list \<Rightarrow> u128" where
  "ext_Timestamp ext \<equiv> (if ext = [] then U128_zero else bh_TimestampNs (fb_Header (last ext)))"

lemma check_extends_Ok:
  assumes "check_extends block (Some ext) root expected = Ok u"
  shows "block_SeqNum block = ext_SeqNum root ext + 1"
    and "\<not> U128_Cmp (bh_TimestampNs (fb_Header block)) (ext_Timestamp ext) \<le> 0"
    and "\<exists>res. expected = Ok res \<and> finalizedHeadersEqual (bh_DelayedExecutionResults (fb_Header block)) res"
  using assms by (auto simp: check_extends_def Let_def go_simps split: if_splits)

lemma CheckCoherency_extends:
  assumes "CheckCoherency cr p block (Some ext) root sr = Ok u"
  shows "\<exists>expected u. check_extends block (Some ext) root expected = Ok u"
  using assms
  by (cases p) (auto simp: Passthru_CheckCoherency_def Mock_CheckCoherency_def Evm_CheckCoherency_def go_simps)

lemma CheckCoherency_SeqNum:
  assumes "CheckCoherency cr p block (Some ext) root sr = Ok u"
  shows "block_SeqNum block = ext_SeqNum root ext + 1"
    and "\<not> U128_Cmp (bh_TimestampNs (fb_Header block)) (ext_Timestamp ext) \<le> 0"
  using CheckCoherency_extends[OF assms] check_extends_Ok(1,2) by blast+

fun policy_lastCommit :: "BlockPolicy \<Rightarrow> seqnum option" where
  "policy_lastCommit PassthruBlockPolicy = None"
| "policy_lastCommit (MockPolicy p) = Some (mp_lastCommit p)"
| "policy_lastCommit (EvmPolicy p) = Some (mp_lastCommit p)"

lemma UpdateCommittedBlock_Ok:
  assumes "\<forall>s. policy_lastCommit p = Some s \<longrightarrow> block_SeqNum b = s + 1"
  shows "\<exists>p'. (UpdateCommittedBlock cr b p :: ('e, _) go) = Ok p' \<and> (\<forall>s. policy_lastCommit p' = Some s \<longrightarrow> s = block_SeqNum b)"
  using assms by (cases p) (auto simp: Mock_UpdateCommittedBlock_def Let_def MockBlockPolicy.defs)

end
