(* ===== verification/Blocktree.thy ===== *)
theory Blocktree
  imports Policy
begin

text \<open>
  The pending block tree of \<open>blocktree/blocktree.go\<close>. The map of entries is ranged over, so it is an
  association list in the order of the iteration; the payload index is only looked up. A walk along
  parent pointers gets as fuel one step more than there are entries: a walk that is longer has
  visited an entry twice and never ends. The breadth-first searches along children are partial
  functions, not returning is \<open>None\<close>.
\<close>

record BlockTreeEntry =
  te_ValidatedBlock :: ConsensusFullBlock
  te_IsCoherent :: bool
  te_ChildrenBlocks :: "block_id list"

record blockBodyIndex =
  bi_body :: ConsensusBlockBody
  bi_activeBlocks :: "block_id set"

record BlockTree =
  bt_root :: RootInfo
  bt_rootKids :: "block_id list"
  bt_tree :: "(block_id \<times> BlockTreeEntry) list"
  bt_payloads :: "body_id \<rightharpoonup> blockBodyIndex"

abbreviation te_Parent :: "BlockTreeEntry \<Rightarrow> block_id" where
  "te_Parent e \<equiv> qc_GetBlockId (bh_QC (fb_Header (te_ValidatedBlock e)))"

abbreviation bt_rootId :: "BlockTree \<Rightarrow> block_id" where
  "bt_rootId t \<equiv> ri_BlockId (bt_root t)"

abbreviation bt_get :: "BlockTree \<Rightarrow> block_id \<Rightarrow> BlockTreeEntry option" where
  "bt_get t i \<equiv> map_of (bt_tree t) i"

section \<open>Operations\<close>

definition blocktree_New :: "RootInfo \<Rightarrow> BlockTree" where
  "blocktree_New root = \<lparr>bt_root = root, bt_rootKids = [], bt_tree = [], bt_payloads = Map.empty\<rparr>"

definition IsCoherent :: "BlockTree \<Rightarrow> block_id \<Rightarrow> bool" where
  "IsCoherent t b =
     (if b = bt_rootId t then True
      else case bt_get t b of Some e \<Rightarrow> te_IsCoherent e | None \<Rightarrow> False)"

definition IsValidToInsert :: "crypto \<Rightarrow> BlockTree \<Rightarrow> ConsensusBlockHeader \<Rightarrow> bool" where
  "IsValidToInsert cr t h \<longleftrightarrow> bt_get t (header_GetId cr h) = None \<and> bh_BlockRound h > ri_Round (bt_root t)"

definition bt_insert :: "crypto \<Rightarrow> ConsensusFullBlock \<Rightarrow> BlockTree \<Rightarrow> BlockTree" where
  "bt_insert cr block t =
     (let newId = block_GetId cr block;
          parentId = qc_GetBlockId (bh_QC (fb_Header block));
          bodyId = bh_BlockBodyId (fb_Header block);
          children = map fst (filter (\<lambda>(i, e). te_Parent e = newId) (bt_tree t));
          tree = aput newId \<lparr>te_ValidatedBlock = block, te_IsCoherent = False, te_ChildrenBlocks = children\<rparr> (bt_tree t);
          tree = (case map_of tree parentId of
             Some pe \<Rightarrow> aput parentId (pe\<lparr>te_ChildrenBlocks := te_ChildrenBlocks pe @ [newId]\<rparr>) tree
           | None \<Rightarrow> tree);
          idx = (case bt_payloads t bodyId of
             Some idx \<Rightarrow> idx
           | None \<Rightarrow> \<lparr>bi_body = fb_Body block, bi_activeBlocks = {}\<rparr>) in
      t\<lparr>bt_tree := tree,
        bt_payloads := (bt_payloads t)(bodyId \<mapsto> idx\<lparr>bi_activeBlocks := insert newId (bi_activeBlocks idx)\<rparr>)\<rparr>)"

definition bt_remove :: "block_id \<Rightarrow> BlockTree \<Rightarrow> (BlockTree \<times> BlockTreeEntry) option" where
  "bt_remove i t =
     (case bt_get t i of
        None \<Rightarrow> None
      | Some e \<Rightarrow>
          let pid = bh_BlockBodyId (fb_Header (te_ValidatedBlock e));
              payloads = (case bt_payloads t pid of
                 None \<Rightarrow> bt_payloads t
               | Some idx \<Rightarrow> let active = bi_activeBlocks idx - {i} in
                   if active = {} then (bt_payloads t)(pid := None)
                   else (bt_payloads t)(pid \<mapsto> idx\<lparr>bi_activeBlocks := active\<rparr>)) in
          Some (t\<lparr>bt_tree := adel i (bt_tree t), bt_payloads := payloads\<rparr>, e))"

definition Add :: "crypto \<Rightarrow> ConsensusFullBlock \<Rightarrow> BlockTree \<Rightarrow> BlockTree" where
  "Add cr block t =
     (if \<not> IsValidToInsert cr t (fb_Header block) then t else
      let newId = block_GetId cr block;
          parentId = qc_GetBlockId (bh_QC (fb_Header block));
          t = bt_insert cr block t in
      if parentId = bt_rootId t then t\<lparr>bt_rootKids := bt_rootKids t @ [newId]\<rparr> else t)"

lemma bt_remove_shorter:
  assumes "bt_remove i t = Some (t', e)" shows "length (bt_tree t') < length (bt_tree t)"
proof -
  have "i \<in> set (akeys (bt_tree t))" "bt_tree t' = adel i (bt_tree t)"
    using assms by (auto simp: bt_remove_def Let_def in_akeys_iff split: option.splits)
  then show ?thesis by (simp add: length_adel_less)
qed

text \<open>The commit loop of \<open>Prune\<close>: the entries from the new root down to the old one are removed.\<close>

function prune_loop :: "BlockTreeEntry \<Rightarrow> ConsensusFullBlock list \<Rightarrow> BlockTree \<Rightarrow> ('e, BlockTree \<times> ConsensusFullBlock list) go" where
  "prune_loop entry commit t =
     (if \<not> te_IsCoherent entry then Panic ''blocktree: incoherent block on commit path'' else
      let vb = te_ValidatedBlock entry;
          parentId = te_Parent entry;
          commit = commit @ [vb] in
      if parentId = bt_rootId t then Ok (t, commit) else
      case bt_remove parentId t of
        None \<Rightarrow> Panic ''blocktree: path to root broken''
      | Some (t, entry) \<Rightarrow> prune_loop entry commit t)"
  by pat_completeness auto
termination by (relation "measure (\<lambda>(entry, commit, t). length (bt_tree t))") (auto dest: bt_remove_shorter)

declare prune_loop.simps [simp del]

definition prune_gc :: "round \<Rightarrow> BlockTree \<Rightarrow> BlockTree" where
  "prune_gc round t =
     (let toDelete = map fst (filter (\<lambda>(i, e). block_QcRound (te_ValidatedBlock e) < round) (bt_tree t)) in
      fold (\<lambda>i t. case bt_remove i t of None \<Rightarrow> t | Some (t', _) \<Rightarrow> t') toDelete t)"

definition Prune :: "crypto \<Rightarrow> block_id \<Rightarrow> BlockTree \<Rightarrow> ('e, BlockTree \<times> ConsensusFullBlock list) go" where
  "Prune cr newRoot t =
     (if \<not> IsCoherent t newRoot then Panic ''blocktree: prune on incoherent block''
      else if newRoot = bt_rootId t then Ok (t, [])
      else case bt_remove newRoot t of
        None \<Rightarrow> Panic ''blocktree: new root not in tree''
      | Some (t, newRootEntry) \<Rightarrow>
          go_bind (prune_loop newRootEntry [] t) (\<lambda>(t, commit).
          let b = te_ValidatedBlock newRootEntry;
              t = prune_gc (block_Round b) t in
          Ok (t\<lparr>bt_root := \<lparr>ri_Round = block_Round b, ri_SeqNum = block_SeqNum b, ri_Epoch = bh_Epoch (fb_Header b),
                           ri_BlockId = block_GetId cr b, ri_TimestampNs = bh_TimestampNs (fb_Header b)\<rparr>,
                bt_rootKids := te_ChildrenBlocks newRootEntry\<rparr>, rev commit)))"

fun path_loop :: "nat \<Rightarrow> BlockTree \<Rightarrow> block_id \<Rightarrow> ConsensusFullBlock list \<Rightarrow> ('e, ConsensusFullBlock list option) go" where
  "path_loop 0 t visit blocks = Diverge"
| "path_loop (Suc n) t visit blocks =
     (case bt_get t visit of
        None \<Rightarrow> Ok None
      | Some e \<Rightarrow>
          let blocks = blocks @ [te_ValidatedBlock e] in
          if te_Parent e = bt_rootId t then Ok (Some (rev blocks))
          else path_loop n t (te_Parent e) blocks)"

definition GetBlocksOnPathFromRoot :: "BlockTree \<Rightarrow> block_id \<Rightarrow> ('e, ConsensusFullBlock list option) go" where
  "GetBlocksOnPathFromRoot t b =
     (if b = bt_rootId t then Ok (Some []) else path_loop (Suc (length (bt_tree t))) t b [])"

definition set_coherent :: "block_id \<Rightarrow> BlockTree \<Rightarrow> BlockTree" where
  "set_coherent i t =
     (case bt_get t i of
        None \<Rightarrow> t
      | Some e \<Rightarrow> t\<lparr>bt_tree := aput i (e\<lparr>te_IsCoherent := True\<rparr>) (bt_tree t)\<rparr>)"

text \<open>The queue of \<open>TryUpdateCoherency\<close>.\<close>

partial_function (option) coherency_loop :: "crypto \<Rightarrow> BlockPolicy \<Rightarrow> ExecutionStateRead \<Rightarrow> block_id list \<Rightarrow> ConsensusFullBlock list
    \<Rightarrow> BlockTree \<Rightarrow> ('e, BlockTree \<times> ConsensusFullBlock list) go option" where
  "coherency_loop cr policy sr queue out t =
     (case queue of
        [] \<Rightarrow> Some (Ok (t, out))
      | nextId # queue \<Rightarrow>
          (case GetBlocksOnPathFromRoot t nextId of
             Err e \<Rightarrow> Some (Err e)
           | Panic s \<Rightarrow> Some (Panic s)
           | Diverge \<Rightarrow> None
           | Ok None \<Rightarrow> coherency_loop cr policy sr queue out t
           | Ok (Some extending) \<Rightarrow>
               if extending = [] then Some (Panic ''index out of range'') else
               let nextBlock = last extending in
               (case CheckCoherency cr policy nextBlock (Some (butlast extending)) (bt_root t) sr of
                  Panic s \<Rightarrow> Some (Panic s)
                | Diverge \<Rightarrow> None
                | Err _ \<Rightarrow> coherency_loop cr policy sr queue out t
                | Ok _ \<Rightarrow> (case bt_get t nextId of
                      None \<Rightarrow> Some (Panic ''nil pointer dereference'')
                    | Some e \<Rightarrow> coherency_loop cr policy sr (queue @ te_ChildrenBlocks e) (out @ [nextBlock]) (set_coherent nextId t)))))"

declare coherency_loop.simps [code]

definition go_of :: "('e, 'a) go option \<Rightarrow> ('e, 'a) go" where
  "go_of x = (case x of None \<Rightarrow> Diverge | Some y \<Rightarrow> y)"

definition TryUpdateCoherency :: "crypto \<Rightarrow> BlockPolicy \<Rightarrow> ExecutionStateRead \<Rightarrow> block_id \<Rightarrow> BlockTree
    \<Rightarrow> ('e, BlockTree \<times> ConsensusFullBlock list) go" where
  "TryUpdateCoherency cr policy sr blockId t =
     go_bind (GetBlocksOnPathFromRoot t blockId) (\<lambda>path.
       case path of
         None \<Rightarrow> Ok (t, [])
       | Some path \<Rightarrow>
           (case find (\<lambda>b. case bt_get t (block_GetId cr b) of None \<Rightarrow> True | Some e \<Rightarrow> \<not> te_IsCoherent e) path of
              None \<Rightarrow> Ok (t, [])
            | Some incoherent \<Rightarrow> go_of (coherency_loop cr policy sr [block_GetId cr incoherent] [] t)))"

text \<open>The search for the highest certificate that commits a coherent block.\<close>

partial_function (option) high_qc_loop :: "crypto \<Rightarrow> BlockTree \<Rightarrow> block_id list \<Rightarrow> QuorumCertificate option
    \<Rightarrow> ('e, QuorumCertificate option) go option" where
  "high_qc_loop cr t queue high =
     (case queue of
        [] \<Rightarrow> Some (Ok high)
      | bid # queue \<Rightarrow>
          (case bt_get t bid of
             None \<Rightarrow> high_qc_loop cr t queue high
           | Some entry \<Rightarrow>
               let queue = queue @ te_ChildrenBlocks entry;
                   qc = bh_QC (fb_Header (te_ValidatedBlock entry)) in
               if (case high of None \<Rightarrow> False | Some h \<Rightarrow> qc_GetRound h \<ge> qc_GetRound qc) then high_qc_loop cr t queue high else
               (case bt_get t (qc_GetBlockId qc) of
                  None \<Rightarrow> high_qc_loop cr t queue high
                | Some parent \<Rightarrow>
                    (case qc_GetCommittableId cr qc (te_ValidatedBlock parent) of
                       Err e \<Rightarrow> Some (Err e)
                     | Panic s \<Rightarrow> Some (Panic s)
                     | Diverge \<Rightarrow> None
                     | Ok cid \<Rightarrow> high_qc_loop cr t queue
                         (case cid of
                            None \<Rightarrow> high
                          | Some c \<Rightarrow> if c = bt_rootId t then high else if \<not> IsCoherent t c then high else Some qc)))))"

declare high_qc_loop.simps [code]

definition GetHighCommittableQc :: "crypto \<Rightarrow> BlockTree \<Rightarrow> ('e, QuorumCertificate option) go" where
  "GetHighCommittableQc cr t = go_of (high_qc_loop cr t (bt_rootKids t) None)"

fun fill_loop :: "nat \<Rightarrow> BlockTree \<Rightarrow> block_id \<Rightarrow> seqnum \<Rightarrow> ('e, BlockRange option) go" where
  "fill_loop 0 t maybeUnknown numBlocks = Diverge"
| "fill_loop (Suc n) t maybeUnknown numBlocks =
     (case bt_get t maybeUnknown of
        None \<Rightarrow> Ok (Some \<lparr>br_LastBlockId = maybeUnknown, br_NumBlocks = numBlocks\<rparr>)
      | Some e \<Rightarrow>
          if te_Parent e = bt_rootId t then Ok None else
          let diff = block_SeqNum (te_ValidatedBlock e) - ri_SeqNum (bt_root t);
              diff = (if diff < 2 then 2 else diff) in
          fill_loop n t (te_Parent e) (diff - 1))"

definition MaybeFillPathToRoot :: "BlockTree \<Rightarrow> QuorumCertificate \<Rightarrow> ('e, BlockRange option) go" where
  "MaybeFillPathToRoot t qc =
     (if ri_Round (bt_root t) \<ge> qc_GetRound qc \<or> bt_rootId t = qc_GetBlockId qc then Ok None
      else fill_loop (Suc (length (bt_tree t))) t (qc_GetBlockId qc) 1)"

definition GetHighestCoherentBlockOnPathFromRoot :: "crypto \<Rightarrow> BlockTree \<Rightarrow> block_id \<Rightarrow> ('e, ConsensusFullBlock option) go" where
  "GetHighestCoherentBlockOnPathFromRoot cr t b =
     go_bind (GetBlocksOnPathFromRoot t b) (\<lambda>path. Ok (case path of
       None \<Rightarrow> None
     | Some path \<Rightarrow> find (\<lambda>x. IsCoherent t (block_GetId cr x)) (rev path)))"

definition GetSeqNumOfQc :: "BlockTree \<Rightarrow> QuorumCertificate \<Rightarrow> seqnum option" where
  "GetSeqNumOfQc t qc =
     (if qc_GetBlockId qc = bt_rootId t then Some (ri_SeqNum (bt_root t))
      else map_option (\<lambda>e. block_SeqNum (te_ValidatedBlock e)) (bt_get t (qc_GetBlockId qc)))"

definition GetTimestampOfQc :: "BlockTree \<Rightarrow> QuorumCertificate \<Rightarrow> u128 option" where
  "GetTimestampOfQc t qc =
     (if qc_GetBlockId qc = bt_rootId t then Some (ri_TimestampNs (bt_root t))
      else map_option (\<lambda>e. bh_TimestampNs (fb_Header (te_ValidatedBlock e))) (bt_get t (qc_GetBlockId qc)))"

definition GetBlockRoundOfQc :: "BlockTree \<Rightarrow> QuorumCertificate \<Rightarrow> round option" where
  "GetBlockRoundOfQc t qc =
     (if qc_GetBlockId qc = bt_rootId t then Some (ri_Round (bt_root t))
      else map_option (\<lambda>e. block_Round (te_ValidatedBlock e)) (bt_get t (qc_GetBlockId qc)))"

definition GetBlock :: "BlockTree \<Rightarrow> block_id \<Rightarrow> ConsensusFullBlock option" where
  "GetBlock t i = map_option te_ValidatedBlock (bt_get t i)"

definition GetPayload :: "BlockTree \<Rightarrow> body_id \<Rightarrow> ConsensusBlockBody option" where
  "GetPayload t i = map_option bi_body (bt_payloads t i)"

fun chain_loop :: "nat \<Rightarrow> BlockTree \<Rightarrow> ConsensusFullBlock list \<Rightarrow> ('e, ConsensusFullBlock list) go" where
  "chain_loop 0 t chain = Diverge"
| "chain_loop (Suc n) t chain =
     (case bt_get t (qc_GetBlockId (bh_QC (fb_Header (last chain)))) of
        None \<Rightarrow> Ok (rev chain)
      | Some parent \<Rightarrow> chain_loop n t (chain @ [te_ValidatedBlock parent]))"

definition GetParentBlockChain :: "BlockTree \<Rightarrow> block_id \<Rightarrow> ('e, ConsensusFullBlock list) go" where
  "GetParentBlockChain t blockId =
     (case bt_get t blockId of
        None \<Rightarrow> Ok []
      | Some base \<Rightarrow> chain_loop (Suc (length (bt_tree t))) t [te_ValidatedBlock base])"

text \<open>The best descendant: one step over the children, then the queue.\<close>

definition descend :: "BlockTree \<Rightarrow> block_id list \<Rightarrow> block_id \<times> round \<Rightarrow> (block_id \<times> round) \<times> block_id list" where
  "descend t children best =
     fold (\<lambda>child ((bestId, bestRound), queue).
       if \<not> IsCoherent t child then ((bestId, bestRound), queue) else
       case bt_get t child of
         None \<Rightarrow> ((bestId, bestRound), queue)
       | Some ce \<Rightarrow>
           (if block_Round (te_ValidatedBlock ce) > bestRound then (child, block_Round (te_ValidatedBlock ce)) else (bestId, bestRound),
            queue @ [child])) children (best, [])"

partial_function (option) descendant_loop :: "BlockTree \<Rightarrow> block_id list \<Rightarrow> block_id \<times> round \<Rightarrow> block_id option" where
  "descendant_loop t queue best =
     (case queue of
        [] \<Rightarrow> Some (fst best)
      | cur # queue \<Rightarrow>
          (case (if cur = bt_rootId t then Some (bt_rootKids t) else map_option te_ChildrenBlocks (bt_get t cur)) of
             None \<Rightarrow> descendant_loop t queue best
           | Some children \<Rightarrow>
               let (best, more) = descend t children best in descendant_loop t (queue @ more) best))"

declare descendant_loop.simps [code]

definition highestRoundCoherentDescendant :: "BlockTree \<Rightarrow> block_id \<Rightarrow> ('e, block_id) go" where
  "highestRoundCoherentDescendant t blockId =
     (case (if blockId = bt_rootId t then Some (ri_Round (bt_root t))
            else map_option (\<lambda>e. block_Round (te_ValidatedBlock e)) (bt_get t blockId)) of
        None \<Rightarrow> Ok blockId
      | Some bestRound \<Rightarrow> go_of (map_option Ok (descendant_loop t [blockId] (blockId, bestRound))))"

definition GetCanonicalCoherentTip :: "crypto \<Rightarrow> BlockTree \<Rightarrow> QuorumCertificate \<Rightarrow> ('e, block_id) go" where
  "GetCanonicalCoherentTip cr t highCertQc =
     go_bind (GetBlocksOnPathFromRoot t (qc_GetBlockId highCertQc)) (\<lambda>path.
       case path of
         None \<Rightarrow> highestRoundCoherentDescendant t (bt_rootId t)
       | Some path \<Rightarrow>
           (case find (\<lambda>b. IsCoherent t (block_GetId cr b)) (rev path) of
              None \<Rightarrow> Ok (bt_rootId t)
            | Some b \<Rightarrow>
                let coherentTip = block_GetId cr b in
                if coherentTip = qc_GetBlockId highCertQc then highestRoundCoherentDescendant t coherentTip
                else Ok coherentTip))"

end
