(* ===== verification/Forest.thy ===== *)
theory Forest
  imports Blocktree
begin

text \<open>
  Invariants of the block tree and its correctness: the tree is a forest whose rounds grow along
  parent links, children lists mirror the links, coherent blocks hang on the root through coherent
  blocks, the payload index counts the entries. Adding a block and pruning keep the invariants, walks
  to the root end, and pruning commits exactly the path to the new root.
\<close>

section \<open>Invariants\<close>

abbreviation te_QcRound :: "BlockTreeEntry \<Rightarrow> round" where
  "te_QcRound e \<equiv> block_QcRound (te_ValidatedBlock e)"

abbreviation te_Round :: "BlockTreeEntry \<Rightarrow> round" where
  "te_Round e \<equiv> block_Round (te_ValidatedBlock e)"

abbreviation te_SeqNum :: "BlockTreeEntry \<Rightarrow> seqnum" where
  "te_SeqNum e \<equiv> block_SeqNum (te_ValidatedBlock e)"

definition forest_inv :: "crypto \<Rightarrow> BlockTree \<Rightarrow> bool" where
  "forest_inv cr t \<longleftrightarrow> keyed (\<lambda>e. block_GetId cr (te_ValidatedBlock e)) (bt_tree t) \<and> bt_get t (bt_rootId t) = None
     \<and> (\<forall>i e. bt_get t i = Some e \<longrightarrow> te_QcRound e < te_Round e \<and> ri_Round (bt_root t) < te_Round e
          \<and> (te_Parent e = bt_rootId t \<longrightarrow> te_QcRound e = ri_Round (bt_root t))
          \<and> (\<forall>p. bt_get t (te_Parent e) = Some p \<longrightarrow> te_QcRound e = te_Round p))"

definition children_of :: "BlockTree \<Rightarrow> block_id \<Rightarrow> block_id set" where
  "children_of t i = {c. \<exists>e. bt_get t c = Some e \<and> te_Parent e = i}"

definition kids_inv :: "BlockTree \<Rightarrow> bool" where
  "kids_inv t \<longleftrightarrow> distinct (bt_rootKids t) \<and> set (bt_rootKids t) = children_of t (bt_rootId t)
     \<and> (\<forall>i e. bt_get t i = Some e \<longrightarrow> distinct (te_ChildrenBlocks e) \<and> set (te_ChildrenBlocks e) = children_of t i)"

definition coherent_inv :: "BlockTree \<Rightarrow> bool" where
  "coherent_inv t \<longleftrightarrow> (\<forall>i e. bt_get t i = Some e \<and> te_IsCoherent e \<longrightarrow> IsCoherent t (te_Parent e))"

definition parent_SeqNum :: "BlockTree \<Rightarrow> BlockTreeEntry \<Rightarrow> seqnum option" where
  "parent_SeqNum t e = GetSeqNumOfQc t (bh_QC (fb_Header (te_ValidatedBlock e)))"

definition seq_inv :: "BlockTree \<Rightarrow> bool" where
  "seq_inv t \<longleftrightarrow> (\<forall>i e s. bt_get t i = Some e \<and> te_IsCoherent e \<and> parent_SeqNum t e = Some s \<longrightarrow> te_SeqNum e = s + 1)"

definition active :: "BlockTree \<Rightarrow> body_id \<Rightarrow> block_id set" where
  "active t b = {i. \<exists>e. bt_get t i = Some e \<and> bh_BlockBodyId (fb_Header (te_ValidatedBlock e)) = b}"

definition payload_inv :: "crypto \<Rightarrow> BlockTree \<Rightarrow> bool" where
  "payload_inv cr t \<longleftrightarrow> (\<forall>b. case bt_payloads t b of
       None \<Rightarrow> active t b = {}
     | Some idx \<Rightarrow> bi_activeBlocks idx = active t b \<and> active t b \<noteq> {} \<and> body_GetId cr (bi_body idx) = b)"

definition tree_inv :: "crypto \<Rightarrow> BlockTree \<Rightarrow> bool" where
  "tree_inv cr t \<longleftrightarrow> forest_inv cr t \<and> kids_inv t \<and> coherent_inv t \<and> seq_inv t \<and> payload_inv cr t"

named_theorems tree_defs \<open>the parts of the block tree invariant\<close>

lemmas [tree_defs] = forest_inv_def kids_inv_def coherent_inv_def seq_inv_def payload_inv_def children_of_def active_def
  IsCoherent_def parent_SeqNum_def GetSeqNumOfQc_def

lemma tree_inv_New: "tree_inv cr (blocktree_New root)"
  by (simp add: tree_inv_def tree_defs blocktree_New_def)

lemma forest_id: "forest_inv cr t \<Longrightarrow> bt_get t i = Some e \<Longrightarrow> block_GetId cr (te_ValidatedBlock e) = i"
  unfolding forest_inv_def using keyed_mem map_of_SomeD by metis

lemma forest_invD:
  assumes "forest_inv cr t" and "bt_get t i = Some e"
  shows "te_QcRound e < te_Round e" and "ri_Round (bt_root t) < te_Round e"
    and "te_Parent e = bt_rootId t \<Longrightarrow> te_QcRound e = ri_Round (bt_root t)"
    and "bt_get t (te_Parent e) = Some p \<Longrightarrow> te_QcRound e = te_Round p"
  using assms unfolding forest_inv_def by blast+

section \<open>Adding a block\<close>

text \<open>
  What the caller guarantees of an added block: its certificate is older than its round, the rounds
  of certificates and of the blocks they certify agree, the body has the id of the header, and the
  block is not the root. Certificates bind the round to the block id, so these follow from their
  verification.
\<close>

definition linkable :: "crypto \<Rightarrow> ConsensusFullBlock \<Rightarrow> BlockTree \<Rightarrow> bool" where
  "linkable cr b t \<longleftrightarrow> block_QcRound b < block_Round b \<and> block_GetId cr b \<noteq> bt_rootId t
     \<and> body_GetId cr (fb_Body b) = bh_BlockBodyId (fb_Header b)
     \<and> (qc_GetBlockId (bh_QC (fb_Header b)) = bt_rootId t \<longrightarrow> block_QcRound b = ri_Round (bt_root t))
     \<and> (\<forall>p. bt_get t (qc_GetBlockId (bh_QC (fb_Header b))) = Some p \<longrightarrow> block_QcRound b = te_Round p)
     \<and> (\<forall>i e. bt_get t i = Some e \<and> te_Parent e = block_GetId cr b \<longrightarrow> te_QcRound e = block_Round b)
     \<and> qc_GetBlockId (bh_QC (fb_Header b)) \<noteq> block_GetId cr b"

definition new_entry :: "crypto \<Rightarrow> ConsensusFullBlock \<Rightarrow> BlockTree \<Rightarrow> BlockTreeEntry" where
  "new_entry cr b t = \<lparr>te_ValidatedBlock = b, te_IsCoherent = False,
     te_ChildrenBlocks = map fst (filter (\<lambda>(i, e). te_Parent e = block_GetId cr b) (bt_tree t))\<rparr>"

lemma bt_get_insert:
  assumes "qc_GetBlockId (bh_QC (fb_Header b)) \<noteq> block_GetId cr b"
  shows "bt_get (bt_insert cr b t) i =
    (if i = block_GetId cr b then Some (new_entry cr b t)
     else if i = qc_GetBlockId (bh_QC (fb_Header b))
       then map_option (\<lambda>pe. pe\<lparr>te_ChildrenBlocks := te_ChildrenBlocks pe @ [block_GetId cr b]\<rparr>) (bt_get t i)
     else bt_get t i)"
  using assms by (auto simp: bt_insert_def Let_def new_entry_def split: option.splits)

lemma bt_insert_root [simp]: "bt_root (bt_insert cr b t) = bt_root t" "bt_rootKids (bt_insert cr b t) = bt_rootKids t"
  by (simp_all add: bt_insert_def Let_def)

lemma Add_insert:
  assumes "IsValidToInsert cr t (fb_Header b)"
  shows "bt_get (Add cr b t) i = bt_get (bt_insert cr b t) i" and "bt_root (Add cr b t) = bt_root t"
    and "bt_tree (Add cr b t) = bt_tree (bt_insert cr b t)" and "bt_payloads (Add cr b t) = bt_payloads (bt_insert cr b t)"
    and "bt_rootKids (Add cr b t) = (if qc_GetBlockId (bh_QC (fb_Header b)) = bt_rootId t
      then bt_rootKids t @ [block_GetId cr b] else bt_rootKids t)"
  using assms by (auto simp: Add_def Let_def)

text \<open>Every entry after an insertion is the new one or an old one with the same block and flag.\<close>

lemma bt_get_Add_cases:
  assumes "IsValidToInsert cr t (fb_Header b)" and "linkable cr b t" and "bt_get (Add cr b t) i = Some e"
  obtains "i = block_GetId cr b" and "e = new_entry cr b t"
  | e0 where "i \<noteq> block_GetId cr b" and "bt_get t i = Some e0" and "te_ValidatedBlock e = te_ValidatedBlock e0"
    and "te_IsCoherent e = te_IsCoherent e0"
    and "te_ChildrenBlocks e = te_ChildrenBlocks e0 @ (if i = qc_GetBlockId (bh_QC (fb_Header b)) then [block_GetId cr b] else [])"
proof -
  have ne: "qc_GetBlockId (bh_QC (fb_Header b)) \<noteq> block_GetId cr b" using assms(2) by (simp add: linkable_def)
  show ?thesis
    using assms(3) that unfolding Add_insert(1)[OF assms(1)] bt_get_insert[OF ne]
    by (auto split: if_splits)
qed

lemma bt_get_Add_old:
  assumes "IsValidToInsert cr t (fb_Header b)" and "linkable cr b t" and "bt_get t i = Some e0"
  obtains e where "bt_get (Add cr b t) i = Some e" and "te_ValidatedBlock e = te_ValidatedBlock e0" and "te_IsCoherent e = te_IsCoherent e0"
proof -
  have ne: "qc_GetBlockId (bh_QC (fb_Header b)) \<noteq> block_GetId cr b" using assms(2) by (simp add: linkable_def)
  have "i \<noteq> block_GetId cr b" using assms(1,3) by (auto simp: IsValidToInsert_def block_GetId_def)
  then show ?thesis
    using assms(3) that unfolding Add_insert(1)[OF assms(1)] bt_get_insert[OF ne]
    by (cases "i = qc_GetBlockId (bh_QC (fb_Header b))") auto
qed

lemma bt_get_Add_new:
  assumes "IsValidToInsert cr t (fb_Header b)" and "linkable cr b t"
  shows "bt_get (Add cr b t) (block_GetId cr b) = Some (new_entry cr b t)"
proof -
  have ne: "qc_GetBlockId (bh_QC (fb_Header b)) \<noteq> block_GetId cr b" using assms(2) by (simp add: linkable_def)
  show ?thesis unfolding Add_insert(1)[OF assms(1)] bt_get_insert[OF ne] by simp
qed

lemma new_entry_simps [simp]:
  "te_ValidatedBlock (new_entry cr b t) = b" "\<not> te_IsCoherent (new_entry cr b t)"
  "te_ChildrenBlocks (new_entry cr b t) = map fst (filter (\<lambda>(i, e). te_Parent e = block_GetId cr b) (bt_tree t))"
  by (simp_all add: new_entry_def)

lemma keyed_bt_insert:
  assumes "keyed (\<lambda>e. block_GetId cr (te_ValidatedBlock e)) (bt_tree t)"
  shows "keyed (\<lambda>e. block_GetId cr (te_ValidatedBlock e)) (bt_tree (bt_insert cr b t))"
proof -
  let ?key = "\<lambda>e. block_GetId cr (te_ValidatedBlock e)"
  let ?tree = "aput (block_GetId cr b) (new_entry cr b t) (bt_tree t)"
  have k: "keyed ?key ?tree" using assms by (intro keyed_aput) simp_all
  have "keyed ?key (aput p (pe\<lparr>te_ChildrenBlocks := xs\<rparr>) ?tree)" if "map_of ?tree p = Some pe" for p pe xs
    by (rule keyed_aput[OF k]) (use keyed_mem[OF k map_of_SomeD[OF that]] in simp)
  moreover have "bt_tree (bt_insert cr b t) = (case map_of ?tree (qc_GetBlockId (bh_QC (fb_Header b))) of
      Some pe \<Rightarrow> aput (qc_GetBlockId (bh_QC (fb_Header b))) (pe\<lparr>te_ChildrenBlocks := te_ChildrenBlocks pe @ [block_GetId cr b]\<rparr>) ?tree
    | None \<Rightarrow> ?tree)"
    unfolding bt_insert_def Let_def new_entry_def by simp
  ultimately show ?thesis
    using k by (cases "map_of ?tree (qc_GetBlockId (bh_QC (fb_Header b)))") (simp_all only: option.case)
qed

lemma forest_inv_Add:
  assumes valid: "IsValidToInsert cr t (fb_Header b)" and link: "linkable cr b t" and inv: "forest_inv cr t"
  shows "forest_inv cr (Add cr b t)"
proof -
  let ?t = "Add cr b t" and ?id = "block_GetId cr b"
  have keyed: "keyed (\<lambda>e. block_GetId cr (te_ValidatedBlock e)) (bt_tree ?t)"
    unfolding Add_insert(3)[OF valid] using inv by (intro keyed_bt_insert) (simp add: forest_inv_def)
  have root: "bt_get ?t (bt_rootId ?t) = None"
  proof (rule ccontr)
    assume "bt_get ?t (bt_rootId ?t) \<noteq> None"
    then obtain e where e: "bt_get ?t (bt_rootId t) = Some e" using Add_insert(2)[OF valid] by auto
    show False using inv link by (cases rule: bt_get_Add_cases[OF valid link e]) (auto simp: forest_inv_def linkable_def)
  qed
  have new: "ri_Round (bt_root t) < block_Round b" using valid by (simp add: IsValidToInsert_def)
  have "te_QcRound e < te_Round e \<and> ri_Round (bt_root t) < te_Round e
      \<and> (te_Parent e = bt_rootId t \<longrightarrow> te_QcRound e = ri_Round (bt_root t))
      \<and> (\<forall>p. bt_get ?t (te_Parent e) = Some p \<longrightarrow> te_QcRound e = te_Round p)" if e: "bt_get ?t i = Some e" for i e
  proof (cases rule: bt_get_Add_cases[OF valid link e])
    case 1
    have "block_QcRound b = te_Round p" if "bt_get ?t (qc_GetBlockId (bh_QC (fb_Header b))) = Some p" for p
      using link by (cases rule: bt_get_Add_cases[OF valid link that]) (auto simp: linkable_def)
    with new link show ?thesis unfolding 1(2) new_entry_simps by (simp add: linkable_def)
  next
    case (2 e0)
    have "te_QcRound e = te_Round p" if "bt_get ?t (te_Parent e) = Some p" for p
    proof (cases rule: bt_get_Add_cases[OF valid link that])
      case 1 with 2 link show ?thesis by (auto simp: linkable_def)
    next
      case (2 p0) with \<open>bt_get t i = Some e0\<close> \<open>te_ValidatedBlock e = te_ValidatedBlock e0\<close> inv show ?thesis
        by (auto simp: forest_inv_def)
    qed
    with 2 inv show ?thesis by (simp add: forest_inv_def)
  qed
  with keyed root show ?thesis unfolding forest_inv_def by (simp add: Add_insert(2)[OF valid])
qed

lemma children_of_Add:
  assumes valid: "IsValidToInsert cr t (fb_Header b)" and link: "linkable cr b t"
  shows "children_of (Add cr b t) i = children_of t i
    \<union> (if i = qc_GetBlockId (bh_QC (fb_Header b)) then {block_GetId cr b} else {})" (is "?l = ?r")
proof
  show "?l \<subseteq> ?r"
  proof
    fix c assume "c \<in> ?l"
    then obtain e where "bt_get (Add cr b t) c = Some e" "te_Parent e = i" by (auto simp: children_of_def)
    then show "c \<in> ?r" by (cases rule: bt_get_Add_cases[OF valid link \<open>bt_get (Add cr b t) c = Some e\<close>]) (auto simp: children_of_def)
  qed
  show "?r \<subseteq> ?l"
    using bt_get_Add_new[OF valid link] by (auto simp: children_of_def elim!: bt_get_Add_old[OF valid link])
qed

lemma kids_inv_Add:
  assumes valid: "IsValidToInsert cr t (fb_Header b)" and link: "linkable cr b t" and inv: "forest_inv cr t" "kids_inv t"
  shows "kids_inv (Add cr b t)"
proof -
  let ?t = "Add cr b t" and ?id = "block_GetId cr b" and ?par = "qc_GetBlockId (bh_QC (fb_Header b))"
  have fresh: "?id \<notin> children_of t i" for i
    using valid by (auto simp: children_of_def IsValidToInsert_def block_GetId_def)
  have d: "distinct (akeys (bt_tree t))" using inv(1) keyed_distinct by (auto simp: forest_inv_def)
  have new: "distinct (te_ChildrenBlocks (new_entry cr b t))" "set (te_ChildrenBlocks (new_entry cr b t)) = children_of t ?id"
    using d distinct_akeys_filter[OF d] map_of_in_set[OF d] by (auto simp: akeys_def children_of_def image_iff)
  have ne: "?par \<noteq> ?id" using link by (simp add: linkable_def)
  have "distinct (te_ChildrenBlocks e) \<and> set (te_ChildrenBlocks e) = children_of ?t i" if "bt_get ?t i = Some e" for i e
  proof (cases rule: bt_get_Add_cases[OF valid link that])
    case 1 then show ?thesis using new ne by (simp only: children_of_Add[OF valid link]) simp
  next
    case (2 e0) then show ?thesis using inv(2) fresh[of i] unfolding children_of_Add[OF valid link] by (auto simp: kids_inv_def)
  qed
  then show ?thesis
    using inv(2) fresh[of "bt_rootId t"] unfolding kids_inv_def Add_insert(2,5)[OF valid] children_of_Add[OF valid link] by auto
qed

lemma IsCoherent_Add:
  assumes valid: "IsValidToInsert cr t (fb_Header b)" and link: "linkable cr b t"
  shows "IsCoherent (Add cr b t) i = IsCoherent t i"
proof (cases "bt_get t i")
  case None
  then have "te_IsCoherent e = False" if "bt_get (Add cr b t) i = Some e" for e
    using None by (cases rule: bt_get_Add_cases[OF valid link that]) auto
  with None show ?thesis by (auto simp: IsCoherent_def Add_insert(2)[OF valid] split: option.splits)
next
  case (Some e) then show ?thesis
    by (auto simp: IsCoherent_def Add_insert(2)[OF valid] elim: bt_get_Add_old[OF valid link])
qed

lemma coherent_inv_Add:
  assumes valid: "IsValidToInsert cr t (fb_Header b)" and link: "linkable cr b t" and inv: "coherent_inv t"
  shows "coherent_inv (Add cr b t)"
proof -
  have "IsCoherent t (te_Parent e)" if "bt_get (Add cr b t) i = Some e" "te_IsCoherent e" for i e
    using that inv by (cases rule: bt_get_Add_cases[OF valid link that(1)]) (auto simp: coherent_inv_def)
  then show ?thesis unfolding coherent_inv_def IsCoherent_Add[OF valid link] by blast
qed

lemma seq_inv_Add:
  assumes valid: "IsValidToInsert cr t (fb_Header b)" and link: "linkable cr b t" and inv: "coherent_inv t" "seq_inv t" "forest_inv cr t"
  shows "seq_inv (Add cr b t)"
proof -
  let ?t = "Add cr b t"
  have "te_SeqNum e = s + 1" if e: "bt_get ?t i = Some e" "te_IsCoherent e" "parent_SeqNum ?t e = Some s" for i e s
  proof (cases rule: bt_get_Add_cases[OF valid link e(1)])
    case 1 with e(2) show ?thesis by simp
  next
    case (2 e0)
    then have "IsCoherent t (te_Parent e)" using inv(1) e(2) by (auto simp: coherent_inv_def)
    then have "parent_SeqNum t e0 = Some s"
      using e(3) 2(3) by (auto simp: parent_SeqNum_def GetSeqNumOfQc_def IsCoherent_def Add_insert(2)[OF valid]
          split: if_splits option.splits elim: bt_get_Add_old[OF valid link])
    with 2 e(2) inv(2) show ?thesis by (auto simp: seq_inv_def)
  qed
  then show ?thesis unfolding seq_inv_def by blast
qed

lemma payload_inv_Add:
  assumes valid: "IsValidToInsert cr t (fb_Header b)" and link: "linkable cr b t" and inv: "payload_inv cr t"
  shows "payload_inv cr (Add cr b t)"
proof -
  let ?t = "Add cr b t" and ?id = "block_GetId cr b" and ?body = "bh_BlockBodyId (fb_Header b)"
  have active: "active ?t x = active t x \<union> (if x = ?body then {?id} else {})" (is "?l = ?r") for x
  proof
    show "?l \<subseteq> ?r"
    proof
      fix c assume "c \<in> ?l"
      then obtain e where e: "bt_get ?t c = Some e" "bh_BlockBodyId (fb_Header (te_ValidatedBlock e)) = x" by (auto simp: active_def)
      then show "c \<in> ?r" by (cases rule: bt_get_Add_cases[OF valid link e(1)]) (auto simp: active_def)
    qed
    show "?r \<subseteq> ?l" using bt_get_Add_new[OF valid link] by (auto simp: active_def elim!: bt_get_Add_old[OF valid link])
  qed
  have pay: "bt_payloads ?t = (let idx = (case bt_payloads t ?body of Some idx \<Rightarrow> idx | None \<Rightarrow> \<lparr>bi_body = fb_Body b, bi_activeBlocks = {}\<rparr>)
      in (bt_payloads t)(?body \<mapsto> idx\<lparr>bi_activeBlocks := insert ?id (bi_activeBlocks idx)\<rparr>))"
    unfolding Add_insert(4)[OF valid] by (simp add: bt_insert_def Let_def)
  have body: "body_GetId cr (fb_Body b) = ?body" using link by (simp add: linkable_def)
  show ?thesis unfolding payload_inv_def active
  proof
    fix x
    show "case bt_payloads ?t x of
        None \<Rightarrow> active t x \<union> (if x = ?body then {?id} else {}) = {}
      | Some idx \<Rightarrow> bi_activeBlocks idx = active t x \<union> (if x = ?body then {?id} else {})
          \<and> active t x \<union> (if x = ?body then {?id} else {}) \<noteq> {} \<and> body_GetId cr (bi_body idx) = x"
      using inv[unfolded payload_inv_def, rule_format, of x] body unfolding pay
      by (cases "bt_payloads t x"; cases "x = ?body") (simp_all add: Let_def)
  qed
qed

lemma tree_inv_Add:
  assumes "tree_inv cr t" and "IsValidToInsert cr t (fb_Header b) \<Longrightarrow> linkable cr b t"
  shows "tree_inv cr (Add cr b t)"
proof (cases "IsValidToInsert cr t (fb_Header b)")
  case True
  with assms show ?thesis unfolding tree_inv_def
    using forest_inv_Add kids_inv_Add coherent_inv_Add seq_inv_Add payload_inv_Add by blast
qed (use assms in \<open>simp add: Add_def\<close>)

section \<open>Paths to the root\<close>

text \<open>The blocks from the root to an entry, lowest first.\<close>

inductive rootpath :: "BlockTree \<Rightarrow> block_id \<Rightarrow> BlockTreeEntry list \<Rightarrow> bool" for t where
  first: "bt_get t i = Some e \<Longrightarrow> te_Parent e = bt_rootId t \<Longrightarrow> rootpath t i [e]"
| step: "bt_get t i = Some e \<Longrightarrow> te_Parent e \<noteq> bt_rootId t \<Longrightarrow> rootpath t (te_Parent e) es \<Longrightarrow> rootpath t i (es @ [e])"

lemma rootpath_last: "rootpath t i es \<Longrightarrow> es \<noteq> [] \<and> bt_get t i = Some (last es)"
  by (induction rule: rootpath.induct) auto

lemma rootpath_unique: "rootpath t i es \<Longrightarrow> rootpath t i fs \<Longrightarrow> es = fs"
proof (induction arbitrary: fs rule: rootpath.induct)
  case (first i e)
  then show ?case by (elim rootpath.cases[of t i fs]) simp_all
next
  case (step i e es)
  show ?case using step.prems
  proof (rule rootpath.cases)
    fix j e' es' assume "i = j" "fs = es' @ [e']" "bt_get t j = Some e'" "rootpath t (te_Parent e') es'"
    with step.hyps(1) step.IH[of es'] show ?thesis by simp
  qed (use step.hyps in simp)
qed

lemma path_loop_rootpath:
  assumes "(path_loop n t i acc :: ('e, _) go) = Ok (Some bs)"
  shows "\<exists>es. rootpath t i es \<and> bs = map te_ValidatedBlock es @ rev acc"
  using assms
proof (induction n arbitrary: i acc)
  case (Suc n)
  obtain e where e: "bt_get t i = Some e" using Suc.prems by (auto split: option.splits)
  show ?case
  proof (cases "te_Parent e = bt_rootId t")
    case True
    with Suc.prems e show ?thesis by (intro exI[of _ "[e]"]) (auto simp: Let_def intro: rootpath.first)
  next
    case False
    with Suc.prems e Suc.IH[of "te_Parent e" "acc @ [te_ValidatedBlock e]"]
    obtain es where "rootpath t (te_Parent e) es" "bs = map te_ValidatedBlock es @ te_ValidatedBlock e # rev acc"
      by (auto simp: Let_def)
    with False e show ?thesis by (intro exI[of _ "es @ [e]"]) (auto intro: rootpath.step)
  qed
qed simp

text \<open>Rounds fall along parent links, so a walk visits every entry at most once.\<close>

definition below :: "BlockTree \<Rightarrow> block_id \<Rightarrow> block_id set" where
  "below t i = {j. \<exists>e. bt_get t j = Some e \<and> (\<forall>f. bt_get t i = Some f \<longrightarrow> te_Round e \<le> te_Round f)}"

lemma card_dom_tree: "card (dom (map_of (bt_tree t))) \<le> length (bt_tree t)"
  by (simp add: dom_map_of_conv_image_fst) (metis card_length length_map list.set_map)

lemma finite_below: "finite (below t i)"
  by (rule finite_subset[OF _ finite_dom_map_of[of "bt_tree t"]]) (auto simp: below_def)

lemma card_below: "card (below t i) \<le> length (bt_tree t)"
  using card_mono[OF finite_dom_map_of[of "bt_tree t"], of "below t i"] card_dom_tree[of t]
  by (force simp: below_def)

lemma below_parent:
  assumes "forest_inv cr t" and "bt_get t i = Some e" and "bt_get t (te_Parent e) \<noteq> None"
  shows "card (below t (te_Parent e)) < card (below t i)"
proof (rule psubset_card_mono[OF finite_below])
  obtain p where p: "bt_get t (te_Parent e) = Some p" using assms(3) by auto
  then have "te_Round p < te_Round e" using assms(1,2) by (fastforce simp: forest_inv_def)
  then have "i \<in> below t i" "i \<notin> below t (te_Parent e)" "below t (te_Parent e) \<subseteq> below t i"
    using p assms(2) by (auto simp: below_def)
  then show "below t (te_Parent e) \<subset> below t i" by blast
qed

lemma below_positive: "bt_get t i = Some e \<Longrightarrow> 0 < card (below t i)"
  using finite_below[of t i] by (auto simp: card_gt_0_iff below_def)

lemma path_loop_returns:
  assumes "forest_inv cr t" and "card (below t i) < n"
  shows "\<exists>r. (path_loop n t i acc :: ('e, _) go) = Ok r"
  using assms(2)
proof (induction n arbitrary: i acc)
  case (Suc n)
  show ?case
  proof (cases "bt_get t i")
    case (Some e)
    show ?thesis
    proof (cases "bt_get t (te_Parent e) = None")
      case True
      then show ?thesis using Some Suc.prems below_positive[OF Some] by (cases n) (auto simp: Let_def)
    next
      case False
      then have "card (below t (te_Parent e)) < n" using below_parent[OF assms(1) Some] Suc.prems by simp
      from Suc.IH[OF this] Some show ?thesis by (auto simp: Let_def)
    qed
  qed simp
qed simp

lemma path_loop_None: "(path_loop n t i acc :: ('e, _) go) = Ok None \<Longrightarrow> \<not> rootpath t i es"
proof (induction n arbitrary: i acc es)
  case (Suc n)
  show ?case
  proof
    assume "rootpath t i es"
    then show False
    proof (cases rule: rootpath.cases)
      case (first e) with Suc.prems show ?thesis by (simp add: Let_def)
    next
      case (step e fs) with Suc.prems Suc.IH show ?thesis by (auto simp: Let_def)
    qed
  qed
qed simp

text \<open>\<open>GetBlocksOnPathFromRoot\<close> returns, and it returns the path exactly when there is one.\<close>

lemma GetBlocksOnPathFromRoot_returns:
  assumes "forest_inv cr t"
  obtains (root) "i = bt_rootId t" and "(GetBlocksOnPathFromRoot t i :: ('e, _) go) = Ok (Some [])"
  | (path) es where "i \<noteq> bt_rootId t" and "rootpath t i es"
      and "(GetBlocksOnPathFromRoot t i :: ('e, _) go) = Ok (Some (map te_ValidatedBlock es))"
  | (none) "i \<noteq> bt_rootId t" and "\<forall>es. \<not> rootpath t i es" and "(GetBlocksOnPathFromRoot t i :: ('e, _) go) = Ok None"
proof (cases "i = bt_rootId t")
  case True then show ?thesis by (intro root) (simp_all add: GetBlocksOnPathFromRoot_def)
next
  case False
  then have eq: "(GetBlocksOnPathFromRoot t i :: ('e, _) go) = path_loop (Suc (length (bt_tree t))) t i []"
    by (simp add: GetBlocksOnPathFromRoot_def)
  obtain r where r: "(path_loop (Suc (length (bt_tree t))) t i [] :: ('e, _) go) = Ok r"
    using path_loop_returns[OF assms] card_below[of t i] by (metis le_imp_less_Suc)
  show ?thesis
  proof (cases r)
    case None
    then have "\<not> rootpath t i es" for es using r path_loop_None by metis
    with r False eq None show ?thesis by (intro none) simp_all
  next
    case (Some bs)
    obtain es where "rootpath t i es" "bs = map te_ValidatedBlock es"
      using path_loop_rootpath[OF r[unfolded Some]] by auto
    with Some r False eq show ?thesis by (intro path[of es]) (simp_all del: path_loop.simps)
  qed
qed

lemma coherent_rootpath:
  assumes "forest_inv cr t" and "coherent_inv t" and "bt_get t i = Some e" and "te_IsCoherent e"
  shows "\<exists>es. rootpath t i es \<and> (\<forall>x\<in>set es. te_IsCoherent x)"
  using assms(3,4)
proof (induction "card (below t i)" arbitrary: i e rule: less_induct)
  case less
  have coh: "IsCoherent t (te_Parent e)" using assms(2) less.prems by (auto simp: coherent_inv_def)
  show ?case
  proof (cases "te_Parent e = bt_rootId t")
    case True with less.prems show ?thesis by (intro exI[of _ "[e]"]) (auto intro: rootpath.first)
  next
    case False
    then obtain p where p: "bt_get t (te_Parent e) = Some p" "te_IsCoherent p"
      using coh by (auto simp: IsCoherent_def split: option.splits)
    obtain es where "rootpath t (te_Parent e) es" "\<forall>x\<in>set es. te_IsCoherent x"
      using less.hyps[OF below_parent[OF assms(1) less.prems(1)] p] p(1) by auto
    with False less.prems show ?thesis by (intro exI[of _ "es @ [e]"]) (auto intro: rootpath.step)
  qed
qed

section \<open>Pruning\<close>

lemma bt_remove_Some:
  assumes "bt_remove i t = Some (t', e)"
  shows "bt_get t i = Some e" and "map_of (bt_tree t') = (map_of (bt_tree t))(i := None)"
    and "bt_root t' = bt_root t" and "bt_rootKids t' = bt_rootKids t" and "bt_tree t' = adel i (bt_tree t)"
  using assms by (auto simp: bt_remove_def Let_def split: option.splits)

lemma bt_remove_payloads:
  assumes "bt_remove i t = Some (t', e)"
  shows "bt_payloads t' = (case bt_payloads t (bh_BlockBodyId (fb_Header (te_ValidatedBlock e))) of
      None \<Rightarrow> bt_payloads t
    | Some idx \<Rightarrow> if bi_activeBlocks idx - {i} = {} then (bt_payloads t)(bh_BlockBodyId (fb_Header (te_ValidatedBlock e)) := None)
        else (bt_payloads t)(bh_BlockBodyId (fb_Header (te_ValidatedBlock e)) \<mapsto> idx\<lparr>bi_activeBlocks := bi_activeBlocks idx - {i}\<rparr>))"
proof -
  have "Some (t', e) = bt_remove i t" "bt_get t i = Some e" using assms bt_remove_Some(1)[OF assms] by simp_all
  then show ?thesis unfolding bt_remove_def Let_def option.case by (simp only: option.inject prod.inject) simp
qed

lemma bt_remove_iff: "bt_remove i t = None \<longleftrightarrow> bt_get t i = None"
  by (auto simp: bt_remove_def Let_def split: option.splits)

lemma bt_remove_get: "bt_get t i = Some e \<Longrightarrow> \<exists>t'. bt_remove i t = Some (t', e)"
  by (auto simp: bt_remove_def Let_def split: option.splits)

text \<open>The tree shrinks by removals only; what a removal keeps, pruning keeps.\<close>

definition removal :: "BlockTree \<Rightarrow> BlockTree \<Rightarrow> bool" where
  "removal t t' \<longleftrightarrow> (\<exists>i e. bt_remove i t = Some (t', e))"

lemma removal_step:
  assumes "bt_remove i t = Some (t1, e)" and "removal\<^sup>*\<^sup>* t1 t2" shows "removal\<^sup>*\<^sup>* t t2"
proof -
  have "removal t t1" using assms(1) by (auto simp: removal_def)
  then show ?thesis using assms(2) by (rule converse_rtranclp_into_rtranclp)
qed

lemma removal_keeps:
  assumes "removal\<^sup>*\<^sup>* t t'" and "payload_inv cr t" and "keyed key (bt_tree t)"
  shows "payload_inv cr t' \<and> keyed key (bt_tree t') \<and> bt_root t' = bt_root t"
  using assms
proof (induction rule: rtranclp_induct)
  case (step t1 t2)
  then have inv: "payload_inv cr t1" "keyed key (bt_tree t1)" "bt_root t1 = bt_root t" by auto
  obtain i e where r: "bt_remove i t1 = Some (t2, e)" using step.hyps(2) by (auto simp: removal_def)
  let ?b = "bh_BlockBodyId (fb_Header (te_ValidatedBlock e))"
  have act: "active t2 x = active t1 x - {i}" for x
    unfolding active_def bt_remove_Some(2)[OF r] by (auto simp: fun_upd_def)
  have i: "i \<in> active t1 ?b" "x \<noteq> ?b \<Longrightarrow> i \<notin> active t1 x" for x
    using bt_remove_Some(1)[OF r] by (auto simp: active_def)
  obtain idx where idx: "bt_payloads t1 ?b = Some idx" "bi_activeBlocks idx = active t1 ?b" "body_GetId cr (bi_body idx) = ?b"
    using inv(1)[unfolded payload_inv_def, rule_format, of ?b] i(1) by (auto split: option.splits)
  have pay: "bt_payloads t2 = (if active t1 ?b - {i} = {} then (bt_payloads t1)(?b := None)
      else (bt_payloads t1)(?b \<mapsto> idx\<lparr>bi_activeBlocks := active t1 ?b - {i}\<rparr>))"
    unfolding bt_remove_payloads[OF r] idx by (simp add: idx)
  have "case bt_payloads t2 x of None \<Rightarrow> active t1 x - {i} = {}
      | Some y \<Rightarrow> bi_activeBlocks y = active t1 x - {i} \<and> active t1 x - {i} \<noteq> {} \<and> body_GetId cr (bi_body y) = x" for x
    using inv(1)[unfolded payload_inv_def, rule_format, of x] idx i(2)[of x] unfolding pay
    by (cases "x = ?b"; cases "bt_payloads t1 x") auto
  then have "payload_inv cr t2" unfolding payload_inv_def act by blast
  moreover have "keyed key (bt_tree t2)" unfolding bt_remove_Some(5)[OF r] AList.delete_eq using inv(2) by (rule keyed_filter)
  ultimately show ?case using inv(3) bt_remove_Some(3)[OF r] by simp
qed simp

lemma fold_remove:
  fixes ids defines "t' \<equiv> \<lambda>t. fold (\<lambda>i t. case bt_remove i t of None \<Rightarrow> t | Some (t', _) \<Rightarrow> t') ids t"
  shows "removal\<^sup>*\<^sup>* t (t' t) \<and> (\<forall>j. bt_get (t' t) j = (if j \<in> set ids then None else bt_get t j))"
  unfolding t'_def
proof (induction ids arbitrary: t)
  case (Cons i ids)
  show ?case
  proof (cases "bt_remove i t")
    case None
    moreover from this have "bt_get t i = None" by (simp add: bt_remove_iff)
    ultimately show ?thesis using Cons.IH[of t] by auto
  next
    case (Some te)
    obtain t1 e where te: "te = (t1, e)" by (cases te)
    with Cons.IH[of t1] Some bt_remove_Some(2)[of i t t1 e] removal_step[of i t t1 e] show ?thesis by auto
  qed
qed simp

lemma prune_gc_get:
  assumes "distinct (akeys (bt_tree t))"
  shows "removal\<^sup>*\<^sup>* t (prune_gc r t)"
    and "bt_get (prune_gc r t) j = (case bt_get t j of Some x \<Rightarrow> if te_QcRound x < r then None else Some x | None \<Rightarrow> None)"
proof -
  let ?ids = "map fst (filter (\<lambda>(i, e). te_QcRound e < r) (bt_tree t))"
  have "j \<in> set ?ids \<longleftrightarrow> (\<exists>x. bt_get t j = Some x \<and> te_QcRound x < r)"
    using map_of_in_set[OF assms] by (auto simp: image_iff)
  with fold_remove[of t ?ids] show "removal\<^sup>*\<^sup>* t (prune_gc r t)"
    "bt_get (prune_gc r t) j = (case bt_get t j of Some x \<Rightarrow> if te_QcRound x < r then None else Some x | None \<Rightarrow> None)"
    by (auto simp: prune_gc_def Let_def split: option.splits)
qed

lemma prune_loop_path:
  assumes "rootpath t i es" and "forest_inv cr t" and "\<forall>x\<in>set es. te_IsCoherent x" and "bt_root t1 = bt_root t"
    and "\<forall>j x. bt_get t j = Some x \<and> te_Round x < te_Round (last es) \<longrightarrow> bt_get t1 j = Some x"
  shows "\<exists>t2. (prune_loop (last es) commit t1 :: ('e, _) go) = Ok (t2, commit @ rev (map te_ValidatedBlock es)) \<and> removal\<^sup>*\<^sup>* t1 t2
    \<and> (\<forall>j x. bt_get t2 j = Some x \<longrightarrow> bt_get t1 j = Some x)
    \<and> (\<forall>j x. bt_get t1 j = Some x \<and> te_Round (last es) \<le> te_QcRound x \<longrightarrow> bt_get t2 j = Some x)"
  using assms(1,3-5)
proof (induction arbitrary: t1 commit rule: rootpath.induct)
  case (first i e)
  then show ?case by (subst prune_loop.simps) (simp add: Let_def)
next
  case (step i e es)
  obtain p where p: "es \<noteq> []" "p = last es" "bt_get t (te_Parent e) = Some p" using rootpath_last[OF step.hyps(3)] by auto
  have round: "te_Round p < te_Round e" "te_QcRound p < te_Round p"
    using assms(2) step.hyps(1) p(3) by (fastforce simp: forest_inv_def)+
  then have "bt_get t1 (te_Parent e) = Some p" using step.prems(3) p(3) by simp
  then obtain t2 where r: "bt_remove (te_Parent e) t1 = Some (t2, p)" using bt_remove_get by blast
  have "\<exists>t3. (prune_loop (last es) (commit @ [te_ValidatedBlock e]) t2 :: ('e, _) go)
        = Ok (t3, (commit @ [te_ValidatedBlock e]) @ rev (map te_ValidatedBlock es)) \<and> removal\<^sup>*\<^sup>* t2 t3
      \<and> (\<forall>j x. bt_get t3 j = Some x \<longrightarrow> bt_get t2 j = Some x)
      \<and> (\<forall>j x. bt_get t2 j = Some x \<and> te_Round (last es) \<le> te_QcRound x \<longrightarrow> bt_get t3 j = Some x)"
  proof (rule step.IH)
    show "\<forall>x\<in>set es. te_IsCoherent x" using step.prems(1) by simp
    show "bt_root t2 = bt_root t" using bt_remove_Some(3)[OF r] step.prems(2) by simp
    show "\<forall>j x. bt_get t j = Some x \<and> te_Round x < te_Round (last es) \<longrightarrow> bt_get t2 j = Some x"
      unfolding bt_remove_Some(2)[OF r] using p round step.prems(3) by (auto simp: less_trans)
  qed
  then obtain t3 where t3: "(prune_loop p (commit @ [te_ValidatedBlock e]) t2 :: ('e, _) go)
        = Ok (t3, commit @ te_ValidatedBlock e # rev (map te_ValidatedBlock es))" "removal\<^sup>*\<^sup>* t2 t3"
      "\<forall>j x. bt_get t3 j = Some x \<longrightarrow> bt_get t2 j = Some x"
      "\<forall>j x. bt_get t2 j = Some x \<and> te_Round p \<le> te_QcRound x \<longrightarrow> bt_get t3 j = Some x"
    unfolding p(2) by auto
  have "(prune_loop e commit t1 :: ('e, _) go) = prune_loop p (commit @ [te_ValidatedBlock e]) t2"
    using step.prems(1,2) step.hyps(2) r by (subst prune_loop.simps) (simp add: Let_def)
  then have run: "(prune_loop (last (es @ [e])) commit t1 :: ('e, _) go) = Ok (t3, commit @ rev (map te_ValidatedBlock (es @ [e])))"
    using t3(1) by simp
  have rem: "removal\<^sup>*\<^sup>* t1 t3" by (rule removal_step[OF r t3(2)])
  have sub: "bt_get t1 j = Some x" if "bt_get t3 j = Some x" for j x
    using t3(3)[rule_format, OF that] unfolding bt_remove_Some(2)[OF r] by (simp split: if_splits)
  have sup: "bt_get t3 j = Some x" if "bt_get t1 j = Some x" "te_Round e \<le> te_QcRound x" for j x
  proof -
    have "x \<noteq> p" using that(2) less_trans[OF round(2,1)] by auto
    then have "bt_get t2 j = Some x" using that(1) bt_remove_Some(1)[OF r] unfolding bt_remove_Some(2)[OF r] by auto
    moreover have "te_Round p \<le> te_QcRound x" using that(2) less_imp_le[OF round(1)] by (rule order_trans[rotated])
    ultimately show ?thesis using t3(4) by blast
  qed
  then have sup: "\<forall>j x. bt_get t1 j = Some x \<and> te_Round (last (es @ [e])) \<le> te_QcRound x \<longrightarrow> bt_get t3 j = Some x" by simp
  show ?case by (rule exI[of _ t3]) (intro conjI run rem sup allI impI sub)
qed

text \<open>
  No certificate in the tree contradicts the new root: a certified block of a later round, other than
  the new root itself, extends it. This is what the protocol's quorum intersection gives for a
  committed block.
\<close>

definition conflict_free :: "BlockTree \<Rightarrow> block_id \<Rightarrow> bool" where
  "conflict_free t i \<longleftrightarrow> (\<forall>r. bt_get t i = Some r \<longrightarrow>
     (\<forall>j e p. bt_get t j = Some e \<and> te_Round r \<le> te_QcRound e \<and> bt_get t (te_Parent e) = Some p \<and> te_Parent e \<noteq> i
        \<longrightarrow> te_Round r \<le> te_QcRound p))"

definition entry_root :: "crypto \<Rightarrow> BlockTreeEntry \<Rightarrow> RootInfo" where
  "entry_root cr e = \<lparr>ri_Round = te_Round e, ri_SeqNum = te_SeqNum e, ri_Epoch = bh_Epoch (fb_Header (te_ValidatedBlock e)),
     ri_BlockId = block_GetId cr (te_ValidatedBlock e), ri_TimestampNs = bh_TimestampNs (fb_Header (te_ValidatedBlock e))\<rparr>"

definition live :: "round \<Rightarrow> BlockTreeEntry option \<Rightarrow> BlockTreeEntry option" where
  "live r x = (case x of Some e \<Rightarrow> if te_QcRound e < r then None else Some e | None \<Rightarrow> None)"

lemma live_Some [simp]: "live r x = Some e \<longleftrightarrow> x = Some e \<and> r \<le> te_QcRound e"
  by (auto simp: live_def split: option.splits)

lemma payload_inv_same: "bt_payloads t' = bt_payloads t \<Longrightarrow> bt_tree t' = bt_tree t \<Longrightarrow> payload_inv cr t' = payload_inv cr t"
  by (simp only: payload_inv_def active_def)

definition pruned :: "crypto \<Rightarrow> BlockTree \<Rightarrow> block_id \<Rightarrow> BlockTreeEntry \<Rightarrow> BlockTree \<Rightarrow> bool" where
  "pruned cr t i r t' \<longleftrightarrow> bt_get t i = Some r \<and> te_IsCoherent r
     \<and> map_of (bt_tree t') = (\<lambda>j. live (te_Round r) (bt_get t j)) \<and> bt_root t' = entry_root cr r
     \<and> bt_rootKids t' = te_ChildrenBlocks r \<and> payload_inv cr t'
     \<and> keyed (\<lambda>e. block_GetId cr (te_ValidatedBlock e)) (bt_tree t')"

lemma Prune_path:
  assumes "forest_inv cr t" and "coherent_inv t" and "payload_inv cr t" and "bt_get t i = Some r" and "te_IsCoherent r"
  obtains t' es where "(Prune cr i t :: ('e, _) go) = Ok (t', map te_ValidatedBlock es)" and "rootpath t i es" and "\<forall>x\<in>set es. te_IsCoherent x"
    and "pruned cr t i r t'"
proof -
  let ?key = "\<lambda>e. block_GetId cr (te_ValidatedBlock e)"
  obtain es where es: "rootpath t i es" "\<forall>x\<in>set es. te_IsCoherent x" using coherent_rootpath[OF assms(1,2,4,5)] by blast
  have last: "last es = r" using rootpath_last[OF es(1)] assms(4) by simp
  have ne: "i \<noteq> bt_rootId t" using assms(1,4) by (auto simp: forest_inv_def)
  have qc: "te_QcRound r < te_Round r" using assms(1,4) by (auto simp: forest_inv_def)
  obtain t1 where t1: "bt_remove i t = Some (t1, r)" using bt_remove_get[OF assms(4)] by blast
  have "\<forall>j x. bt_get t j = Some x \<and> te_Round x < te_Round (last es) \<longrightarrow> bt_get t1 j = Some x"
    unfolding bt_remove_Some(2)[OF t1] last using assms(4) by auto
  then obtain t2 where t2: "(prune_loop r [] t1 :: ('e, _) go) = Ok (t2, rev (map te_ValidatedBlock es))" "removal\<^sup>*\<^sup>* t1 t2"
      "\<forall>j x. bt_get t2 j = Some x \<longrightarrow> bt_get t1 j = Some x"
      "\<forall>j x. bt_get t1 j = Some x \<and> te_Round r \<le> te_QcRound x \<longrightarrow> bt_get t2 j = Some x"
    using prune_loop_path[OF es(1) assms(1) es(2) bt_remove_Some(3)[OF t1], of "[]"] unfolding last by auto
  let ?t3 = "prune_gc (te_Round r) t2"
  have rem: "removal\<^sup>*\<^sup>* t t2" by (rule removal_step[OF t1 t2(2)])
  have key: "keyed ?key (bt_tree t)" using assms(1) by (simp add: forest_inv_def)
  note k2 = removal_keeps[OF rem assms(3) key]
  have d2: "distinct (akeys (bt_tree t2))" using k2 keyed_distinct by blast
  note k3 = removal_keeps[OF rtranclp_trans[OF rem prune_gc_get(1)[OF d2, of "te_Round r"]] assms(3) key]
  have get: "map_of (bt_tree ?t3) = (\<lambda>j. live (te_Round r) (bt_get t j))"
  proof
    fix j
    have "bt_get ?t3 j = live (te_Round r) (bt_get t2 j)" unfolding prune_gc_get(2)[OF d2] live_def ..
    also have "\<dots> = live (te_Round r) (bt_get t1 j)"
    proof (cases "live (te_Round r) (bt_get t1 j)")
      case None then show ?thesis using t2(3) by (cases "live (te_Round r) (bt_get t2 j)") auto
    next
      case (Some x)
      then have "bt_get t1 j = Some x" "te_Round r \<le> te_QcRound x" by simp_all
      then have "bt_get t2 j = Some x" using t2(4) by blast
      then show ?thesis using Some by simp
    qed
    also have "\<dots> = live (te_Round r) (bt_get t j)"
      unfolding bt_remove_Some(2)[OF t1] using qc assms(4) by (auto simp: live_def)
    finally show "bt_get ?t3 j = live (te_Round r) (bt_get t j)" .
  qed
  have "(Prune cr i t :: ('e, _) go) = Ok (?t3\<lparr>bt_root := entry_root cr r, bt_rootKids := te_ChildrenBlocks r\<rparr>, map te_ValidatedBlock es)"
    using ne assms(4,5) t1 t2(1) by (simp add: Prune_def IsCoherent_def Let_def entry_root_def)
  moreover let ?t = "?t3\<lparr>bt_root := entry_root cr r, bt_rootKids := te_ChildrenBlocks r\<rparr>"
  have "pruned cr t i r ?t" using get k3 assms(4,5) payload_inv_same[of ?t ?t3] by (simp add: pruned_def)
  ultimately show ?thesis using es that by blast
qed

text \<open>The invariant after pruning, on the explicit result.\<close>

lemma pruned_root:
  assumes "pruned cr t i r t'" and "forest_inv cr t"
  shows "bt_rootId t' = i" and "ri_Round (bt_root t') = te_Round r" and "ri_SeqNum (bt_root t') = te_SeqNum r"
    and "bt_get t' i = None"
  using assms forest_id[OF assms(2), of i r] forest_invD(1)[OF assms(2), of i r]
  by (simp_all add: pruned_def entry_root_def live_def)

lemma pruned_old:
  "pruned cr t i r t' \<Longrightarrow> bt_get t' j = Some e \<longleftrightarrow> bt_get t j = Some e \<and> te_Round r \<le> te_QcRound e"
  by (simp add: pruned_def)

lemma pruned_entry:
  assumes "pruned cr t i r t'" and "forest_inv cr t" and "bt_get t' j = Some e"
  shows "te_QcRound e < te_Round e" and "te_Round r \<le> te_QcRound e" and "te_Parent e \<noteq> bt_rootId t"
    and "bt_get t (te_Parent e) = Some p \<Longrightarrow> te_QcRound e = te_Round p"
proof -
  have e: "bt_get t j = Some e" and le: "te_Round r \<le> te_QcRound e" using assms(3) pruned_old[OF assms(1)] by auto
  show "te_QcRound e < te_Round e" "te_Round r \<le> te_QcRound e" by (fact forest_invD(1)[OF assms(2) e] le)+
  show "bt_get t (te_Parent e) = Some p \<Longrightarrow> te_QcRound e = te_Round p" by (rule forest_invD(4)[OF assms(2) e])
  have "ri_Round (bt_root t) < te_Round r" using forest_invD(2)[OF assms(2), of i r] assms(1) by (simp add: pruned_def)
  then show "te_Parent e \<noteq> bt_rootId t" using forest_invD(3)[OF assms(2) e] le by auto
qed

lemma forest_pruned:
  assumes pr: "pruned cr t i r t'" and inv: "forest_inv cr t"
  shows "forest_inv cr t'"
  unfolding forest_inv_def pruned_root(1,2)[OF pr inv]
proof (intro conjI allI impI)
  show "keyed (\<lambda>e. block_GetId cr (te_ValidatedBlock e)) (bt_tree t')" using pr by (simp add: pruned_def)
  show "bt_get t' i = None" by (rule pruned_root(4)[OF pr inv])
  fix j e assume e: "bt_get t' j = Some e"
  note facts = pruned_entry[OF pr inv e]
  show "te_QcRound e < te_Round e" "te_Round r < te_Round e" using facts(1,2) by auto
  show "te_Parent e = i \<Longrightarrow> te_QcRound e = te_Round r" using facts(4)[of r] pr by (simp add: pruned_def)
  show "te_QcRound e = te_Round p" if "bt_get t' (te_Parent e) = Some p" for p
    using facts(4) that pruned_old[OF pr] by blast
qed

lemma children_pruned:
  assumes pr: "pruned cr t i r t'" and inv: "forest_inv cr t" and j: "j = i \<or> bt_get t' j \<noteq> None"
  shows "children_of t' j = children_of t j"
proof -
  have "te_Round r \<le> te_QcRound e" if e: "bt_get t c = Some e" "te_Parent e = j" for c e
  proof (cases "j = i")
    case True then show ?thesis using forest_invD(4)[OF inv e(1), of r] e(2) pr by (simp add: pruned_def)
  next
    case False
    then obtain x where x: "bt_get t' j = Some x" using j by auto
    then have "te_QcRound e = te_Round x" using forest_invD(4)[OF inv e(1), of x] e(2) pruned_old[OF pr] by simp
    then show ?thesis using pruned_entry(1,2)[OF pr inv x] by auto
  qed
  then show ?thesis unfolding children_of_def pruned_old[OF pr] by auto
qed

lemma kids_pruned:
  assumes pr: "pruned cr t i r t'" and inv: "forest_inv cr t" "kids_inv t"
  shows "kids_inv t'"
  unfolding kids_inv_def pruned_root(1)[OF pr inv(1)]
proof (intro conjI allI impI)
  have r: "bt_get t i = Some r" "bt_rootKids t' = te_ChildrenBlocks r" using pr by (simp_all add: pruned_def)
  with inv(2) show "distinct (bt_rootKids t')" "set (bt_rootKids t') = children_of t' i"
    unfolding children_pruned[OF pr inv(1), of i, simplified] by (auto simp: kids_inv_def)
  fix j e assume e: "bt_get t' j = Some e"
  have "children_of t' j = children_of t j" by (rule children_pruned[OF pr inv(1)]) (simp add: e)
  then show "distinct (te_ChildrenBlocks e)" "set (te_ChildrenBlocks e) = children_of t' j"
    using inv(2) e pruned_old[OF pr] by (auto simp: kids_inv_def)
qed

lemma coherent_parent_pruned:
  assumes pr: "pruned cr t i r t'" and inv: "forest_inv cr t" "coherent_inv t" and cf: "conflict_free t i"
    and e: "bt_get t' j = Some e" "te_IsCoherent e"
  shows "te_Parent e = i \<or> (\<exists>p. bt_get t' (te_Parent e) = Some p \<and> te_IsCoherent p)"
proof -
  have old: "bt_get t j = Some e" "te_Round r \<le> te_QcRound e" using e(1) pruned_old[OF pr] by auto
  then have "IsCoherent t (te_Parent e)" using inv(2) e(2) by (auto simp: coherent_inv_def)
  then obtain p where p: "bt_get t (te_Parent e) = Some p" "te_IsCoherent p"
    using pruned_entry(3)[OF pr inv(1) e(1)] by (auto simp: IsCoherent_def split: option.splits)
  have "te_Round r \<le> te_QcRound p" if "te_Parent e \<noteq> i"
    using cf[unfolded conflict_free_def, rule_format, of r j e p] pr old p(1) that by (simp add: pruned_def)
  then show ?thesis using p pruned_old[OF pr] by (cases "te_Parent e = i") simp_all
qed

lemma tree_inv_pruned:
  assumes pr: "pruned cr t i r t'" and inv: "tree_inv cr t" and cf: "conflict_free t i"
  shows "tree_inv cr t'"
proof -
  have f: "forest_inv cr t" "kids_inv t" "coherent_inv t" "seq_inv t" using inv by (simp_all add: tree_inv_def)
  note root = pruned_root[OF pr f(1)] and parent = coherent_parent_pruned[OF pr f(1,3) cf]
  have "coherent_inv t'"
    unfolding coherent_inv_def IsCoherent_def root
  proof (intro allI impI, elim conjE)
    fix j e assume "bt_get t' j = Some e" "te_IsCoherent e"
    from parent[OF this] show "if te_Parent e = i then True else case bt_get t' (te_Parent e) of Some e \<Rightarrow> te_IsCoherent e | None \<Rightarrow> False"
      by auto
  qed
  moreover have "seq_inv t'"
    unfolding seq_inv_def
  proof (intro allI impI, elim conjE)
    fix j e s assume e: "bt_get t' j = Some e" "te_IsCoherent e" and s: "parent_SeqNum t' e = Some s"
    have "bt_get t i = Some r" using pr by (simp add: pruned_def)
    then have "parent_SeqNum t e = Some s"
      using s parent[OF e] pruned_old[OF pr] pruned_entry(3)[OF pr f(1) e(1)] root
      by (auto simp: parent_SeqNum_def GetSeqNumOfQc_def split: if_splits)
    then show "te_SeqNum e = s + 1" using f(4) e pruned_old[OF pr] by (auto simp: seq_inv_def)
  qed
  ultimately show ?thesis
    unfolding tree_inv_def using forest_pruned[OF pr f(1)] kids_pruned[OF pr f(1,2)] pr by (simp add: pruned_def)
qed

end
