(* ===== verification/Coherency.thy ===== *)
theory Coherency
  imports Forest "HOL-Library.Multiset_Order"
begin

text \<open>
  The searches of the block tree and its properties: the breadth-first searches end, coherency
  updates keep the invariant, the canonical tip and the high committable certificate are coherent,
  and committed sequence numbers are consecutive.
\<close>

section \<open>Searches end\<close>

text \<open>
  Children have later rounds than their parent. Weighing an id by the number of entries with a later
  round, a search step replaces one element of the queue by lighter ones, so the multiset of weights
  falls.
\<close>

definition later :: "BlockTree \<Rightarrow> block_id \<Rightarrow> nat" where
  "later t i = card {j. \<exists>e. bt_get t j = Some e \<and> (\<forall>f. bt_get t i = Some f \<longrightarrow> te_Round f < te_Round e)}"

definition queue_weight :: "BlockTree \<Rightarrow> block_id list \<Rightarrow> nat multiset" where
  "queue_weight t q = image_mset (later t) (mset q)"

lemma later_child:
  assumes "forest_inv cr t" and "c \<in> children_of t i"
  shows "later t c < later t i"
proof -
  let ?L = "\<lambda>i. {j. \<exists>e. bt_get t j = Some e \<and> (\<forall>f. bt_get t i = Some f \<longrightarrow> te_Round f < te_Round e)}"
  have fin: "finite (?L i)" by (rule finite_subset[OF _ finite_dom_map_of[of "bt_tree t"]]) auto
  obtain ce where c: "bt_get t c = Some ce" "te_Parent ce = i" using assms(2) by (auto simp: children_of_def)
  have lt: "te_Round f < te_Round ce" if "bt_get t i = Some f" for f
    using forest_invD(1)[OF assms(1) c(1)] forest_invD(4)[OF assms(1) c(1), of f] c(2) that by simp
  have "c \<in> ?L i" "c \<notin> ?L c" using c(1) lt by auto
  moreover have "?L c \<subseteq> ?L i" using c(1) lt by (auto intro: less_trans)
  ultimately have "?L c \<subset> ?L i" by blast
  then show ?thesis unfolding later_def by (rule psubset_card_mono[OF fin])
qed

lemma queue_falls:
  assumes "forest_inv cr t" and "set cs \<subseteq> children_of t i"
  shows "queue_weight t (q @ cs) < queue_weight t (i # q)"
proof -
  have "(queue_weight t q + queue_weight t cs, queue_weight t q + {#later t i#}) \<in> mult {(x, y). x < y}"
    using assms(2) later_child[OF assms(1)]
    by (intro one_step_implies_mult) (auto simp: queue_weight_def)
  then show ?thesis by (simp add: less_multiset_def queue_weight_def multp_def)
qed

lemma queue_pop: "queue_weight t q < queue_weight t (i # q)"
  by (simp add: queue_weight_def)

text \<open>Trees that differ only in the coherency flags.\<close>

definition same_blocks :: "BlockTree \<Rightarrow> BlockTree \<Rightarrow> bool" where
  "same_blocks t t' \<longleftrightarrow> bt_root t' = bt_root t \<and> bt_rootKids t' = bt_rootKids t \<and> bt_payloads t' = bt_payloads t
     \<and> (\<forall>i. map_option (\<lambda>e. e\<lparr>te_IsCoherent := False\<rparr>) (bt_get t' i) = map_option (\<lambda>e. e\<lparr>te_IsCoherent := False\<rparr>) (bt_get t i))"

lemma same_blocks_get:
  assumes "same_blocks t t'" and "bt_get t' i = Some e'"
  obtains e where "bt_get t i = Some e" and "te_ValidatedBlock e = te_ValidatedBlock e'" and "te_ChildrenBlocks e = te_ChildrenBlocks e'"
proof -
  have "map_option (\<lambda>e. e\<lparr>te_IsCoherent := False\<rparr>) (bt_get t i) = Some (e'\<lparr>te_IsCoherent := False\<rparr>)"
    using assms unfolding same_blocks_def by (metis option.map(2))
  then obtain e where e: "bt_get t i = Some e" "e\<lparr>te_IsCoherent := False\<rparr> = e'\<lparr>te_IsCoherent := False\<rparr>" by auto
  then have "te_ValidatedBlock e = te_ValidatedBlock e'" "te_ChildrenBlocks e = te_ChildrenBlocks e'"
    by (metis BlockTreeEntry.select_convs(1,3) BlockTreeEntry.surjective BlockTreeEntry.update_convs(2))+
  then show ?thesis using e(1) that by blast
qed

lemma same_blocks_sym: "same_blocks t t' \<Longrightarrow> same_blocks t' t"
  by (simp add: same_blocks_def)

lemma same_blocks_trans: "same_blocks a b \<Longrightarrow> same_blocks b c \<Longrightarrow> same_blocks a c"
  by (simp add: same_blocks_def)

lemma same_blocks_refl [simp]: "same_blocks t t"
  by (simp add: same_blocks_def)

lemma same_blocks_collect:
  assumes "same_blocks t t'"
  shows "{c. \<exists>e. bt_get t' c = Some e \<and> P (te_ValidatedBlock e)} = {c. \<exists>e. bt_get t c = Some e \<and> P (te_ValidatedBlock e)}"
proof -
  have "\<exists>e. bt_get t c = Some e \<and> P (te_ValidatedBlock e)" if "same_blocks t t'" "bt_get t' c = Some e" "P (te_ValidatedBlock e)" for t t' c e
    by (rule same_blocks_get[OF that(1,2)]) (use that(3) in auto)
  then show ?thesis using assms same_blocks_sym[OF assms] by blast
qed

lemma set_coherent_get:
  "bt_get (set_coherent i t) j = (if j = i then map_option (\<lambda>e. e\<lparr>te_IsCoherent := True\<rparr>) (bt_get t i) else bt_get t j)"
  by (auto simp: set_coherent_def split: option.splits)

lemma same_blocks_set_coherent: "same_blocks t (set_coherent i t)"
  unfolding same_blocks_def set_coherent_get by (auto simp: set_coherent_def option.map_comp comp_def split: option.splits)

section \<open>Coherency updates\<close>

lemma same_blocks_forest:
  assumes same: "same_blocks t t'" and inv: "forest_inv cr t" and key: "keyed (\<lambda>e. block_GetId cr (te_ValidatedBlock e)) (bt_tree t')"
  shows "forest_inv cr t'"
proof -
  have root: "bt_root t' = bt_root t" using same by (simp add: same_blocks_def)
  have "bt_get t' (bt_rootId t) = None"
  proof (rule ccontr)
    assume "bt_get t' (bt_rootId t) \<noteq> None"
    then obtain e where e: "bt_get t' (bt_rootId t) = Some e" by auto
    show False by (rule same_blocks_get[OF same e]) (use inv in \<open>simp add: forest_inv_def\<close>)
  qed
  moreover have "te_QcRound e < te_Round e \<and> ri_Round (bt_root t) < te_Round e
      \<and> (te_Parent e = bt_rootId t \<longrightarrow> te_QcRound e = ri_Round (bt_root t))
      \<and> (\<forall>p. bt_get t' (te_Parent e) = Some p \<longrightarrow> te_QcRound e = te_Round p)" if e: "bt_get t' i = Some e" for i e
  proof -
    obtain e0 where e0: "bt_get t i = Some e0" "te_ValidatedBlock e0 = te_ValidatedBlock e" by (rule same_blocks_get[OF same e])
    have "te_QcRound e = te_Round p" if p: "bt_get t' (te_Parent e) = Some p" for p
    proof -
      obtain p0 where "bt_get t (te_Parent e) = Some p0" "te_ValidatedBlock p0 = te_ValidatedBlock p" by (rule same_blocks_get[OF same p])
      then show ?thesis using forest_invD(4)[OF inv e0(1), of p0] e0(2) by simp
    qed
    then show ?thesis using forest_invD(1-3)[OF inv e0(1)] e0(2) by simp
  qed
  ultimately show ?thesis using key unfolding forest_inv_def root by blast
qed

lemma same_blocks_kids:
  assumes same: "same_blocks t t'" and inv: "kids_inv t" shows "kids_inv t'"
proof -
  have c: "children_of t' i = children_of t i" for i
    unfolding children_of_def using same_blocks_collect[OF same, of "\<lambda>b. qc_GetBlockId (bh_QC (fb_Header b)) = i"] by simp
  have "distinct (te_ChildrenBlocks e) \<and> set (te_ChildrenBlocks e) = children_of t i" if e: "bt_get t' i = Some e" for i e
  proof -
    obtain f where "bt_get t i = Some f" "te_ChildrenBlocks f = te_ChildrenBlocks e" by (rule same_blocks_get[OF same e])
    then show ?thesis using inv unfolding kids_inv_def by metis
  qed
  then show ?thesis using inv same unfolding kids_inv_def c by (simp add: same_blocks_def)
qed

lemma same_blocks_payload:
  assumes same: "same_blocks t t'" and inv: "payload_inv cr t" shows "payload_inv cr t'"
proof -
  have a: "active t' b = active t b" for b
    unfolding active_def using same_blocks_collect[OF same, of "\<lambda>x. bh_BlockBodyId (fb_Header x) = b"] by simp
  have "bt_payloads t' = bt_payloads t" using same by (simp add: same_blocks_def)
  then show ?thesis using inv unfolding payload_inv_def a by simp
qed

lemma set_coherent_keyed:
  assumes key: "keyed (\<lambda>e. block_GetId cr (te_ValidatedBlock e)) (bt_tree t)"
  shows "keyed (\<lambda>e. block_GetId cr (te_ValidatedBlock e)) (bt_tree (set_coherent i t))"
proof (cases "bt_get t i")
  case (Some e)
  then have "block_GetId cr (te_ValidatedBlock e) = i" using keyed_mem[OF key map_of_SomeD] by blast
  then have "keyed (\<lambda>e. block_GetId cr (te_ValidatedBlock e)) (aput i (e\<lparr>te_IsCoherent := True\<rparr>) (bt_tree t))"
    by (intro keyed_aput[OF key]) simp
  with Some show ?thesis by (simp add: set_coherent_def)
qed (simp add: set_coherent_def key)

lemma set_coherent_coherent: "IsCoherent (set_coherent i t) j \<longleftrightarrow> IsCoherent t j \<or> j = i \<and> bt_get t i \<noteq> None"
  using same_blocks_set_coherent[of t i] unfolding IsCoherent_def set_coherent_get
  by (auto simp: same_blocks_def split: option.splits)

lemma tree_inv_set_coherent:
  assumes inv: "tree_inv cr t" and e: "bt_get t i = Some e" and parent: "IsCoherent t (te_Parent e)"
    and seq: "\<And>s. parent_SeqNum t e = Some s \<Longrightarrow> te_SeqNum e = s + 1"
  shows "tree_inv cr (set_coherent i t)"
proof -
  let ?t = "set_coherent i t"
  note same = same_blocks_set_coherent[of t i]
  have f: "forest_inv cr t" "kids_inv t" "coherent_inv t" "seq_inv t" "payload_inv cr t" using inv by (simp_all add: tree_inv_def)
  have key: "keyed (\<lambda>e. block_GetId cr (te_ValidatedBlock e)) (bt_tree ?t)"
    using f(1) by (intro set_coherent_keyed) (simp add: forest_inv_def)
  have get: "\<exists>f. bt_get t j = Some f \<and> te_ValidatedBlock x = te_ValidatedBlock f \<and> (te_IsCoherent x \<longrightarrow> te_IsCoherent f \<or> j = i \<and> f = e)"
    if "bt_get ?t j = Some x" for j x
    using that e by (auto simp: set_coherent_get split: if_splits)
  have coherent: "IsCoherent ?t (te_Parent x)" if "bt_get ?t j = Some x" "te_IsCoherent x" for j x
    using get[OF that(1)] that(2) f(3) parent unfolding set_coherent_coherent by (auto simp: coherent_inv_def)
  have ps: "parent_SeqNum ?t x = parent_SeqNum t y" if "te_ValidatedBlock x = te_ValidatedBlock y" for x y
    using that same by (auto simp: parent_SeqNum_def GetSeqNumOfQc_def set_coherent_get same_blocks_def option.map_comp comp_def)
  have "te_SeqNum x = s + 1" if x: "bt_get ?t j = Some x" "te_IsCoherent x" "parent_SeqNum ?t x = Some s" for j x s
  proof -
    obtain y where y: "bt_get t j = Some y" "te_ValidatedBlock x = te_ValidatedBlock y" "te_IsCoherent y \<or> j = i \<and> y = e"
      using get[OF x(1)] x(2) by blast
    have "parent_SeqNum t y = Some s" using x(3) ps[OF y(2)] by simp
    then show ?thesis using y f(4) seq by (auto simp: seq_inv_def)
  qed
  then show ?thesis
    unfolding tree_inv_def using same_blocks_forest[OF same f(1) key] same_blocks_kids[OF same f(2)] same_blocks_payload[OF same f(5)] coherent
    by (auto simp: coherent_inv_def seq_inv_def)
qed

lemma rootpath_ext:
  assumes "rootpath t i es"
  shows "parent_SeqNum t (last es) = Some (ext_SeqNum (bt_root t) (butlast (map te_ValidatedBlock es)))"
  using assms
proof (cases rule: rootpath.cases)
  case (first e) then show ?thesis by (simp add: parent_SeqNum_def GetSeqNumOfQc_def)
next
  case (step e fs)
  have "fs \<noteq> []" "bt_get t (te_Parent e) = Some (last fs)" using rootpath_last[OF step(4)] by auto
  with step show ?thesis by (simp add: parent_SeqNum_def GetSeqNumOfQc_def butlast_append last_map)
qed

lemma rootpath_of_parent:
  assumes "forest_inv cr t" and "coherent_inv t" and "bt_get t i = Some e" and "IsCoherent t (te_Parent e)"
  obtains es where "rootpath t i es" and "last es = e"
proof (cases "te_Parent e = bt_rootId t")
  case True with assms(3) show ?thesis by (intro that[of "[e]"]) (auto intro: rootpath.first)
next
  case False
  then obtain p where "bt_get t (te_Parent e) = Some p" "te_IsCoherent p"
    using assms(4) by (auto simp: IsCoherent_def split: option.splits)
  then obtain es where "rootpath t (te_Parent e) es" using coherent_rootpath[OF assms(1,2)] by blast
  with False assms(3) show ?thesis by (intro that[of "es @ [e]"]) (auto intro: rootpath.step)
qed

lemma later_same:
  assumes "same_blocks t t'" shows "later t' i = later t i"
proof -
  have b: "map_option te_ValidatedBlock (bt_get t' i) = map_option te_ValidatedBlock (bt_get t i)"
    using arg_cong[of _ _ "map_option te_ValidatedBlock"] assms unfolding same_blocks_def by (fastforce simp: option.map_comp comp_def)
  have "(\<forall>f. bt_get t' i = Some f \<longrightarrow> te_Round f < r) \<longleftrightarrow> (\<forall>f. bt_get t i = Some f \<longrightarrow> te_Round f < r)" for r
    using b by (cases "bt_get t i"; cases "bt_get t' i") auto
  then show ?thesis
    unfolding later_def
    using same_blocks_collect[OF assms, of "\<lambda>b. \<forall>f. bt_get t i = Some f \<longrightarrow> te_Round f < block_Round b"] by simp
qed

lemma queue_weight_same: "same_blocks t t' \<Longrightarrow> queue_weight t' q = queue_weight t q"
  unfolding queue_weight_def by (intro image_mset_cong) (rule later_same)

text \<open>The policy answers: it accepts or rejects, and does not panic.\<close>

definition policy_total :: "crypto \<Rightarrow> BlockPolicy \<Rightarrow> ExecutionStateRead \<Rightarrow> bool" where
  "policy_total cr p sr \<longleftrightarrow> (\<forall>b ext root. CheckCoherency cr p b ext root sr = Ok () \<or> (\<exists>e. CheckCoherency cr p b ext root sr = Err e))"

definition pending :: "BlockTree \<Rightarrow> block_id \<Rightarrow> bool" where
  "pending t q \<longleftrightarrow> (\<exists>e. bt_get t q = Some e \<and> IsCoherent t (te_Parent e))"

lemma pending_set_coherent: "pending t q \<Longrightarrow> pending (set_coherent i t) q"
  unfolding pending_def set_coherent_coherent by (auto simp: set_coherent_get)

lemma pending_child:
  assumes "kids_inv t" and "bt_get t i = Some e" and "c \<in> set (te_ChildrenBlocks e)"
  shows "pending (set_coherent i t) c"
proof -
  obtain ce where "bt_get t c = Some ce" "te_Parent ce = i"
    using assms by (auto simp: kids_inv_def children_of_def)
  then show ?thesis using assms(2) unfolding pending_def set_coherent_coherent by (auto simp: set_coherent_get)
qed

definition updated :: "crypto \<Rightarrow> BlockTree \<Rightarrow> BlockTree \<Rightarrow> ConsensusFullBlock list \<Rightarrow> bool" where
  "updated cr t t' bs \<longleftrightarrow> tree_inv cr t' \<and> same_blocks t t' \<and> (\<forall>i. IsCoherent t i \<longrightarrow> IsCoherent t' i)
     \<and> (\<forall>b\<in>set bs. IsCoherent t' (block_GetId cr b))"

lemma coherency_step:
  assumes inv: "tree_inv cr t" and i: "bt_get t i = Some e" "IsCoherent t (te_Parent e)"
    and check: "CheckCoherency cr policy (te_ValidatedBlock e) (Some ext) (bt_root t) sr = Ok ()"
    and ext: "parent_SeqNum t e = Some (ext_SeqNum (bt_root t) ext)"
  shows "tree_inv cr (set_coherent i t)"
  using CheckCoherency_SeqNum(1)[OF check] ext by (intro tree_inv_set_coherent[OF inv i]) simp

lemma pending_path:
  assumes "tree_inv cr t" and "pending t i"
  obtains e ext where "bt_get t i = Some e" and "IsCoherent t (te_Parent e)"
    and "(GetBlocksOnPathFromRoot t i :: ('e, _) go) = Ok (Some (ext @ [te_ValidatedBlock e]))"
    and "parent_SeqNum t e = Some (ext_SeqNum (bt_root t) ext)"
proof -
  have inv: "forest_inv cr t" "coherent_inv t" using assms(1) by (simp_all add: tree_inv_def)
  obtain e where e: "bt_get t i = Some e" "IsCoherent t (te_Parent e)" using assms(2) by (auto simp: pending_def)
  obtain es where es: "rootpath t i es" "last es = e" by (rule rootpath_of_parent[OF inv e])
  have ne: "i \<noteq> bt_rootId t" using e(1) inv(1) by (auto simp: forest_inv_def)
  have "es \<noteq> []" using rootpath_last[OF es(1)] by simp
  then have split: "map te_ValidatedBlock es = butlast (map te_ValidatedBlock es) @ [te_ValidatedBlock e]"
    by (metis append_butlast_last_id es(2) last_map list.map_disc_iff)
  have "(GetBlocksOnPathFromRoot t i :: ('e, _) go) = Ok (Some (map te_ValidatedBlock es))"
    using GetBlocksOnPathFromRoot_returns[OF inv(1), of i] ne es(1) rootpath_unique by metis
  with e es(2) rootpath_ext[OF es(1)] split show ?thesis by (intro that[of e "butlast (map te_ValidatedBlock es)"]) simp_all
qed

lemma updated_step:
  assumes "tree_inv cr t" and "bt_get t i = Some e" and "updated cr (set_coherent i t) t' bs"
  shows "updated cr t t' (te_ValidatedBlock e # bs)"
proof -
  have "block_GetId cr (te_ValidatedBlock e) = i" using forest_id assms(1,2) by (auto simp: tree_inv_def)
  then show ?thesis
    using assms(2,3) same_blocks_trans[OF same_blocks_set_coherent] unfolding updated_def set_coherent_coherent by auto
qed

lemma coherency_loop_returns:
  assumes "policy_total cr policy sr" and "tree_inv cr t" and "\<forall>q\<in>set queue. pending t q"
  shows "\<exists>t' bs. (coherency_loop cr policy sr queue out t :: ('e, _) go option) = Some (Ok (t', out @ bs)) \<and> updated cr t t' bs"
  using assms(2,3)
proof (induction "queue_weight t queue" arbitrary: queue out t rule: less_induct)
  case less
  show ?case
  proof (cases queue)
    case Nil with less.prems show ?thesis by (subst coherency_loop.simps) (simp add: updated_def)
  next
    case (Cons i q)
    have inv: "forest_inv cr t" "kids_inv t" using less.prems(1) by (simp_all add: tree_inv_def)
    obtain e ext where e: "bt_get t i = Some e" "IsCoherent t (te_Parent e)"
      and path: "(GetBlocksOnPathFromRoot t i :: ('e, _) go) = Ok (Some (ext @ [te_ValidatedBlock e]))"
      and ext: "parent_SeqNum t e = Some (ext_SeqNum (bt_root t) ext)"
      using pending_path[OF less.prems(1)] less.prems(2) Cons by (metis list.set_intros(1))
    show ?thesis
    proof (cases "CheckCoherency cr policy (te_ValidatedBlock e) (Some ext) (bt_root t) sr = Ok ()")
      case True
      let ?t = "set_coherent i t"
      have pend: "\<forall>x\<in>set (q @ te_ChildrenBlocks e). pending ?t x"
        using less.prems(2) Cons pending_set_coherent pending_child[OF inv(2) e(1)] by auto
      have "queue_weight ?t (q @ te_ChildrenBlocks e) < queue_weight t queue"
        unfolding queue_weight_same[OF same_blocks_set_coherent] Cons
        using inv(2) e(1) by (intro queue_falls[OF inv(1)]) (auto simp: kids_inv_def)
      from less.hyps[OF this coherency_step[OF less.prems(1) e True ext] pend, of "out @ [te_ValidatedBlock e]"] obtain t' bs where t':
        "(coherency_loop cr policy sr (q @ te_ChildrenBlocks e) (out @ [te_ValidatedBlock e]) ?t :: ('e, _) go option)
           = Some (Ok (t', out @ te_ValidatedBlock e # bs))" "updated cr ?t t' bs" by auto
      show ?thesis using t'(1) path e(1) True Cons updated_step[OF less.prems(1) e(1) t'(2)]
        by (intro exI[of _ t'] exI[of _ "te_ValidatedBlock e # bs"]) (subst coherency_loop.simps, simp add: Let_def)
    next
      case False
      then obtain err where err: "CheckCoherency cr policy (te_ValidatedBlock e) (Some ext) (bt_root t) sr = Err err"
        using assms(1) unfolding policy_total_def by blast
      have "queue_weight t q < queue_weight t queue" unfolding Cons by (rule queue_pop)
      from less.hyps[OF this less.prems(1), of out] less.prems(2) Cons obtain t' bs where
        "(coherency_loop cr policy sr q out t :: ('e, _) go option) = Some (Ok (t', out @ bs))" "updated cr t t' bs" by auto
      then show ?thesis using path err Cons
        by (intro exI[of _ t'] exI[of _ bs]) (subst coherency_loop.simps, simp add: Let_def)
    qed
  qed
qed

lemma find_append: "find P (xs @ ys) = (case find P xs of Some x \<Rightarrow> Some x | None \<Rightarrow> find P ys)"
  by (induction xs) auto

lemma find_incoherent:
  assumes "rootpath t i es" and "forest_inv cr t"
    and "find (\<lambda>b. case bt_get t (block_GetId cr b) of None \<Rightarrow> True | Some e \<Rightarrow> \<not> te_IsCoherent e) (map te_ValidatedBlock es) = Some b"
  shows "pending t (block_GetId cr b)"
  using assms(1,3)
proof (induction rule: rootpath.induct)
  case (first i e)
  then show ?case using forest_id[OF assms(2) first.hyps(1)] by (auto simp: pending_def IsCoherent_def split: if_splits option.splits)
next
  case (step i e es)
  let ?P = "\<lambda>b. case bt_get t (block_GetId cr b) of None \<Rightarrow> True | Some e \<Rightarrow> \<not> te_IsCoherent e"
  show ?case
  proof (cases "find ?P (map te_ValidatedBlock es)")
    case None
    have p: "es \<noteq> []" "bt_get t (te_Parent e) = Some (last es)" using rootpath_last[OF step.hyps(3)] by auto
    then have "te_IsCoherent (last es)"
      using None forest_id[OF assms(2) p(2)] by (auto simp: find_None_iff dest: bspec[of _ _ "last es"])
    moreover have "b = te_ValidatedBlock e" using step.prems None by (auto simp: find_append split: if_splits option.splits)
    ultimately show ?thesis
      using forest_id[OF assms(2) step.hyps(1)] step.hyps(1) p(2) by (auto simp: pending_def IsCoherent_def)
  next
    case (Some b')
    with step show ?thesis by (auto simp: find_append)
  qed
qed

lemma TryUpdateCoherency_updates:
  assumes "policy_total cr policy sr" and "tree_inv cr t"
  shows "\<exists>t' bs. (TryUpdateCoherency cr policy sr i t :: ('e, _) go) = Ok (t', bs) \<and> updated cr t t' bs"
proof -
  have inv: "forest_inv cr t" using assms(2) by (simp add: tree_inv_def)
  have refl: "updated cr t t []" using assms(2) by (simp add: updated_def)
  show ?thesis
  proof (cases rule: GetBlocksOnPathFromRoot_returns[OF inv, of i, where ?'e = 'e])
    case 1 with refl show ?thesis by (simp add: TryUpdateCoherency_def)
  next
    case 3 with refl show ?thesis by (simp add: TryUpdateCoherency_def)
  next
    case (2 es) note path = this
    let ?P = "\<lambda>b. case bt_get t (block_GetId cr b) of None \<Rightarrow> True | Some e \<Rightarrow> \<not> te_IsCoherent e"
    show ?thesis
    proof (cases "find ?P (map te_ValidatedBlock es)")
      case None with path refl show ?thesis by (simp add: TryUpdateCoherency_def)
    next
      case (Some b)
      have "\<forall>q\<in>set [block_GetId cr b]. pending t q" using find_incoherent[OF path(2) inv Some] by simp
      from coherency_loop_returns[OF assms this, of "[]", where ?'e = 'e] path Some show ?thesis
        by (auto simp: TryUpdateCoherency_def go_of_def)
    qed
  qed
qed

section \<open>The canonical tip\<close>

definition coherent_child :: "BlockTree \<Rightarrow> block_id \<Rightarrow> block_id \<Rightarrow> bool" where
  "coherent_child t q c \<longleftrightarrow> (\<exists>e. bt_get t c = Some e \<and> te_IsCoherent e \<and> te_Parent e = q)"

definition best_ok :: "BlockTree \<Rightarrow> block_id \<times> round \<Rightarrow> bool" where
  "best_ok t best \<longleftrightarrow> best = (bt_rootId t, ri_Round (bt_root t)) \<or> (\<exists>e. bt_get t (fst best) = Some e \<and> te_IsCoherent e \<and> te_Round e = snd best)"

lemma descend_spec:
  assumes "set cs \<subseteq> children_of t q" and "best_ok t best" and "bt_get t (bt_rootId t) = None"
  shows "\<exists>best' more. descend t cs best = (best', more) \<and> best_ok t best' \<and> snd best \<le> snd best'
    \<and> set more = {c \<in> set cs. coherent_child t q c} \<and> (\<forall>c\<in>set more. \<forall>e. bt_get t c = Some e \<longrightarrow> te_Round e \<le> snd best')"
proof -
  let ?f = "\<lambda>child ((bestId, bestRound), queue).
       if \<not> IsCoherent t child then ((bestId, bestRound), queue) else
       case bt_get t child of
         None \<Rightarrow> ((bestId, bestRound), queue)
       | Some ce \<Rightarrow> (if block_Round (te_ValidatedBlock ce) > bestRound then (child, block_Round (te_ValidatedBlock ce)) else (bestId, bestRound),
            queue @ [child])"
  have "\<exists>best' more. fold ?f cs (best, q0) = (best', q0 @ more) \<and> best_ok t best' \<and> snd best \<le> snd best'
      \<and> set more = {c \<in> set cs. coherent_child t q c} \<and> (\<forall>c\<in>set more. \<forall>e. bt_get t c = Some e \<longrightarrow> te_Round e \<le> snd best')" for q0
    using assms(1,2)
  proof (induction cs arbitrary: best q0)
    case (Cons c cs)
    obtain e where e: "bt_get t c = Some e" "te_Parent e = q" using Cons.prems(1) by (auto simp: children_of_def)
    have ne: "c \<noteq> bt_rootId t" using e(1) assms(3) by auto
    show ?case
    proof (cases "te_IsCoherent e")
      case False
      then have "\<not> coherent_child t q c" "\<not> IsCoherent t c" using e ne by (auto simp: coherent_child_def IsCoherent_def)
      with Cons.IH[of best q0] Cons.prems show ?thesis by (cases best) auto
    next
      case True
      let ?b = "if te_Round e > snd best then (c, te_Round e) else best"
      have step: "?f c (best, q0) = (?b, q0 @ [c])" using e ne True by (cases best) (simp add: IsCoherent_def)
      have ok: "best_ok t ?b" "snd best \<le> snd ?b" "te_Round e \<le> snd ?b" using Cons.prems(2) e True by (auto simp: best_ok_def)
      obtain b' more where r: "fold ?f cs (?b, q0 @ [c]) = (b', (q0 @ [c]) @ more)" "best_ok t b'" "snd ?b \<le> snd b'"
          "set more = {c \<in> set cs. coherent_child t q c}" "\<forall>c\<in>set more. \<forall>e. bt_get t c = Some e \<longrightarrow> te_Round e \<le> snd b'"
        using Cons.IH[OF _ ok(1), of "q0 @ [c]"] Cons.prems(1) by auto
      have "coherent_child t q c" using e True by (auto simp: coherent_child_def)
      with r ok e step show ?thesis
        by (intro exI[of _ b'] exI[of _ "c # more"]) (auto intro: order_trans)
    qed
  qed auto
  from this[of "[]"] show ?thesis unfolding descend_def by auto
qed

lemma kids_of:
  assumes "kids_inv t" and "i = bt_rootId t \<or> bt_get t i \<noteq> None"
  shows "\<exists>cs. (if i = bt_rootId t then Some (bt_rootKids t) else map_option te_ChildrenBlocks (bt_get t i)) = Some cs
    \<and> set cs = children_of t i"
  using assms by (cases "i = bt_rootId t") (auto simp: kids_inv_def)

lemma descendant_loop_returns:
  assumes "forest_inv cr t" and "kids_inv t" and "\<forall>q\<in>set queue. q = bt_rootId t \<or> bt_get t q \<noteq> None" and "best_ok t best"
  shows "\<exists>b. descendant_loop t queue best = Some (fst b) \<and> best_ok t b \<and> snd best \<le> snd b
    \<and> (\<forall>q\<in>set queue. \<forall>c e. (coherent_child t)\<^sup>+\<^sup>+ q c \<and> bt_get t c = Some e \<longrightarrow> te_Round e \<le> snd b)"
  using assms(3,4)
proof (induction "queue_weight t queue" arbitrary: queue best rule: less_induct)
  case less
  show ?case
  proof (cases queue)
    case Nil with less.prems show ?thesis by (intro exI[of _ best]) (subst descendant_loop.simps, simp)
  next
    case (Cons i q)
    have none: "bt_get t (bt_rootId t) = None" using assms(1) by (simp add: forest_inv_def)
    obtain cs where cs: "(if i = bt_rootId t then Some (bt_rootKids t) else map_option te_ChildrenBlocks (bt_get t i)) = Some cs"
      "set cs = children_of t i"
      using kids_of[OF assms(2), of i] less.prems(1) Cons by auto
    obtain b more where d: "descend t cs best = (b, more)" "best_ok t b" "snd best \<le> snd b"
      "set more = {c \<in> children_of t i. coherent_child t i c}" "\<forall>c\<in>set more. \<forall>e. bt_get t c = Some e \<longrightarrow> te_Round e \<le> snd b"
      using descend_spec[of cs t i best] cs(2) less.prems(2) none by auto
    have "queue_weight t (q @ more) < queue_weight t queue"
      unfolding Cons using d(4) by (intro queue_falls[OF assms(1)]) auto
    moreover have "\<forall>x\<in>set (q @ more). x = bt_rootId t \<or> bt_get t x \<noteq> None"
      using less.prems(1) Cons d(4) by (auto simp: coherent_child_def)
    ultimately obtain b' where b': "descendant_loop t (q @ more) b = Some (fst b')" "best_ok t b'" "snd b \<le> snd b'"
      "\<forall>x\<in>set (q @ more). \<forall>c e. (coherent_child t)\<^sup>+\<^sup>+ x c \<and> bt_get t c = Some e \<longrightarrow> te_Round e \<le> snd b'"
      using less.hyps[OF _ _ d(2)] by blast
    have run: "descendant_loop t queue best = Some (fst b')"
      using Cons cs(1) d(1) b'(1) by (subst descendant_loop.simps) simp
    have "te_Round e \<le> snd b'" if "(coherent_child t)\<^sup>+\<^sup>+ i c" "bt_get t c = Some e" for c e
    proof (rule converse_tranclpE[OF that(1)])
      assume "coherent_child t i c"
      then have "c \<in> set more" unfolding d(4) by (auto simp: children_of_def coherent_child_def)
      then show ?thesis using d(5) that(2) b'(3) order_trans by blast
    next
      fix z assume step: "coherent_child t i z" "(coherent_child t)\<^sup>+\<^sup>+ z c"
      then have "z \<in> set more" unfolding d(4) by (auto simp: children_of_def coherent_child_def)
      then show ?thesis using b'(4) step(2) that(2) by auto
    qed
    with run b' d(3) Cons show ?thesis by (intro exI[of _ b']) (auto intro: order_trans)
  qed
qed

lemma best_ok_coherent: "best_ok t b \<Longrightarrow> IsCoherent t (fst b)"
  by (auto simp: best_ok_def IsCoherent_def)

definition round_of :: "BlockTree \<Rightarrow> block_id \<Rightarrow> round" where
  "round_of t i = (if i = bt_rootId t then ri_Round (bt_root t) else case bt_get t i of Some e \<Rightarrow> te_Round e | None \<Rightarrow> 0)"

lemma best_ok_round: "best_ok t b \<Longrightarrow> bt_get t (bt_rootId t) = None \<Longrightarrow> round_of t (fst b) = snd b"
  by (auto simp: best_ok_def round_of_def)

lemma highestRoundCoherentDescendant_returns:
  assumes "forest_inv cr t" and "kids_inv t" and "IsCoherent t i"
  shows "\<exists>d. (highestRoundCoherentDescendant t i :: ('e, _) go) = Ok d \<and> IsCoherent t d
    \<and> (\<forall>c. (coherent_child t)\<^sup>*\<^sup>* i c \<longrightarrow> round_of t c \<le> round_of t d)"
proof -
  have none: "bt_get t (bt_rootId t) = None" using assms(1) by (simp add: forest_inv_def)
  have start: "(if i = bt_rootId t then Some (ri_Round (bt_root t)) else map_option te_Round (bt_get t i)) = Some (round_of t i)"
    "best_ok t (i, round_of t i)" "i = bt_rootId t \<or> bt_get t i \<noteq> None"
    using assms(3) by (auto simp: IsCoherent_def round_of_def best_ok_def split: option.splits if_splits)
  obtain b where b: "descendant_loop t [i] (i, round_of t i) = Some (fst b)" "best_ok t b" "round_of t i \<le> snd b"
      "\<forall>c e. (coherent_child t)\<^sup>+\<^sup>+ i c \<and> bt_get t c = Some e \<longrightarrow> te_Round e \<le> snd b"
    using descendant_loop_returns[OF assms(1,2), of "[i]" "(i, round_of t i)"] start(2,3) by auto
  have "round_of t c \<le> round_of t (fst b)" if "(coherent_child t)\<^sup>*\<^sup>* i c" for c
  proof (cases "c = i")
    case False
    then have tr: "(coherent_child t)\<^sup>+\<^sup>+ i c" using rtranclpD[OF that] by simp
    then obtain e where e: "bt_get t c = Some e" by (cases rule: tranclp.cases) (auto simp: coherent_child_def)
    then have "c \<noteq> bt_rootId t" using none by auto
    then show ?thesis using b(4) tr e best_ok_round[OF b(2) none] by (simp add: round_of_def)
  qed (use b(3) best_ok_round[OF b(2) none] in simp)
  moreover have "(highestRoundCoherentDescendant t i :: ('e, _) go) = Ok (fst b)"
    using start(1) b(1) unfolding highestRoundCoherentDescendant_def by (simp add: go_of_def)
  ultimately show ?thesis using best_ok_coherent[OF b(2)] by blast
qed

lemma GetCanonicalCoherentTip_returns:
  assumes "tree_inv cr t"
  shows "\<exists>tip. (GetCanonicalCoherentTip cr t qc :: ('e, _) go) = Ok tip \<and> IsCoherent t tip
    \<and> (bt_get t (qc_GetBlockId qc) \<noteq> None \<and> IsCoherent t (qc_GetBlockId qc) \<longrightarrow>
        (\<forall>c. (coherent_child t)\<^sup>*\<^sup>* (qc_GetBlockId qc) c \<longrightarrow> round_of t c \<le> round_of t tip))"
proof -
  have inv: "forest_inv cr t" "kids_inv t" "coherent_inv t" using assms by (simp_all add: tree_inv_def)
  let ?id = "qc_GetBlockId qc"
  show ?thesis
  proof (cases rule: GetBlocksOnPathFromRoot_returns[OF inv(1), of ?id, where ?'e = 'e])
    case 1
    then have "bt_get t ?id = None" "IsCoherent t (bt_rootId t)" using inv(1) by (auto simp: forest_inv_def IsCoherent_def)
    with 1 show ?thesis by (simp add: GetCanonicalCoherentTip_def)
  next
    case 3
    have "\<not> (bt_get t ?id \<noteq> None \<and> IsCoherent t ?id)"
      using 3 coherent_rootpath[OF inv(1,3), of ?id] by (auto simp: IsCoherent_def split: option.splits)
    moreover have "IsCoherent t (bt_rootId t)" by (simp add: IsCoherent_def)
    ultimately show ?thesis
      using 3 highestRoundCoherentDescendant_returns[OF inv(1,2), of "bt_rootId t", where ?'e = 'e]
      by (auto simp: GetCanonicalCoherentTip_def)
  next
    case (2 es)
    let ?find = "find (\<lambda>b. IsCoherent t (block_GetId cr b)) (rev (map te_ValidatedBlock es))"
    have last: "es \<noteq> []" "bt_get t ?id = Some (last es)" using rootpath_last[OF 2(2)] by auto
    have id: "block_GetId cr (te_ValidatedBlock (last es)) = ?id" by (rule forest_id[OF inv(1) last(2)])
    have rev: "rev (map te_ValidatedBlock es) = te_ValidatedBlock (last es) # rev (map te_ValidatedBlock (butlast es))"
      using last(1) by (cases es rule: rev_cases) simp_all
    show ?thesis
    proof (cases "IsCoherent t ?id")
      case True
      then have "?find = Some (te_ValidatedBlock (last es))" unfolding rev using id by simp
      then show ?thesis using 2(3) id highestRoundCoherentDescendant_returns[OF inv(1,2) True, where ?'e = 'e]
        by (auto simp: GetCanonicalCoherentTip_def Let_def)
    next
      case False
      show ?thesis
      proof (cases ?find)
        case None with 2(3) False show ?thesis by (auto simp: GetCanonicalCoherentTip_def IsCoherent_def)
      next
        case (Some b)
        then have "IsCoherent t (block_GetId cr b)" by (auto simp: find_Some_iff)
        with Some 2(3) False show ?thesis by (auto simp: GetCanonicalCoherentTip_def Let_def)
      qed
    qed
  qed
qed

section \<open>Committable certificates\<close>

definition committable :: "crypto \<Rightarrow> BlockTree \<Rightarrow> QuorumCertificate \<Rightarrow> block_id \<Rightarrow> bool" where
  "committable cr t qc c \<longleftrightarrow> c \<noteq> bt_rootId t \<and> IsCoherent t c
     \<and> (\<exists>p. bt_get t (qc_GetBlockId qc) = Some p \<and> te_Parent p = c \<and> v_Round (qc_Info qc) = te_QcRound p + 1)"

lemma high_qc_loop_returns:
  assumes "forest_inv cr t" and "kids_inv t" and "\<forall>h. high = Some h \<longrightarrow> (\<exists>c. committable cr t h c)"
  shows "\<exists>r. (high_qc_loop cr t queue high :: ('e, _) go option) = Some (Ok r) \<and> (\<forall>h. r = Some h \<longrightarrow> (\<exists>c. committable cr t h c))"
  using assms(3)
proof (induction "queue_weight t queue" arbitrary: queue high rule: less_induct)
  case less
  show ?case
  proof (cases queue)
    case Nil with less.prems show ?thesis by (subst high_qc_loop.simps) simp
  next
    case (Cons i q)
    show ?thesis
    proof (cases "bt_get t i")
      case None
      have "queue_weight t q < queue_weight t queue" unfolding Cons by (rule queue_pop)
      from less.hyps[OF this less.prems] None Cons show ?thesis by (subst high_qc_loop.simps) simp
    next
      case (Some e)
      let ?qc = "bh_QC (fb_Header (te_ValidatedBlock e))"
      have kids: "set (te_ChildrenBlocks e) \<subseteq> children_of t i" using assms(2) Some by (auto simp: kids_inv_def)
      have w: "queue_weight t (q @ te_ChildrenBlocks e) < queue_weight t queue"
        unfolding Cons by (rule queue_falls[OF assms(1) kids])
      note IH = less.hyps[OF w]
      have "\<exists>high'. (high_qc_loop cr t queue high :: ('e, _) go option) = high_qc_loop cr t (q @ te_ChildrenBlocks e) high'
          \<and> (\<forall>h. high' = Some h \<longrightarrow> (\<exists>c. committable cr t h c))"
      proof (cases "(case high of None \<Rightarrow> False | Some h \<Rightarrow> qc_GetRound h \<ge> qc_GetRound ?qc) \<or> bt_get t (te_Parent e) = None")
        case True
        with less.prems Some Cons show ?thesis
          by (intro exI[of _ high] conjI) (subst high_qc_loop.simps, auto simp: Let_def)
      next
        case False
        then obtain p where p: "bt_get t (te_Parent e) = Some p" by auto
        let ?high = "if v_Round (qc_Info ?qc) = te_QcRound p + 1 \<and> te_Parent p \<noteq> bt_rootId t \<and> IsCoherent t (te_Parent p) then Some ?qc else high"
        have "(high_qc_loop cr t queue high :: ('e, _) go option) = high_qc_loop cr t (q @ te_ChildrenBlocks e) ?high"
          using False p Some Cons forest_id[OF assms(1) p]
          by (subst high_qc_loop.simps) (auto simp: Let_def qc_GetCommittableId_def qc_getCommittableId_def qc_GetRound_def)
        moreover have "\<forall>h. ?high = Some h \<longrightarrow> (\<exists>c. committable cr t h c)"
          using less.prems p by (auto simp: committable_def split: if_splits)
        ultimately show ?thesis by blast
      qed
      then show ?thesis using IH by metis
    qed
  qed
qed

lemma GetHighCommittableQc_returns:
  assumes "tree_inv cr t"
  shows "\<exists>r. (GetHighCommittableQc cr t :: ('e, _) go) = Ok r \<and> (\<forall>h. r = Some h \<longrightarrow> (\<exists>c. committable cr t h c))"
  using high_qc_loop_returns[of cr t None "bt_rootKids t", where ?'e = 'e] assms
  by (auto simp: GetHighCommittableQc_def go_of_def tree_inv_def)

section \<open>A pool of blocks as the specification\<close>

text \<open>
  What a user of the tree sees: the root and the known blocks. Adding a newer block extends the pool,
  committing a block makes it the root and keeps the blocks certified no earlier, and a coherency
  update changes nothing.
\<close>

record block_pool =
  bp_root :: RootInfo
  bp_blocks :: "block_id \<rightharpoonup> ConsensusFullBlock"

definition pool_of :: "BlockTree \<Rightarrow> block_pool" where
  "pool_of t = \<lparr>bp_root = bt_root t, bp_blocks = GetBlock t\<rparr>"

definition pool_add :: "crypto \<Rightarrow> ConsensusFullBlock \<Rightarrow> block_pool \<Rightarrow> block_pool" where
  "pool_add cr b P = (if bp_blocks P (block_GetId cr b) = None \<and> ri_Round (bp_root P) < block_Round b
     then P\<lparr>bp_blocks := (bp_blocks P)(block_GetId cr b \<mapsto> b)\<rparr> else P)"

definition block_root :: "crypto \<Rightarrow> ConsensusFullBlock \<Rightarrow> RootInfo" where
  "block_root cr b = \<lparr>ri_Round = block_Round b, ri_SeqNum = block_SeqNum b, ri_Epoch = bh_Epoch (fb_Header b),
     ri_BlockId = block_GetId cr b, ri_TimestampNs = bh_TimestampNs (fb_Header b)\<rparr>"

definition pool_commit :: "crypto \<Rightarrow> ConsensusFullBlock \<Rightarrow> block_pool \<Rightarrow> block_pool" where
  "pool_commit cr b P = \<lparr>bp_root = block_root cr b,
     bp_blocks = (\<lambda>i. case bp_blocks P i of Some x \<Rightarrow> if block_QcRound x < block_Round b then None else Some x | None \<Rightarrow> None)\<rparr>"

inductive pool_step :: "crypto \<Rightarrow> block_pool \<Rightarrow> block_pool \<Rightarrow> bool" for cr where
  add: "pool_step cr P (pool_add cr b P)"
| commit: "bp_blocks P i = Some b \<Longrightarrow> pool_step cr P (pool_commit cr b P)"

inductive tree_step :: "crypto \<Rightarrow> BlockTree \<Rightarrow> BlockTree \<Rightarrow> bool" for cr where
  add: "(IsValidToInsert cr t (fb_Header b) \<Longrightarrow> linkable cr b t) \<Longrightarrow> tree_step cr t (Add cr b t)"
| update: "policy_total cr policy sr \<Longrightarrow> (TryUpdateCoherency cr policy sr i t :: (unit, _) go) = Ok (t', bs) \<Longrightarrow> tree_step cr t t'"
| prune: "conflict_free t i \<Longrightarrow> (Prune cr i t :: (unit, _) go) = Ok (t', bs) \<Longrightarrow> tree_step cr t t'"

lemma GetBlock_Add:
  assumes "IsValidToInsert cr t (fb_Header b)" and "linkable cr b t"
  shows "GetBlock (Add cr b t) = (GetBlock t)(block_GetId cr b \<mapsto> b)"
proof
  fix i
  have ne: "qc_GetBlockId (bh_QC (fb_Header b)) \<noteq> block_GetId cr b" using assms(2) by (simp add: linkable_def)
  show "GetBlock (Add cr b t) i = ((GetBlock t)(block_GetId cr b \<mapsto> b)) i"
    unfolding GetBlock_def Add_insert(1)[OF assms(1)] bt_get_insert[OF ne] by (simp add: option.map_comp comp_def)
qed

lemma GetBlock_same: "same_blocks t t' \<Longrightarrow> GetBlock t' = GetBlock t"
proof
  fix i assume "same_blocks t t'"
  then show "GetBlock t' i = GetBlock t i"
    unfolding same_blocks_def GetBlock_def
    using arg_cong[of _ _ "map_option te_ValidatedBlock"] by (fastforce simp: option.map_comp comp_def)
qed

lemma pool_pruned:
  assumes "pruned cr t i r t'" and "forest_inv cr t"
  shows "pool_of t' = pool_commit cr (te_ValidatedBlock r) (pool_of t)"
proof -
  have "GetBlock t' j = (case GetBlock t j of Some x \<Rightarrow> if block_QcRound x < te_Round r then None else Some x | None \<Rightarrow> None)" for j
    using assms(1) by (auto simp: pruned_def GetBlock_def live_def split: option.splits)
  moreover have "bt_root t' = block_root cr (te_ValidatedBlock r)"
    using assms(1) by (simp add: pruned_def entry_root_def block_root_def)
  ultimately show ?thesis by (simp add: pool_of_def pool_commit_def fun_eq_iff)
qed

lemma Prune_pruned:
  assumes "tree_inv cr t" and "(Prune cr i t :: ('e, _) go) = Ok (t', bs)"
  obtains (same) "i = bt_rootId t" and "t' = t" and "bs = []"
  | (pruned) r es where "pruned cr t i r t'" and "rootpath t i es" and "\<forall>x\<in>set es. te_IsCoherent x" and "bs = map te_ValidatedBlock es"
proof (cases "i = bt_rootId t")
  case True
  then have "t' = t" "bs = []" using assms(2) by (simp_all add: Prune_def IsCoherent_def)
  then show ?thesis using True by (intro same)
next
  case False
  have inv: "forest_inv cr t" "coherent_inv t" "payload_inv cr t" using assms(1) by (simp_all add: tree_inv_def)
  have "IsCoherent t i" by (rule ccontr) (use assms(2) in \<open>simp add: Prune_def\<close>)
  then obtain r where r: "bt_get t i = Some r" "te_IsCoherent r" using False by (auto simp: IsCoherent_def split: option.splits)
  show ?thesis
  proof (rule Prune_path[OF inv r, where ?'e = 'e])
    fix t1 es assume a: "(Prune cr i t :: ('e, _) go) = Ok (t1, map te_ValidatedBlock es)" "rootpath t i es"
      "\<forall>x\<in>set es. te_IsCoherent x" "pruned cr t i r t1"
    then have "t1 = t'" "bs = map te_ValidatedBlock es" using assms(2) by simp_all
    with a show ?thesis by (intro pruned[of r es]) simp_all
  qed
qed

lemma tree_step_simulates:
  assumes "tree_step cr t t'" and "tree_inv cr t"
  shows "tree_inv cr t' \<and> (pool_of t' = pool_of t \<or> pool_step cr (pool_of t) (pool_of t'))"
  using assms(1)
proof cases
  case (add b)
  have "pool_of (Add cr b t) = pool_add cr b (pool_of t)"
  proof (cases "IsValidToInsert cr t (fb_Header b)")
    case True
    then show ?thesis using GetBlock_Add[OF True] add(2) Add_insert(2)[OF True]
      by (auto simp: pool_of_def pool_add_def IsValidToInsert_def GetBlock_def block_GetId_def)
  next
    case False
    then show ?thesis by (auto simp: Add_def pool_of_def pool_add_def IsValidToInsert_def GetBlock_def block_GetId_def)
  qed
  then show ?thesis using add tree_inv_Add[OF assms(2)] pool_step.add by metis
next
  case (update policy sr i bs)
  from TryUpdateCoherency_updates[OF update(1) assms(2), of i, where ?'e = unit] update(2)
  have u: "updated cr t t' bs" by simp
  then show ?thesis using GetBlock_same[of t t'] by (simp add: updated_def pool_of_def same_blocks_def)
next
  case (prune i bs)
  have inv: "forest_inv cr t" using assms(2) by (simp add: tree_inv_def)
  show ?thesis
  proof (rule Prune_pruned[OF assms(2) prune(2)])
    fix r es assume pr: "pruned cr t i r t'"
    then have "bp_blocks (pool_of t) i = Some (te_ValidatedBlock r)" by (simp add: pool_of_def GetBlock_def pruned_def)
    then show ?thesis using tree_inv_pruned[OF pr assms(2) prune(1)] pool_pruned[OF pr inv] pool_step.commit by metis
  qed (use assms(2) in simp)
qed

section \<open>Properties\<close>

definition genesis_root :: RootInfo where
  "genesis_root = \<lparr>ri_Round = GENESIS_ROUND, ri_SeqNum = GENESIS_SEQ_NUM, ri_Epoch = GENESIS_EPOCH,
     ri_BlockId = GENESIS_BLOCK_ID, ri_TimestampNs = U128_zero\<rparr>"

definition example_body :: ConsensusBlockBody where
  "example_body = MockBody_EncodeRLP [] [1]"

definition example_chain_block :: "QuorumCertificate \<Rightarrow> round \<Rightarrow> seqnum \<Rightarrow> ConsensusFullBlock" where
  "example_chain_block qc r s = \<lparr>fb_Header = example_header\<lparr>bh_BlockRound := r, bh_QC := qc, bh_SeqNum := s,
     bh_TimestampNs := U128FromUint64 s, bh_DelayedExecutionResults := [],
     bh_BlockBodyId := body_GetId example_crypto example_body\<rparr>, fb_Body = example_body\<rparr>"

definition example_b1 :: ConsensusFullBlock where
  "example_b1 = example_chain_block GenesisQC 1 1"

definition example_b2 :: ConsensusFullBlock where
  "example_b2 = example_chain_block (GenesisQC\<lparr>qc_Info := \<lparr>v_ID = block_GetId example_crypto example_b1, v_Round = 1, v_Epoch = 1\<rparr>\<rparr>) 2 2"

abbreviation example_id1 :: block_id where
  "example_id1 \<equiv> block_GetId example_crypto example_b1"

abbreviation example_id2 :: block_id where
  "example_id2 \<equiv> block_GetId example_crypto example_b2"

definition example_state_read :: ExecutionStateRead where
  "example_state_read = \<lparr>sr_GetExecutionResult = (\<lambda>_ _ _. Err ErrNotAvailableYet), sr_EarliestFinalizedBlock = None,
     sr_LatestFinalizedBlock = None, sr_ReadValsetAtBlock = (\<lambda>_ _. [])\<rparr>"

definition example_added :: BlockTree where
  "example_added = Add example_crypto example_b2 (Add example_crypto example_b1 (blocktree_New genesis_root))"

definition example_tree :: BlockTree where
  "example_tree = set_coherent example_id2 (set_coherent example_id1 example_added)"

lemma example_ids: "example_id1 \<noteq> example_id2" "example_id1 \<noteq> GENESIS_BLOCK_ID" "example_id2 \<noteq> GENESIS_BLOCK_ID"
  by code_simp+

lemma example_blocks:
  "block_Round example_b1 = 1" "block_QcRound example_b1 = 0" "qc_GetBlockId (bh_QC (fb_Header example_b1)) = GENESIS_BLOCK_ID"
  "block_Round example_b2 = 2" "block_QcRound example_b2 = 1" "qc_GetBlockId (bh_QC (fb_Header example_b2)) = example_id1"
  "block_SeqNum example_b1 = 1" "block_SeqNum example_b2 = 2"
  "body_GetId example_crypto (fb_Body example_b1) = bh_BlockBodyId (fb_Header example_b1)"
  "body_GetId example_crypto (fb_Body example_b2) = bh_BlockBodyId (fb_Header example_b2)"
  by (simp_all add: example_b1_def example_b2_def example_chain_block_def qc_GetRound_def qc_GetBlockId_def GenesisQC_def GENESIS_ROUND_def)

lemma genesis_root_simps [simp]:
  "ri_Round genesis_root = 0" "ri_BlockId genesis_root = GENESIS_BLOCK_ID" "ri_SeqNum genesis_root = 0"
  by (simp_all add: genesis_root_def GENESIS_ROUND_def GENESIS_SEQ_NUM_def)

lemma set_coherent_root: "bt_root (set_coherent i t) = bt_root t"
  using same_blocks_set_coherent[of t i] by (simp add: same_blocks_def)

lemma example_added_inv:
  "tree_inv example_crypto example_added"
  "bt_get example_added example_id1 = Some \<lparr>te_ValidatedBlock = example_b1, te_IsCoherent = False, te_ChildrenBlocks = [example_id2]\<rparr>"
  "bt_get example_added example_id2 = Some \<lparr>te_ValidatedBlock = example_b2, te_IsCoherent = False, te_ChildrenBlocks = []\<rparr>"
  "i \<noteq> example_id1 \<Longrightarrow> i \<noteq> example_id2 \<Longrightarrow> bt_get example_added i = None"
  "bt_root example_added = genesis_root"
proof -
  let ?t0 = "blocktree_New genesis_root" and ?t1 = "Add example_crypto example_b1 (blocktree_New genesis_root)"
  have v1: "IsValidToInsert example_crypto ?t0 (fb_Header example_b1)"
    by (simp add: IsValidToInsert_def blocktree_New_def example_blocks)
  have l1: "linkable example_crypto example_b1 ?t0"
    using example_ids by (simp add: linkable_def blocktree_New_def example_blocks)
  have t1: "bt_get ?t1 i = (if i = example_id1 then Some \<lparr>te_ValidatedBlock = example_b1, te_IsCoherent = False, te_ChildrenBlocks = []\<rparr> else None)" for i
    using example_ids unfolding Add_insert(1)[OF v1]
    by (subst bt_get_insert) (auto simp: example_blocks blocktree_New_def new_entry_def)
  have r1: "bt_root ?t1 = genesis_root" using Add_insert(2)[OF v1] by (simp add: blocktree_New_def)
  have v2: "IsValidToInsert example_crypto ?t1 (fb_Header example_b2)"
    using example_ids by (simp add: IsValidToInsert_def t1 r1 example_blocks flip: block_GetId_def)
  have l2: "linkable example_crypto example_b2 ?t1"
    using example_ids by (auto simp: linkable_def t1 r1 example_blocks)
  have i1: "tree_inv example_crypto ?t1" using tree_inv_Add[OF tree_inv_New] l1 by blast
  then show "tree_inv example_crypto example_added" unfolding example_added_def using tree_inv_Add l2 by blast
  have key: "distinct (akeys (bt_tree ?t1))" using i1 keyed_distinct by (auto simp: tree_inv_def forest_inv_def)
  have none: "filter (\<lambda>(i, e). te_Parent e = example_id2) (bt_tree ?t1) = []"
    using map_of_in_set[OF key] t1 example_ids by (auto simp: filter_empty_conv example_blocks split: if_splits)
  have get: "bt_get example_added i = (if i = example_id2 then Some \<lparr>te_ValidatedBlock = example_b2, te_IsCoherent = False, te_ChildrenBlocks = []\<rparr>
      else if i = example_id1 then Some \<lparr>te_ValidatedBlock = example_b1, te_IsCoherent = False, te_ChildrenBlocks = [example_id2]\<rparr> else None)" for i
    using example_ids none unfolding example_added_def Add_insert(1)[OF v2]
    by (subst bt_get_insert) (auto simp: example_blocks t1 new_entry_def)
  show "bt_get example_added example_id1 = Some \<lparr>te_ValidatedBlock = example_b1, te_IsCoherent = False, te_ChildrenBlocks = [example_id2]\<rparr>"
    "bt_get example_added example_id2 = Some \<lparr>te_ValidatedBlock = example_b2, te_IsCoherent = False, te_ChildrenBlocks = []\<rparr>"
    "i \<noteq> example_id1 \<Longrightarrow> i \<noteq> example_id2 \<Longrightarrow> bt_get example_added i = None"
    using get example_ids by auto
  show "bt_root example_added = genesis_root" unfolding example_added_def Add_insert(2)[OF v2] r1 ..
qed

lemma example_tree_get:
  "bt_get example_tree example_id1 = Some \<lparr>te_ValidatedBlock = example_b1, te_IsCoherent = True, te_ChildrenBlocks = [example_id2]\<rparr>"
  "bt_get example_tree example_id2 = Some \<lparr>te_ValidatedBlock = example_b2, te_IsCoherent = True, te_ChildrenBlocks = []\<rparr>"
  "bt_get example_tree i \<noteq> None \<Longrightarrow> i = example_id1 \<or> i = example_id2"
  "bt_root example_tree = genesis_root"
  using example_added_inv(2-5) example_ids
  by (auto simp: example_tree_def set_coherent_get set_coherent_root split: if_splits)

lemma example_tree_inv: "tree_inv example_crypto example_tree"
proof -
  let ?t1 = "set_coherent example_id1 example_added"
  have r1: "bt_root ?t1 = genesis_root" by (simp add: set_coherent_root example_added_inv(5))
  have 1: "tree_inv example_crypto ?t1"
    by (rule tree_inv_set_coherent[OF example_added_inv(1,2)])
      (simp_all add: example_blocks example_added_inv(5) IsCoherent_def parent_SeqNum_def GetSeqNumOfQc_def)
  have g: "bt_get ?t1 example_id2 = Some \<lparr>te_ValidatedBlock = example_b2, te_IsCoherent = False, te_ChildrenBlocks = []\<rparr>"
    using example_added_inv(3) example_ids by (simp add: set_coherent_get)
  show ?thesis unfolding example_tree_def
    by (rule tree_inv_set_coherent[OF 1 g])
      (auto simp: example_blocks example_added_inv(2) r1 set_coherent_get IsCoherent_def parent_SeqNum_def GetSeqNumOfQc_def
        example_ids split: if_splits)
qed

lemma example_conflict_free: "conflict_free example_tree example_id2"
proof -
  have "te_QcRound e < 2" if "bt_get example_tree j = Some e" for j e
    using example_tree_get(1,2) example_tree_get(3)[of j] that by (auto simp: example_blocks)
  then show ?thesis using example_tree_get(2) by (fastforce simp: conflict_free_def example_blocks)
qed






lemma Passthru_total: "policy_total cr PassthruBlockPolicy sr"
  by (auto simp: policy_total_def Passthru_CheckCoherency_def check_extends_def Let_def)






end
