(* ===== verification/Clock.thy ===== *)
theory Clock
  imports Cstypes
begin

text \<open>
  \<open>consensusstate/timestamp.go\<close>: the local clock and the validation of proposal timestamps, and
  \<open>consensusstate/vote_delay.go\<close>: the sliding window of vote delays behind the latency gauges.
\<close>

section \<open>Proposal timestamps\<close>

record BlockTimestamp =
  ts_localTimeNs :: u128
  ts_maxDeltaNs :: u128
  ts_latencyEstimateNs :: u128

definition NewBlockTimestamp :: "u128 \<Rightarrow> u128 \<Rightarrow> ('e, BlockTimestamp) go" where
  "NewBlockTimestamp maxDeltaNs latencyEstimateNs =
     (if U128_IsZero latencyEstimateNs then Panic ''consensusstate: latency estimate must be > 0''
      else Ok \<lparr>ts_localTimeNs = U128_zero, ts_maxDeltaNs = maxDeltaNs, ts_latencyEstimateNs = latencyEstimateNs\<rparr>)"

definition UpdateTime :: "u128 \<Rightarrow> BlockTimestamp \<Rightarrow> BlockTimestamp" where
  "UpdateTime t b = b\<lparr>ts_localTimeNs := t\<rparr>"

definition GetValidBlockTimestamp :: "BlockTimestamp \<Rightarrow> u128 \<Rightarrow> u128" where
  "GetValidBlockTimestamp b prevBlockTs =
     (if U128_Cmp (ts_localTimeNs b) prevBlockTs \<le> 0 then U128_Inc prevBlockTs else ts_localTimeNs b)"

definition validBounds :: "BlockTimestamp \<Rightarrow> u128 \<Rightarrow> u128 \<Rightarrow> bool" where
  "validBounds b timestamp voteDelayNs =
     (let maxDelta = U128_Add (ts_maxDeltaNs b) voteDelayNs;
          lower = U128_SaturatingSub (ts_localTimeNs b) maxDelta;
          upper = U128_Add (ts_localTimeNs b) maxDelta in
      U128_Cmp lower timestamp \<le> 0 \<and> U128_Cmp timestamp upper \<le> 0)"

definition ValidBlockTimestamp :: "BlockTimestamp \<Rightarrow> u128 \<Rightarrow> u128 \<Rightarrow> u128 \<Rightarrow> bool \<Rightarrow> TimestampAdjustment option" where
  "ValidBlockTimestamp b prevBlockTs currBlockTs voteDelayNs isReproposal =
     (if isReproposal then
        (if U128_Cmp currBlockTs prevBlockTs > 0 \<and> U128_Cmp currBlockTs (ts_localTimeNs b) < 0
         then Some \<lparr>ta_Delta = U128_zero, ta_Direction = TimestampAdjustForward\<rparr> else None)
      else case U128_CheckedSub currBlockTs prevBlockTs of
        None \<Rightarrow> None
      | Some delta \<Rightarrow>
          if U128_IsZero delta then None
          else if \<not> validBounds b currBlockTs voteDelayNs then None
          else Some \<lparr>ta_Delta = U128_SaturatingSub (U128_AbsDiff (ts_localTimeNs b) currBlockTs) (ts_latencyEstimateNs b),
                     ta_Direction = (if U128_Cmp currBlockTs (ts_localTimeNs b) > 0 then TimestampAdjustForward
                                     else TimestampAdjustBackward)\<rparr>)"

section \<open>Vote delays\<close>

definition voteDelayWindowMs :: u64 where
  "voteDelayWindowMs = 5 * 60 * 1000"

definition nsToMs :: "u128 \<Rightarrow> u64" where
  "nsToMs timestampNs = (if U128_Hi timestampNs > 0 then - 1 else U128_Lo timestampNs div 1000000)"

record VoteDelayTimerStart =
  vd_Round :: round
  vd_StartedAtMs :: u64

record timedVoteDelaySample =
  ds_recordedAtMs :: u64
  ds_readyAfterTimerStartMs :: u64

type_synonym voteDelayMetricsWindow = "timedVoteDelaySample list"

text \<open>The three gauges of the vote delay.\<close>

record vote_delay_gauges =
  vg_P50Ms :: u64
  vg_P90Ms :: u64
  vg_P99Ms :: u64

definition minU64 :: "u64 \<Rightarrow> u64 \<Rightarrow> u64" where
  "minU64 a b = (if a < b then a else b)"

fun window_drop :: "u64 \<Rightarrow> voteDelayMetricsWindow \<Rightarrow> bool \<Rightarrow> voteDelayMetricsWindow \<times> bool" where
  "window_drop cutoff [] pruned = ([], pruned)"
| "window_drop cutoff (s # samples) pruned =
     (if ds_recordedAtMs s < cutoff then window_drop cutoff samples True else (s # samples, pruned))"

definition window_prune :: "u64 \<Rightarrow> voteDelayMetricsWindow \<Rightarrow> voteDelayMetricsWindow \<times> bool" where
  "window_prune nowMs w = window_drop (nowMs - minU64 nowMs voteDelayWindowMs) w False"

definition percentile :: "u64 list \<Rightarrow> u64 \<Rightarrow> ('e, u64) go" where
  "percentile xs p =
     (let rank = (of_nat (length xs) * p + 99) div 100;
          rank = (if rank < 1 then 1 else rank) in
      if unat (rank - 1) < length xs then Ok (xs ! unat (rank - 1)) else Panic ''index out of range'')"

definition updateMetrics :: "voteDelayMetricsWindow \<Rightarrow> ('e, vote_delay_gauges) go" where
  "updateMetrics w =
     (if w = [] then Ok \<lparr>vg_P50Ms = 0, vg_P90Ms = 0, vg_P99Ms = 0\<rparr> else
      let values = sort (map ds_readyAfterTimerStartMs w) in
      go_bind (percentile values 50) (\<lambda>p50.
      go_bind (percentile values 90) (\<lambda>p90.
      go_bind (percentile values 99) (\<lambda>p99.
        Ok \<lparr>vg_P50Ms = p50, vg_P90Ms = p90, vg_P99Ms = p99\<rparr>))))"

definition recordReadyAfterTimerStart :: "u64 \<Rightarrow> u64 \<Rightarrow> voteDelayMetricsWindow
    \<Rightarrow> ('e, voteDelayMetricsWindow \<times> vote_delay_gauges) go" where
  "recordReadyAfterTimerStart nowMs readyMs w =
     (let (w, _) = window_prune nowMs w;
          w = w @ [\<lparr>ds_recordedAtMs = nowMs, ds_readyAfterTimerStartMs = readyMs\<rparr>] in
      go_bind (updateMetrics w) (\<lambda>g. Ok (w, g)))"

definition window_refresh :: "u64 \<Rightarrow> voteDelayMetricsWindow \<times> vote_delay_gauges
    \<Rightarrow> ('e, voteDelayMetricsWindow \<times> vote_delay_gauges) go" where
  "window_refresh nowMs = (\<lambda>(w, g).
     let (w, pruned) = window_prune nowMs w in
     if pruned then go_bind (updateMetrics w) (\<lambda>g. Ok (w, g)) else Ok (w, g))"

section \<open>Timestamp bounds\<close>

definition wf_clock :: "BlockTimestamp \<Rightarrow> bool" where
  "wf_clock b \<longleftrightarrow> wf_u128 (ts_localTimeNs b) \<and> wf_u128 (ts_maxDeltaNs b) \<and> wf_u128 (ts_latencyEstimateNs b)"

text \<open>The window a fresh proposal must fall in; the sums do not wrap.\<close>

definition clock_fits :: "BlockTimestamp \<Rightarrow> u128 \<Rightarrow> bool" where
  "clock_fits b d \<longleftrightarrow> u128_val (ts_localTimeNs b) + u128_val (ts_maxDeltaNs b) + u128_val d < 2 ^ 128"

lemma wf_U128_Add [simp]: "wf_u128 (U128_Add u x)"
  by (simp add: U128_Add_def Let_def)

lemma validBounds_val:
  assumes "wf_clock b" "wf_u128 t" "wf_u128 d" "clock_fits b d"
  shows "validBounds b t d \<longleftrightarrow>
    \<bar>int (u128_val (ts_localTimeNs b)) - int (u128_val t)\<bar> \<le> int (u128_val (ts_maxDeltaNs b)) + int (u128_val d)"
proof -
  let ?m = "U128_Add (ts_maxDeltaNs b) d"
  have wf: "wf_u128 (ts_localTimeNs b)" "wf_u128 (ts_maxDeltaNs b)" using assms(1) by (simp_all add: wf_clock_def)
  have m: "u128_val ?m = u128_val (ts_maxDeltaNs b) + u128_val d"
    using u128_val_Add[OF wf(2) assms(3)] assms(4) by (simp add: clock_fits_def)
  have u: "u128_val (U128_Add (ts_localTimeNs b) ?m) = u128_val (ts_localTimeNs b) + u128_val (ts_maxDeltaNs b) + u128_val d"
    using u128_val_Add[OF wf(1), of ?m] assms(4) m by (simp add: clock_fits_def add.assoc)
  have l: "u128_val (U128_SaturatingSub (ts_localTimeNs b) ?m) = u128_val (ts_localTimeNs b) - u128_val ?m"
    "wf_u128 (U128_SaturatingSub (ts_localTimeNs b) ?m)"
    using U128_SaturatingSub_val[OF wf(1), of ?m] by simp_all
  show ?thesis
    using l u m assms(2) by (simp add: validBounds_def Let_def U128_Cmp_val) arith
qed

lemma ValidBlockTimestamp_iff:
  assumes "wf_clock b" "wf_u128 prev" "wf_u128 cur" "wf_u128 d" "clock_fits b d"
  shows "ValidBlockTimestamp b prev cur d rep \<noteq> None \<longleftrightarrow> u128_val prev < u128_val cur \<and>
    (if rep then u128_val cur < u128_val (ts_localTimeNs b)
     else \<bar>int (u128_val (ts_localTimeNs b)) - int (u128_val cur)\<bar> \<le> int (u128_val (ts_maxDeltaNs b)) + int (u128_val d))"
proof (cases rep)
  case True
  then show ?thesis using assms by (auto simp: ValidBlockTimestamp_def U128_Cmp_val wf_clock_def)
next
  case False
  show ?thesis
  proof (cases "U128_CheckedSub cur prev")
    case None
    then show ?thesis using False U128_CheckedSub_val(1)[OF assms(3,2)] by (simp add: ValidBlockTimestamp_def)
  next
    case (Some delta)
    note v = U128_CheckedSub_val[OF assms(3,2)]
    have d: "wf_u128 delta" "u128_val delta = u128_val cur - u128_val prev" using v(2)[OF Some] by simp_all
    have "U128_IsZero delta \<longleftrightarrow> \<not> u128_val prev < u128_val cur"
      using d v(1) Some by (auto simp: U128_IsZero_val)
    then show ?thesis
      using False Some validBounds_val[OF assms(1,3,4,5)] by (auto simp: ValidBlockTimestamp_def)
  qed
qed

lemma wf_U128_Inc [simp]: "wf_u128 (U128_Inc u)"
  by (simp add: U128_Inc_def Let_def)

lemma GetValidBlockTimestamp_val:
  assumes "wf_clock b" "wf_u128 prev" "u128_val prev + 1 < 2 ^ 128"
  shows "u128_val (GetValidBlockTimestamp b prev) = max (u128_val (ts_localTimeNs b)) (u128_val prev + 1)"
    and "wf_u128 (GetValidBlockTimestamp b prev)"
  using assms u128_val_Inc[OF assms(2,3)]
  by (auto simp: GetValidBlockTimestamp_def U128_Cmp_val wf_clock_def max_def)

section \<open>The window of vote delays\<close>

lemma window_drop_dropWhile:
  "fst (window_drop cutoff w pruned) = dropWhile (\<lambda>s. ds_recordedAtMs s < cutoff) w"
  by (induction w arbitrary: pruned) simp_all

text \<open>Samples are appended as time passes, so what is left is exactly the last five minutes.\<close>

lemma window_prune_recent:
  assumes "sorted (map ds_recordedAtMs w)"
  shows "fst (window_prune now w) = filter (\<lambda>s. now - minU64 now voteDelayWindowMs \<le> ds_recordedAtMs s) w"
  using assms unfolding window_prune_def window_drop_dropWhile
proof (induction w)
  case (Cons s w)
  let ?c = "now - minU64 now voteDelayWindowMs"
  show ?case
  proof (cases "ds_recordedAtMs s < ?c")
    case False
    then have "\<forall>x\<in>set w. ?c \<le> ds_recordedAtMs x" using Cons.prems by (auto intro: order_trans)
    with False show ?thesis by (simp add: not_less filter_id_conv)
  qed (use Cons in auto)
qed simp

lemma percentile_rank:
  assumes "xs \<noteq> []" "0 < p" "p \<le> 100" "length xs * unat (p :: u64) + 99 < 2 ^ 64"
  defines "k \<equiv> (length xs * unat p + 99) div 100"
  shows "(percentile xs p :: ('e, u64) go) = Ok (xs ! (k - 1))" and "0 < k" and "k \<le> length xs"
    and "length xs * unat p \<le> k * 100"
proof -
  have p: "0 < unat p" "unat p \<le> 100" using assms(2,3) by (simp_all add: word_less_nat_alt word_le_nat_alt)
  have n: "0 < length xs" using assms(1) by simp
  have lo: "1 \<le> length xs * unat p" using n p(1) by (simp add: Suc_le_eq)
  have hi: "length xs * unat p \<le> length xs * 100" using p(2) by simp
  have "100 \<le> length xs * unat p + 99" using lo by linarith
  then show k0: "0 < k" unfolding k_def by (simp only: div_greater_zero_iff) simp
  have "length xs * unat p + 99 < Suc (length xs) * 100" using hi unfolding mult_Suc by linarith
  then have "k < Suc (length xs)" unfolding k_def by (simp only: less_mult_imp_div_less)
  then show kn: "k \<le> length xs" by simp
  have "a \<le> (a + 99) div 100 * 100" for a :: nat
    using div_mult_mod_eq[of "a + 99" 100] mod_less_divisor[of 100 "a + 99"] by linarith
  then show "length xs * unat p \<le> k * 100" unfolding k_def .
  have "length xs \<le> length xs * unat p" using p(1) by simp
  then have len: "length xs < 2 ^ 64" using assms(4) by linarith
  have u: "unat (of_nat (length xs) :: u64) = length xs" using len by (simp add: unat_of_nat)
  have "unat (of_nat (length xs) :: u64) * unat p < 2 ^ LENGTH(64)" using assms(4) u by simp
  then have m: "unat (of_nat (length xs) * p) = length xs * unat p" by (metis u unat_mult_lem)
  have "unat (of_nat (length xs) * p) + unat (99 :: u64) < 2 ^ LENGTH(64)" using assms(4) m by simp
  then have "unat (of_nat (length xs) * p + 99) = length xs * unat p + 99"
    using unat_add_lem[of "of_nat (length xs) * p" "99 :: u64"] m by simp
  then have r: "unat ((of_nat (length xs) * p + 99) div 100) = k" by (simp only: unat_div k_def unat_numeral) simp
  let ?r = "(of_nat (length xs) * p + 99) div 100 :: u64"
  have "\<not> ?r < 1" using r k0 by (simp add: word_less_nat_alt)
  moreover have "unat (?r - 1) = k - 1" using r k0 by (simp add: unat_sub_if' word_le_nat_alt)
  ultimately show "(percentile xs p :: ('e, u64) go) = Ok (xs ! (k - 1))"
    using k0 kn by (simp add: percentile_def Let_def)
qed

text \<open>At least \<open>p\<close> percent of the samples are at most the reported percentile.\<close>

lemma percentile_covers:
  assumes "sorted xs" "xs \<noteq> []" "0 < p" "p \<le> 100" "length xs * unat (p :: u64) + 99 < 2 ^ 64"
  shows "\<exists>v. (percentile xs p :: ('e, u64) go) = Ok v \<and> v \<in> set xs
    \<and> length xs * unat p \<le> length (filter (\<lambda>x. x \<le> v) xs) * 100"
proof -
  let ?k = "(length xs * unat p + 99) div 100"
  note r = percentile_rank(1)[OF assms(2-5), where ?'e = 'e] percentile_rank(2-4)[OF assms(2-5)]
  have "xs ! i \<le> xs ! (?k - 1)" if "i < ?k" for i
    using that r(2,3) by (intro sorted_nth_mono[OF assms(1)]) linarith+
  then have "\<forall>x\<in>set (take ?k xs). x \<le> xs ! (?k - 1)" by (auto simp: in_set_conv_nth)
  then have "filter (\<lambda>x. x \<le> xs ! (?k - 1)) (take ?k xs) = take ?k xs" by (simp add: filter_id_conv)
  then have "length (filter (\<lambda>x. x \<le> xs ! (?k - 1)) (take ?k xs)) = ?k" using r(3) by simp
  then have "?k \<le> length (filter (\<lambda>x. x \<le> xs ! (?k - 1)) (take ?k xs @ drop ?k xs))"
    unfolding filter_append length_append by linarith
  then have "?k \<le> length (filter (\<lambda>x. x \<le> xs ! (?k - 1)) xs)" unfolding append_take_drop_id .
  then have "?k * 100 \<le> length (filter (\<lambda>x. x \<le> xs ! (?k - 1)) xs) * 100" by simp
  then have "length xs * unat p \<le> length (filter (\<lambda>x. x \<le> xs ! (?k - 1)) xs) * 100" using r(4) by linarith
  with r(1-3) show ?thesis by auto
qed

lemma updateMetrics_returns:
  assumes "length w * 99 + 99 < 2 ^ 64"
  shows "\<exists>g. (updateMetrics w :: ('e, vote_delay_gauges) go) = Ok g"
proof (cases "w = []")
  case False
  let ?v = "sort (map ds_readyAfterTimerStartMs w)"
  have ne: "?v \<noteq> []" using False by (metis Nil_is_map_conv set_empty set_sort)
  have "\<exists>x. (percentile ?v p :: ('e, u64) go) = Ok x" if "0 < p" "p \<le> 99" for p
  proof -
    have "length ?v * unat p \<le> length w * 99" using that(2) by (simp add: word_le_nat_alt)
    then have "length ?v * unat p + 99 < 2 ^ 64" using assms by linarith
    moreover have "p \<le> 100" using that(2) by (simp add: word_le_nat_alt)
    ultimately show ?thesis using percentile_rank(1)[OF ne that(1)] by blast
  qed
  from this[of 50] this[of 90] this[of 99] obtain a b c where
    "(percentile ?v 50 :: ('e, u64) go) = Ok a" "(percentile ?v 90 :: ('e, u64) go) = Ok b"
    "(percentile ?v 99 :: ('e, u64) go) = Ok c" by auto
  with False show ?thesis by (simp add: updateMetrics_def Let_def)
qed (simp add: updateMetrics_def)

end
