(* ===== verification/ConsensusState.thy ===== *)
theory ConsensusState
  imports Pacemakers Election Coherency Clock
begin

text \<open>
  \<open>consensusstate/command.go\<close> and \<open>consensusstate/state.go\<close>: the consensus state machine. A handler takes
  the state and returns the new state with the commands it emits, in order. The panic of
  \<open>maybeStatesync\<close> carries a payload that the supervisor recovers, so it is the error of the outcome;
  every other panic is \<open>Panic\<close>. Event counters and debug hooks have no influence on the state and are
  left out; the vote delay gauges are kept.
\<close>

section \<open>Commands\<close>

datatype RouterTarget =
    BroadcastTarget (rt_Epoch: epoch)
  | RaptorcastTarget (rt_Round: round) (rt_Epoch: epoch)
  | PointToPointTarget (rt_To: node_id)
  | DirectPointToPointTarget (rt_To: node_id)
  | TcpPointToPointTarget (rt_To: node_id)

datatype FullnodeBroadcastMode = SecondaryRaptorcast | FullnodeBroadcast

record ProposalRequest =
  pr_NodeId :: node_id
  pr_Epoch :: epoch
  pr_Round :: round
  pr_SeqNum :: seqnum
  pr_HighQC :: QuorumCertificate
  pr_RoundSignature :: bls_sig
  pr_LastRoundTC :: "TimeoutCertificate option"
  pr_FreshProposalCertificate :: "FreshProposalCertificate option"
  pr_TxLimit :: u64
  pr_ProposalGasLimit :: u64
  pr_ProposalByteLimit :: u64
  pr_Beneficiary :: bytes
  pr_TimestampNs :: u128
  pr_ExtendingBlocks :: "ConsensusFullBlock list"
  pr_DelayedExecutionResults :: "FinalizedHeader list"

datatype OptimisticPolicyCommit =
    CommitProposed (oc_Block: ConsensusFullBlock) (oc_IsCanonical: bool)
  | CommitVoted (oc_Block: ConsensusFullBlock)
  | CommitFinalized (oc_Block: ConsensusFullBlock)

datatype Command =
    EnterRoundCmd epoch round
  | PublishCmd RouterTarget Verified
  | PublishToFullNodesCmd epoch round FullnodeBroadcastMode Verified
  | ScheduleCmd round duration
  | ScheduleResetCmd
  | CreateProposalCmd ProposalRequest
  | CommitBlocksCmd OptimisticPolicyCommit
  | RequestSyncCmd BlockRange
  | CancelSyncCmd BlockRange
  | RequestStateSyncCmd ConsensusBlockHeader QuorumCertificate
  | TimestampUpdateCmd TimestampAdjustment
  | ScheduleVoteCmd duration round

type_synonym secp_keypair = "bytes \<times> node_id"

fun FromPacemakerCommand :: "crypto \<Rightarrow> secp_keypair \<Rightarrow> bytes \<Rightarrow> u32 \<Rightarrow> PacemakerCommand \<Rightarrow> Command list" where
  "FromPacemakerCommand cr keypair certKeypair version (CmdEnterRound epoch round highCert) =
     [EnterRoundCmd epoch round,
      PublishToFullNodesCmd epoch (rc_Round highCert) FullnodeBroadcast
        (Sign cr \<lparr>cm_Version = version, cm_Message = PMAdvanceRound \<lparr>am_LastRoundCertificate = highCert\<rparr>\<rparr> keypair)]"
| "FromPacemakerCommand cr keypair certKeypair version (CmdPrepareTimeout tinfo highExtend safeToVote lastRC) =
     (let tmMsg = NewTimeoutMessage cr certKeypair tinfo highExtend safeToVote lastRC in
      [PublishCmd (BroadcastTarget (ti_Epoch tinfo)) (Sign cr \<lparr>cm_Version = version, cm_Message = PMTimeout tmMsg\<rparr> keypair)])"
| "FromPacemakerCommand cr keypair certKeypair version (CmdSchedule round duration) = [ScheduleCmd round duration]"
| "FromPacemakerCommand cr keypair certKeypair version CmdScheduleReset = [ScheduleResetCmd]"

section \<open>State\<close>

definition futureVoteBound :: round where "futureVoteBound = 10"
definition numLeadersForwardTxs :: nat where "numLeadersForwardTxs = 3"
definition numLeadersSelfUpcoming :: nat where "numLeadersSelfUpcoming = 3"

record ConsensusConfig =
  cc_ExecutionDelay :: seqnum
  cc_Delta :: duration
  cc_ChainConfig :: Config
  cc_LiveToStatesyncThreshold :: seqnum
  cc_StatesyncToLiveThreshold :: seqnum
  cc_StartExecutionThreshold :: seqnum
  cc_TimestampLatencyEstimateNs :: u128

record blockSyncRequestStatus =
  bs_blockRange :: BlockRange
  bs_cancelRound :: round

datatype OutgoingVoteStatus = VoteTimerFired | VoteReady Vote

record ConsensusState =
  cs_PendingBlockTree :: BlockTree
  cs_VoteState :: VoteState
  cs_NoEndorsementState :: NoEndorsementState
  cs_ScheduledVote :: "OutgoingVoteStatus option"
  cs_Safety :: Safety
  cs_Pacemaker :: Pacemaker
  cs_BlockSyncRequests :: "(block_id \<times> blockSyncRequestStatus) list"
  cs_CanonicalProposedTip :: "block_id option"
  cs_VoteDelayTimerStart :: "VoteDelayTimerStart option"
  cs_voteDelayMetrics :: voteDelayMetricsWindow

record NeedStatesync =
  nsy_Root :: ConsensusFullBlock
  nsy_HighQC :: QuorumCertificate

record State =
  st_Consensus :: ConsensusState
  st_VoteDelayGauges :: vote_delay_gauges
  st_EpochManager :: EpochManager
  st_BlockPolicy :: BlockPolicy
  st_StateRead :: ExecutionStateRead
  st_ValEpochMap :: ValidatorsEpochMapping
  st_Election :: "round \<Rightarrow> ValidatorSet \<Rightarrow> (NeedStatesync, node_id) go"
  st_Version :: u32
  st_BlockValidator :: "ConsensusBlockHeader \<Rightarrow> ConsensusBlockBody \<Rightarrow> bls_pubkey option \<Rightarrow> Config
    \<Rightarrow> (string, ConsensusFullBlock) go"
  st_BlockTimestamp :: BlockTimestamp
  st_Beneficiary :: bytes
  st_NodeId :: node_id
  st_Config :: ConsensusConfig
  st_Keypair :: secp_keypair
  st_CertKeypair :: bytes

type_synonym handler = "State \<Rightarrow> (NeedStatesync, State \<times> Command list) go"

text \<open>
  \<open>cmds = append(cmds, s.f()...)\<close> for a sequence of calls, and the shorthands for the parts of the
  state that the handlers update.
\<close>

fun run_steps :: "handler list \<Rightarrow> handler" where
  "run_steps [] s = Ok (s, [])"
| "run_steps (f # fs) s = go_bind (f s) (\<lambda>(s, c). go_bind (run_steps fs s) (\<lambda>(s, c'). Ok (s, c @ c')))"

definition emit :: "Command list \<Rightarrow> handler" where
  "emit c s = Ok (s, c)"

abbreviation upd_cs :: "(ConsensusState \<Rightarrow> ConsensusState) \<Rightarrow> State \<Rightarrow> State" where
  "upd_cs f s \<equiv> s\<lparr>st_Consensus := f (st_Consensus s)\<rparr>"

abbreviation st_tree :: "State \<Rightarrow> BlockTree" where
  "st_tree s \<equiv> cs_PendingBlockTree (st_Consensus s)"

abbreviation set_tree :: "BlockTree \<Rightarrow> State \<Rightarrow> State" where
  "set_tree t \<equiv> upd_cs (cs_PendingBlockTree_update (\<lambda>_. t))"

abbreviation st_safety :: "State \<Rightarrow> Safety" where
  "st_safety s \<equiv> cs_Safety (st_Consensus s)"

abbreviation set_safety :: "Safety \<Rightarrow> State \<Rightarrow> State" where
  "set_safety x \<equiv> upd_cs (cs_Safety_update (\<lambda>_. x))"

abbreviation st_pacemaker :: "State \<Rightarrow> Pacemaker" where
  "st_pacemaker s \<equiv> cs_Pacemaker (st_Consensus s)"

abbreviation st_round :: "State \<Rightarrow> round" where
  "st_round s \<equiv> GetCurrentRound (st_pacemaker s)"

abbreviation st_epoch :: "State \<Rightarrow> epoch" where
  "st_epoch s \<equiv> pk_currentEpoch (st_pacemaker s)"

abbreviation st_highQc :: "State \<Rightarrow> QuorumCertificate" where
  "st_highQc s \<equiv> rc_GetQC (pk_highCertificate (st_pacemaker s))"

definition NewConsensusState :: "EpochManager \<Rightarrow> ConsensusConfig \<Rightarrow> RootInfo \<Rightarrow> RoundCertificate
    \<Rightarrow> ('e, ConsensusState) go" where
  "NewConsensusState epochManager config root highCertificate =
     go_bind (NewPacemaker (cc_Delta config) (cc_ChainConfig config) (cc_Delta config) epochManager highCertificate)
       (\<lambda>pacemaker. Ok
         \<lparr>cs_PendingBlockTree = blocktree_New root,
          cs_VoteState = NewVoteState (GetCurrentRound pacemaker),
          cs_NoEndorsementState = NewNoEndorsementState (GetCurrentRound pacemaker),
          cs_ScheduledVote = None,
          cs_Safety = NewSafety highCertificate None,
          cs_Pacemaker = pacemaker,
          cs_BlockSyncRequests = [],
          cs_CanonicalProposedTip = None,
          cs_VoteDelayTimerStart = None,
          cs_voteDelayMetrics = []\<rparr>)"

definition RefreshVoteDelayMetrics :: "u128 \<Rightarrow> State \<Rightarrow> ('e, State) go" where
  "RefreshVoteDelayMetrics nowNs s =
     go_bind (window_refresh (nsToMs nowNs) (cs_voteDelayMetrics (st_Consensus s), st_VoteDelayGauges s)) (\<lambda>(w, g).
       Ok ((upd_cs (cs_voteDelayMetrics_update (\<lambda>_. w)) s)\<lparr>st_VoteDelayGauges := g\<rparr>))"

text \<open>A request is recorded by the last block of its range.\<close>

definition request_sync :: "BlockRange \<Rightarrow> round \<Rightarrow> handler" where
  "request_sync r cancelRound s =
     Ok (upd_cs (cs_BlockSyncRequests_update (aput (br_LastBlockId r) \<lparr>bs_blockRange = r, bs_cancelRound = cancelRound\<rparr>)) s,
         [RequestSyncCmd r])"

definition RequestBlocksIfMissingAncestor :: handler where
  "RequestBlocksIfMissingAncestor s =
     go_bind (MaybeFillPathToRoot (st_tree s) (st_highQc s)) (\<lambda>blockRange.
       case blockRange of
         None \<Rightarrow> Ok (s, [])
       | Some r \<Rightarrow>
           if br_NumBlocks r = 0 then Panic ''consensusstate: empty block range''
           else if map_of (cs_BlockSyncRequests (st_Consensus s)) (br_LastBlockId r) \<noteq> None then Ok (s, [])
           else request_sync r (qc_GetRound (st_highQc s)) s)"

definition requestTipIfMissing :: "crypto \<Rightarrow> handler" where
  "requestTipIfMissing cr s =
     (case pk_highCertificate (st_pacemaker s) of
        RC_TC tc \<Rightarrow>
          (case tc_HighExtend tc of
             HE_QC _ \<Rightarrow> Ok (s, [])
           | HE_Tip tip \<Rightarrow>
               let tipId = header_GetId cr (tip_BlockHeader tip) in
               if GetBlock (st_tree s) tipId \<noteq> None then Ok (s, [])
               else if map_of (cs_BlockSyncRequests (st_Consensus s)) tipId \<noteq> None then Ok (s, [])
               else request_sync \<lparr>br_LastBlockId = tipId, br_NumBlocks = 1\<rparr> (bh_BlockRound (tip_BlockHeader tip)) s)
      | RC_QC _ \<Rightarrow> Ok (s, []))"

section \<open>Lookups\<close>

definition validators_of :: "round \<Rightarrow> string \<Rightarrow> string \<Rightarrow> State \<Rightarrow> ('e, epoch \<times> ValidatorSet) go" where
  "validators_of round noEpoch noSet s =
     go_bind (go_some (GetEpoch (st_EpochManager s) round) noEpoch) (\<lambda>epoch.
     go_bind (go_some (GetValSet (st_ValEpochMap s) epoch) noSet) (\<lambda>vs. Ok (epoch, vs)))"

definition leader_of :: "round \<Rightarrow> string \<Rightarrow> State \<Rightarrow> (NeedStatesync, node_id) go" where
  "leader_of round msg s =
     go_bind (validators_of round msg msg s) (\<lambda>(_, vs). st_Election s round vs)"

definition lookupLeader :: "round \<Rightarrow> State \<Rightarrow> (NeedStatesync, node_id option) go" where
  "lookupLeader round s =
     (case GetEpoch (st_EpochManager s) round of
        None \<Rightarrow> Ok None
      | Some epoch \<Rightarrow>
          (case GetValSet (st_ValEpochMap s) epoch of
             None \<Rightarrow> Ok None
           | Some vs \<Rightarrow> go_bind (st_Election s round vs) (\<lambda>leader. Ok (Some leader))))"

fun upcomingLeaderRoundPairs_loop :: "nat \<Rightarrow> round \<Rightarrow> State \<Rightarrow> (NeedStatesync, (node_id \<times> round) list) go" where
  "upcomingLeaderRoundPairs_loop 0 round s = Ok []"
| "upcomingLeaderRoundPairs_loop (Suc n) round s =
     go_bind (validators_of round ''consensusstate: epoch exists''
       ''consensusstate: TODO handle non-existent validatorset for next k round epoch'' s) (\<lambda>(_, vs).
     go_bind (st_Election s round vs) (\<lambda>leader.
     go_bind (upcomingLeaderRoundPairs_loop n (round + 1) s) (\<lambda>out. Ok ((leader, round) # out))))"

definition upcomingLeaderRoundPairs :: "bool \<Rightarrow> nat \<Rightarrow> State \<Rightarrow> (NeedStatesync, (node_id \<times> round) list) go" where
  "upcomingLeaderRoundPairs includeCurrent numRounds s =
     upcomingLeaderRoundPairs_loop numRounds (if includeCurrent then st_round s else st_round s + 1) s"

definition IterUpcomingSelfLeaderRounds :: "State \<Rightarrow> (NeedStatesync, round list) go" where
  "IterUpcomingSelfLeaderRounds s =
     go_bind (upcomingLeaderRoundPairs True numLeadersSelfUpcoming s) (\<lambda>ps.
       Ok (map snd (filter (\<lambda>(n, r). n = st_NodeId s) ps)))"

definition IterFutureOtherLeaders :: "State \<Rightarrow> (NeedStatesync, node_id list) go" where
  "IterFutureOtherLeaders s =
     go_bind (upcomingLeaderRoundPairs False numLeadersForwardTxs s) (\<lambda>ps.
       Ok (fold (\<lambda>(n, r) out. if n = st_NodeId s \<or> n \<in> set out then out else out @ [n]) ps []))"

definition getLockedEpoch :: "epoch \<Rightarrow> State \<Rightarrow> LockedEpoch option" where
  "getLockedEpoch epoch s =
     (case GetValSet (st_ValEpochMap s) epoch of
        None \<Rightarrow> None
      | Some _ \<Rightarrow> map_option (\<lambda>round. \<lparr>le_Epoch = epoch, le_Round = round\<rparr>) (GetEpochStart (st_EpochManager s) epoch))"

definition State_Checkpoint :: "State \<Rightarrow> ('e, Checkpoint) go" where
  "State_Checkpoint s =
     (let baseEpoch = ri_Epoch (bt_root (st_tree s)) in
      case getLockedEpoch baseEpoch s of
        None \<Rightarrow> Panic ''consensusstate: checkpoint: no validator set populated for base_epoch''
      | Some le \<Rightarrow> Ok \<lparr>cp_Root = bt_rootId (st_tree s), cp_HighCertificate = pk_highCertificate (st_pacemaker s),
          cp_ValidatorSets = le # (case getLockedEpoch (baseEpoch + 1) s of None \<Rightarrow> [] | Some le \<Rightarrow> [le])\<rparr>)"

section \<open>Votes and proposals\<close>

text \<open>A call of the pacemaker, its commands translated for the node.\<close>

definition pacemaker_call :: "crypto \<Rightarrow> (Pacemaker \<times> Safety \<Rightarrow> (NeedStatesync, (Pacemaker \<times> Safety) \<times> PacemakerCommand list) go)
    \<Rightarrow> handler" where
  "pacemaker_call cr f s =
     go_bind (f (st_pacemaker s, st_safety s)) (\<lambda>((p, safety), pcs).
       Ok (upd_cs (\<lambda>c. c\<lparr>cs_Pacemaker := p, cs_Safety := safety\<rparr>) s,
           concat (map (FromPacemakerCommand cr (st_Keypair s) (st_CertKeypair s) (st_Version s)) pcs)))"

definition signed_msg :: "crypto \<Rightarrow> State \<Rightarrow> ProtocolMessage \<Rightarrow> Verified" where
  "signed_msg cr s m = Sign cr \<lparr>cm_Version = st_Version s, cm_Message = m\<rparr> (st_Keypair s)"

definition maybeRecordVoteDelayMetrics :: "round \<Rightarrow> round \<Rightarrow> handler" where
  "maybeRecordVoteDelayMetrics proposalRound parentBlockRound s =
     (case cs_VoteDelayTimerStart (st_Consensus s) of
        None \<Rightarrow> Ok (s, [])
      | Some timerStart \<Rightarrow>
          if vd_Round timerStart \<noteq> proposalRound \<or> parentBlockRound + 1 \<noteq> proposalRound then Ok (s, []) else
          let nowMs = nsToMs (ts_localTimeNs (st_BlockTimestamp s)) in
          go_bind (recordReadyAfterTimerStart nowMs (nowMs - minU64 nowMs (vd_StartedAtMs timerStart))
                     (cs_voteDelayMetrics (st_Consensus s))) (\<lambda>(w, g).
            Ok ((upd_cs (cs_voteDelayMetrics_update (\<lambda>_. w)) s)\<lparr>st_VoteDelayGauges := g\<rparr>, [])))"

definition sendVoteAndResetTimer :: "crypto \<Rightarrow> Vote \<Rightarrow> handler" where
  "sendVoteAndResetTimer cr vote s =
     (let round = v_Round vote;
          msg = signed_msg cr s (PMVote (NewVoteMessage cr vote (st_CertKeypair s))) in
      go_bind (leader_of (round + 1) ''consensusstate: looked up leader for invalid round'' s) (\<lambda>nextLeader.
      go_bind (leader_of round ''consensusstate: looked up leader for invalid round'' s) (\<lambda>currentLeader.
      let nextRound = round + 1;
          votePace = cp_VotePace (cfg_GetChainRevision (cc_ChainConfig (st_Config s)) nextRound) in
      Ok (upd_cs (\<lambda>c. c\<lparr>cs_VoteDelayTimerStart :=
                Some \<lparr>vd_Round = nextRound, vd_StartedAtMs = nsToMs (ts_localTimeNs (st_BlockTimestamp s))\<rparr>,
              cs_ScheduledVote := None\<rparr>) s,
          PublishCmd (PointToPointTarget nextLeader) msg
          # (if currentLeader \<noteq> nextLeader then [PublishCmd (PointToPointTarget currentLeader) msg] else [])
          @ [ScheduleVoteCmd votePace nextRound]))))"

definition HandleVoteTimer :: "crypto \<Rightarrow> round \<Rightarrow> handler" where
  "HandleVoteTimer cr voteTimerRound s =
     (case cs_ScheduledVote (st_Consensus s) of
        Some (VoteReady vote) \<Rightarrow> sendVoteAndResetTimer cr vote s
      | _ \<Rightarrow> Ok (upd_cs (cs_ScheduledVote_update (\<lambda>_. Some VoteTimerFired)) s, []))"

text \<open>The last part of \<open>tryVote\<close>: send the vote or leave it to the timer.\<close>

definition schedule_vote :: "crypto \<Rightarrow> Vote \<Rightarrow> round \<Rightarrow> handler" where
  "schedule_vote cr v parentBlockRound s =
     (case cs_ScheduledVote (st_Consensus s) of
        Some VoteTimerFired \<Rightarrow> sendVoteAndResetTimer cr v s
      | sv \<Rightarrow>
          if (case sv of Some (VoteReady w) \<Rightarrow> v_Round w \<ge> v_Round v | _ \<Rightarrow> False)
          then Panic ''consensusstate: trying to schedule another vote in same round''
          else if parentBlockRound + 1 \<noteq> v_Round v then sendVoteAndResetTimer cr v s
          else Ok (upd_cs (cs_ScheduledVote_update (\<lambda>_. Some (VoteReady v))) s, []))"

definition tryVote :: "crypto \<Rightarrow> TimeoutCertificate option \<Rightarrow> ConsensusTip \<Rightarrow> handler" where
  "tryVote cr lastRoundTC tip s =
     (let proposalRound = st_round s;
          header = tip_BlockHeader tip;
          votePace = cp_VotePace (cfg_GetChainRevision (cc_ChainConfig (st_Config s)) proposalRound) in
      case (GetTimestampOfQc (st_tree s) (bh_QC header), GetBlockRoundOfQc (st_tree s) (bh_QC header)) of
        (Some parentTimestamp, Some parentBlockRound) \<Rightarrow>
          if ValidBlockTimestamp (st_BlockTimestamp s) parentTimestamp (bh_TimestampNs header)
               (U128FromUint64 votePace) (proposalRound \<noteq> bh_BlockRound header) = None then Ok (s, [])
          else if \<not> IsCoherent (st_tree s) (header_GetId cr header) then Ok (s, [])
          else
          let lastRoundTcTip = (case lastRoundTC of
                Some tc \<Rightarrow> (case tc_HighExtend tc of HE_Tip t \<Rightarrow> Some (header_GetId cr (tip_BlockHeader t)) | HE_QC _ \<Rightarrow> None)
              | None \<Rightarrow> None) in
          if \<not> IsSafeToVote proposalRound lastRoundTcTip (st_safety s) then Ok (s, [])
          else
          go_bind (Safety_Vote proposalRound lastRoundTcTip tip (st_safety s)) (\<lambda>safety.
          let v = \<lparr>v_ID = header_GetId cr header, v_Round = proposalRound, v_Epoch = st_epoch s\<rparr> in
          run_steps [maybeRecordVoteDelayMetrics proposalRound parentBlockRound,
                     schedule_vote cr v parentBlockRound] (set_safety safety s))
      | _ \<Rightarrow> Ok (s, []))"

definition updateProposedHead :: "crypto \<Rightarrow> handler" where
  "updateProposedHead cr s =
     go_bind (GetCanonicalCoherentTip cr (st_tree s) (st_highQc s)) (\<lambda>canonicalTipId.
       if cs_CanonicalProposedTip (st_Consensus s) = Some canonicalTipId then Ok (s, []) else
       case GetBlock (st_tree s) canonicalTipId of
         None \<Rightarrow> Ok (s, [])
       | Some block \<Rightarrow> Ok (upd_cs (cs_CanonicalProposedTip_update (\<lambda>_. Some canonicalTipId)) s,
           [CommitBlocksCmd (CommitProposed block True)]))"

text \<open>One iteration of the loop of \<open>tryCommit\<close> over the blocks that \<open>Prune\<close> returned.\<close>

definition commit_block :: "crypto \<Rightarrow> ConsensusFullBlock \<Rightarrow> handler" where
  "commit_block cr block s =
     go_bind (UpdateCommittedBlock cr block (st_BlockPolicy s)) (\<lambda>policy.
     go_bind (ScheduleEpochStart (block_SeqNum block) (block_Round block) (st_EpochManager s)) (\<lambda>em.
       Ok (s\<lparr>st_BlockPolicy := policy, st_EpochManager := em\<rparr>, [CommitBlocksCmd (CommitFinalized block)])))"

definition tryCommit :: "crypto \<Rightarrow> QuorumCertificate \<Rightarrow> handler" where
  "tryCommit cr qc s =
     (case GetBlock (st_tree s) (qc_GetBlockId qc) of
        None \<Rightarrow> Ok (s, [])
      | Some qcParent \<Rightarrow>
          go_bind (qc_GetCommittableId cr qc qcParent) (\<lambda>committableId.
            case committableId of
              None \<Rightarrow> Ok (s, [])
            | Some i \<Rightarrow>
                if \<not> IsCoherent (st_tree s) i then Ok (s, []) else
                go_bind (Prune cr i (st_tree s)) (\<lambda>(t, blocks).
                  run_steps (map (commit_block cr) blocks) (set_tree t s))))"

definition tryUpdateCoherency :: "crypto \<Rightarrow> block_id \<Rightarrow> handler" where
  "tryUpdateCoherency cr updatedBlockId s =
     go_bind (TryUpdateCoherency cr (st_BlockPolicy s) (st_StateRead s) updatedBlockId (st_tree s)) (\<lambda>(t, blocks).
       run_steps [emit (map (\<lambda>b. CommitBlocksCmd (CommitProposed b False)) blocks),
                  updateProposedHead cr,
                  (\<lambda>s. go_bind (GetHighCommittableQc cr (st_tree s)) (\<lambda>qc.
                     case qc of None \<Rightarrow> Ok (s, []) | Some qc \<Rightarrow> tryCommit cr qc s))]
         (set_tree t s))"

definition maybeStatesync :: handler where
  "maybeStatesync s =
     (case GetSeqNumOfQc (st_tree s) (st_highQc s) of
        None \<Rightarrow> Ok (s, [])
      | Some highQcSeqNum \<Rightarrow>
          if ri_SeqNum (bt_root (st_tree s)) + cc_LiveToStatesyncThreshold (st_Config s) > highQcSeqNum then Ok (s, [])
          else case GetBlock (st_tree s) (qc_GetBlockId (st_highQc s)) of
            None \<Rightarrow> Panic ''consensusstate: high qc certified block missing from pending tree''
          | Some root \<Rightarrow> Err \<lparr>nsy_Root = root, nsy_HighQC = st_highQc s\<rparr>)"

text \<open>What a leader extends: the certificate of the last round decides between a tip and a certificate.\<close>

definition propose_choice :: "State \<Rightarrow> HighExtend \<times> FreshProposalCertificate option \<times> TimeoutCertificate option" where
  "propose_choice s =
     (case pk_highCertificate (st_pacemaker s) of
        RC_TC tc \<Rightarrow>
          (case GetNec (st_round s) (cs_NoEndorsementState (st_Consensus s)) of
             Some nec \<Rightarrow> (HE_QC (HighExtend_GetQC (tc_HighExtend tc)), Some (FPC_Nec nec), Some tc)
           | None \<Rightarrow>
               (case tc_HighExtend tc of
                  HE_Tip tip \<Rightarrow> (HE_Tip tip, None, Some tc)
                | HE_QC qc \<Rightarrow> (HE_QC qc,
                    Some (FPC_NoTip \<lparr>nt_Epoch = tc_Epoch tc, nt_Round = tc_Round tc, nt_TipRounds = tc_TipRounds tc, nt_HighQc = qc\<rparr>),
                    Some tc)))
      | RC_QC qc \<Rightarrow> (HE_QC qc, None, None))"

text \<open>The two branches of \<open>tryPropose\<close>, after the coherency update.\<close>

definition propose_tip :: "crypto \<Rightarrow> round \<Rightarrow> ConsensusTip \<Rightarrow> TimeoutCertificate option \<Rightarrow> handler" where
  "propose_tip cr round tip lastRoundTC s =
     (let tipId = header_GetId cr (tip_BlockHeader tip);
          isCoherent = IsCoherent (st_tree s) tipId;
          isVotableTs = U128_Cmp (bh_TimestampNs (tip_BlockHeader tip)) (ts_localTimeNs (st_BlockTimestamp s)) < 0 in
      if \<not> isCoherent \<or> \<not> isVotableTs then
        (if \<not> IsSafeToRecoveryRequest round (st_safety s) then Ok (s, []) else
         go_bind (Safety_RecoveryRequest round (st_safety s)) (\<lambda>safety.
         go_bind (go_some lastRoundTC ''nil pointer dereference'') (\<lambda>tc.
           Ok (set_safety safety s,
               [PublishCmd (BroadcastTarget (st_epoch s)) (signed_msg cr s (PMRoundRecovery
                  \<lparr>rm_Round = st_round s, rm_Epoch = st_epoch s, rm_TC = tc\<rparr>))]))))
      else
        go_bind (Safety_Propose round (st_safety s)) (\<lambda>safety.
        go_bind (go_some (GetBlock (st_tree s) tipId) ''consensusstate: tip is coherent'') (\<lambda>block.
          Ok (set_safety safety s,
              [PublishCmd (RaptorcastTarget (st_round s) (st_epoch s)) (signed_msg cr s (PMProposal
                 \<lparr>pm_ProposalRound = st_round s, pm_ProposalEpoch = st_epoch s, pm_Tip = tip,
                  pm_BlockBody = fb_Body block, pm_LastRoundTC = lastRoundTC\<rparr>))]))))"

definition propose_qc :: "crypto \<Rightarrow> round \<Rightarrow> epoch \<Rightarrow> QuorumCertificate \<Rightarrow> FreshProposalCertificate option
    \<Rightarrow> TimeoutCertificate option \<Rightarrow> handler" where
  "propose_qc cr round epoch qc freshProposalCert lastRoundTC s =
     (if \<not> IsCoherent (st_tree s) (qc_GetBlockId qc) then Ok (s, []) else
      go_bind (GetBlocksOnPathFromRoot (st_tree s) (qc_GetBlockId qc)) (\<lambda>path.
      go_bind (go_some path ''consensusstate: there should be a path to root'') (\<lambda>pendingBlocks.
      let (tryProposeSeqNum, timestampNs) =
            (if pendingBlocks \<noteq> [] then
               (block_SeqNum (last pendingBlocks) + 1,
                GetValidBlockTimestamp (st_BlockTimestamp s) (bh_TimestampNs (fb_Header (last pendingBlocks))))
             else (ri_SeqNum (bt_root (st_tree s)) + 1,
                   GetValidBlockTimestamp (st_BlockTimestamp s) (ri_TimestampNs (bt_root (st_tree s))))) in
      case GetExpectedExecutionResults cr (st_BlockPolicy s) tryProposeSeqNum (Some pendingBlocks) (st_StateRead s) of
        Err _ \<Rightarrow> Ok (s, [])
      | Panic m \<Rightarrow> Panic m
      | Diverge \<Rightarrow> Diverge
      | Ok delayedResults \<Rightarrow>
          go_bind (Safety_Propose round (st_safety s)) (\<lambda>safety.
          let params = cfg_GetChainRevision (cc_ChainConfig (st_Config s)) round in
          Ok (set_safety safety s,
              [CreateProposalCmd
                \<lparr>pr_NodeId = st_NodeId s, pr_Epoch = epoch, pr_Round = round, pr_SeqNum = tryProposeSeqNum,
                 pr_HighQC = qc, pr_RoundSignature = NewRoundSignature cr round (st_CertKeypair s),
                 pr_LastRoundTC = lastRoundTC, pr_FreshProposalCertificate = freshProposalCert,
                 pr_TxLimit = cp_TxLimit params, pr_ProposalGasLimit = cp_ProposalGasLimit params,
                 pr_ProposalByteLimit = cp_ProposalByteLimit params, pr_Beneficiary = st_Beneficiary s,
                 pr_TimestampNs = timestampNs, pr_ExtendingBlocks = pendingBlocks,
                 pr_DelayedExecutionResults = delayedResults\<rparr>])))))"

definition propose_extend :: "crypto \<Rightarrow> round \<Rightarrow> epoch \<Rightarrow> handler" where
  "propose_extend cr round epoch s =
     (if \<not> IsSafeToPropose round (st_safety s) then Ok (s, []) else
      case propose_choice s of
        (HE_Tip tip, freshProposalCert, lastRoundTC) \<Rightarrow>
          run_steps [tryUpdateCoherency cr (header_GetId cr (tip_BlockHeader tip)),
                     propose_tip cr round tip lastRoundTC] s
      | (HE_QC qc, freshProposalCert, lastRoundTC) \<Rightarrow>
          run_steps [tryUpdateCoherency cr (qc_GetBlockId qc),
                     propose_qc cr round epoch qc freshProposalCert lastRoundTC] s)"

definition tryPropose :: "crypto \<Rightarrow> handler" where
  "tryPropose cr s =
     (let round = st_round s in
      go_bind (validators_of round ''consensusstate: current epoch exists''
        ''consensusstate: TODO handle non-existent validatorset for next round epoch'' s) (\<lambda>(epoch, validatorSet).
      go_bind (st_Election s round validatorSet) (\<lambda>leader.
        if st_NodeId s \<noteq> leader then Ok (s, [])
        else run_steps [requestTipIfMissing cr, propose_extend cr round epoch] s)))"

section \<open>Certificates\<close>

text \<open>The requests that a commit has overtaken are cancelled.\<close>

definition cancel_syncs :: handler where
  "cancel_syncs s =
     (let obsolete = (\<lambda>(i, status). bs_cancelRound status \<le> ri_Round (bt_root (st_tree s)));
          requests = cs_BlockSyncRequests (st_Consensus s) in
      Ok (upd_cs (cs_BlockSyncRequests_update (\<lambda>_. filter (\<lambda>r. \<not> obsolete r) requests)) s,
          map (\<lambda>(i, status). CancelSyncCmd (bs_blockRange status)) (filter obsolete requests)))"

definition start_new_round :: handler where
  "start_new_round s =
     Ok (upd_cs (\<lambda>c. c\<lparr>cs_VoteState := VoteState_StartNewRound (st_round s) (cs_VoteState c),
                       cs_NoEndorsementState := NoEndorsementState_StartNewRound (st_round s) (cs_NoEndorsementState c)\<rparr>) s, [])"

definition check_leader :: handler where
  "check_leader s = go_bind (lookupLeader (st_round s) s) (\<lambda>_. Ok (s, []))"

definition ProcessQC :: "crypto \<Rightarrow> QuorumCertificate \<Rightarrow> handler" where
  "ProcessQC cr qc s =
     (if v_Round (qc_Info qc) < st_round s then Ok (s, []) else
      run_steps
        [(\<lambda>s. go_bind (GetHighestCoherentBlockOnPathFromRoot cr (st_tree s) (qc_GetBlockId qc)) (\<lambda>voted.
            emit (case voted of None \<Rightarrow> [] | Some b \<Rightarrow> [CommitBlocksCmd (CommitVoted b)]) s)),
         tryCommit cr qc,
         cancel_syncs,
         maybeStatesync,
         (\<lambda>s. pacemaker_call cr (Pacemaker_ProcessCertificate (st_EpochManager s) (RC_QC qc)) s),
         updateProposedHead cr,
         RequestBlocksIfMissingAncestor,
         start_new_round,
         check_leader,
         tryPropose cr] s)"

definition ProcessTC :: "crypto \<Rightarrow> TimeoutCertificate \<Rightarrow> handler" where
  "ProcessTC cr tc s =
     (if tc_Round tc < st_round s then Ok (s, []) else
      run_steps
        [(\<lambda>s. pacemaker_call cr (Pacemaker_ProcessCertificate (st_EpochManager s) (RC_TC tc)) s),
         check_leader,
         tryPropose cr] s)"

section \<open>Handlers\<close>

definition HandleTimeoutExpiry :: "crypto \<Rightarrow> round \<Rightarrow> handler" where
  "HandleTimeoutExpiry cr timeoutRound s =
     (if timeoutRound < st_round s then Ok (s, []) else pacemaker_call cr ProcessLocalTimeout s)"

definition HasHandledProposal :: "round \<Rightarrow> State \<Rightarrow> bool" where
  "HasHandledProposal round s = (\<not> IsSafeToHandleProposal round (st_safety s))"

definition validateBlock :: "crypto \<Rightarrow> ConsensusBlockHeader \<Rightarrow> ConsensusBlockBody \<Rightarrow> State
    \<Rightarrow> (NeedStatesync, ConsensusFullBlock option) go" where
  "validateBlock cr header body s =
     (case GetBlock (st_tree s) (header_GetId cr header) of
        Some validated \<Rightarrow>
          Ok (if body_GetId cr (fb_Body validated) \<noteq> body_GetId cr body then None else Some validated)
      | None \<Rightarrow>
          go_bind (validators_of (bh_BlockRound header) ''consensusstate: epoch verified''
            ''consensusstate: proposal message was verified'' s) (\<lambda>(_, validatorSet).
          go_bind (st_Election s (bh_BlockRound header) validatorSet) (\<lambda>leader.
            if bh_Author header \<noteq> leader then Ok None else
            go_bind (go_some (GetCertPubkeys (st_ValEpochMap s) (bh_Epoch header))
              ''consensusstate: proposal message was verified'') (\<lambda>mapping.
            if \<not> ValidatorMapping_Has mapping (bh_Author header)
            then Panic ''consensusstate: proposal author exists in validator_mapping'' else
            case st_BlockValidator s header body (ValidatorMapping_PubKey mapping (bh_Author header))
                   (cc_ChainConfig (st_Config s)) of
              Err _ \<Rightarrow> Ok None
            | Panic m \<Rightarrow> Panic m
            | Diverge \<Rightarrow> Diverge
            | Ok block \<Rightarrow> Ok (Some block)))))"

record pendingVote =
  pv_proposalRound :: round
  pv_lastRoundTC :: "TimeoutCertificate option"
  pv_tip :: ConsensusTip

definition add_block :: "crypto \<Rightarrow> ConsensusFullBlock \<Rightarrow> handler" where
  "add_block cr block s = Ok (set_tree (Add cr block (st_tree s)) s, [])"

definition tryAddAndCommitBlocktree :: "crypto \<Rightarrow> ConsensusFullBlock \<Rightarrow> pendingVote option \<Rightarrow> handler" where
  "tryAddAndCommitBlocktree cr block voting =
     run_steps
       [add_block cr block,
        tryUpdateCoherency cr (block_GetId cr block),
        (\<lambda>s. case voting of
           None \<Rightarrow> Ok (s, [])
         | Some pv \<Rightarrow>
             if pv_proposalRound pv \<noteq> st_round s then Ok (s, [])
             else if header_GetId cr (tip_BlockHeader (pv_tip pv)) \<noteq> block_GetId cr block
             then Panic ''consensusstate: tip block id mismatch''
             else tryVote cr (pv_lastRoundTC pv) (pv_tip pv) s),
        tryPropose cr,
        maybeStatesync,
        RequestBlocksIfMissingAncestor]"

text \<open>The rest of a proposal, after its certificates: author, leader and round checks, then the block.\<close>

definition accept_proposal :: "crypto \<Rightarrow> node_id \<Rightarrow> ProposalMessage \<Rightarrow> ValidatorSet \<Rightarrow> handler" where
  "accept_proposal cr author p validatorSet s =
     (let pacemakerRound = st_round s; proposalRound = pm_ProposalRound p in
      go_bind (st_Election s proposalRound validatorSet) (\<lambda>expectedLeader.
        if proposalRound > pacemakerRound \<or> author \<noteq> expectedLeader then Ok (s, [])
        else if \<not> IsSafeToHandleProposal proposalRound (st_safety s) then Ok (s, [])
        else
        go_bind (HandleProposal proposalRound (st_safety s)) (\<lambda>safety.
        let s = set_safety safety s in
        go_bind (validateBlock cr (tip_BlockHeader (pm_Tip p)) (pm_BlockBody p) s) (\<lambda>block.
          case block of
            None \<Rightarrow> Ok (s, [])
          | Some block \<Rightarrow> tryAddAndCommitBlocktree cr block
              (Some \<lparr>pv_proposalRound = proposalRound, pv_lastRoundTC = pm_LastRoundTC p, pv_tip = pm_Tip p\<rparr>) s))))"

definition HandleProposalMessage :: "crypto \<Rightarrow> node_id \<Rightarrow> ProposalMessage \<Rightarrow> handler" where
  "HandleProposalMessage cr author p s =
     (if pm_ProposalRound p \<le> ri_Round (bt_root (st_tree s)) then Ok (s, []) else
      go_bind (validators_of (pm_ProposalRound p) ''consensusstate: epoch verified''
        ''consensusstate: proposal message was verified'' s) (\<lambda>(_, validatorSet).
      run_steps
        [ProcessQC cr (bh_QC (tip_BlockHeader (pm_Tip p))),
         (\<lambda>s. case pm_LastRoundTC p of None \<Rightarrow> Ok (s, []) | Some tc \<Rightarrow> ProcessTC cr tc s),
         accept_proposal cr author p validatorSet] s))"

definition advance_round_msg :: "RoundCertificate \<Rightarrow> ProtocolMessage" where
  "advance_round_msg rc = PMAdvanceRound \<lparr>am_LastRoundCertificate = rc\<rparr>"

text \<open>A formed certificate is processed and, by the leader of its round, broadcast.\<close>

definition announce_qc :: "crypto \<Rightarrow> round \<Rightarrow> ValidatorSet \<Rightarrow> QuorumCertificate \<Rightarrow> handler" where
  "announce_qc cr voteRound validatorSet qc =
     run_steps
       [ProcessQC cr qc,
        tryPropose cr,
        (\<lambda>s. go_bind (st_Election s voteRound validatorSet) (\<lambda>voteRoundLeader.
           emit (if st_NodeId s = voteRoundLeader
                 then [PublishCmd (BroadcastTarget (st_epoch s)) (signed_msg cr s (advance_round_msg (RC_QC qc)))]
                 else []) s))]"

definition HandleVoteMessage :: "crypto \<Rightarrow> node_id \<Rightarrow> VoteMessage \<Rightarrow> handler" where
  "HandleVoteMessage cr author voteMsg s =
     (let voteRound = v_Round (vm_Vote voteMsg); current = st_round s in
      if voteRound < current then Ok (s, [])
      else if voteRound > current + futureVoteBound then Ok (s, [])
      else
      go_bind (validators_of voteRound ''consensusstate: epoch verified'' ''consensusstate: vote message was verified'' s)
        (\<lambda>(epoch, validatorSet).
      go_bind (go_some (GetCertPubkeys (st_ValEpochMap s) epoch) ''consensusstate: vote message was verified'')
        (\<lambda>validatorMapping.
      go_bind (ProcessVote cr author voteMsg validatorSet validatorMapping (cs_VoteState (st_Consensus s)))
        (\<lambda>(vs, maybeQc).
      let s = upd_cs (cs_VoteState_update (\<lambda>_. vs)) s in
      case maybeQc of None \<Rightarrow> Ok (s, []) | Some qc \<Rightarrow> announce_qc cr voteRound validatorSet qc s))))"

definition BroadcastAdvanceRoundMessage :: "crypto \<Rightarrow> RoundCertificate \<Rightarrow> handler" where
  "BroadcastAdvanceRoundMessage cr lastRoundCertificate s =
     (case GetEpoch (st_EpochManager s) (rc_Round lastRoundCertificate) of
        None \<Rightarrow> Ok (s, [])
      | Some epoch \<Rightarrow> Ok (s, [PublishCmd (BroadcastTarget epoch) (signed_msg cr s (advance_round_msg lastRoundCertificate))]))"

text \<open>The certificate that a remote timeout carries for the round before it.\<close>

definition last_round_certificate :: "crypto \<Rightarrow> RoundCertificate option \<Rightarrow> handler" where
  "last_round_certificate cr lrc s =
     (case lrc of
        Some (RC_TC tc) \<Rightarrow>
          if tc_Round tc = st_round s then run_steps [HandleTimeoutExpiry cr (tc_Round tc), ProcessTC cr tc] s
          else if tc_Round tc > st_round s then run_steps [BroadcastAdvanceRoundMessage cr (RC_TC tc), ProcessTC cr tc] s
          else Ok (s, [])
      | Some (RC_QC qc) \<Rightarrow> ProcessQC cr qc s
      | None \<Rightarrow> Ok (s, []))"

definition HandleTimeoutMessage :: "crypto \<Rightarrow> node_id \<Rightarrow> TimeoutMessage \<Rightarrow> handler" where
  "HandleTimeoutMessage cr author timeout s =
     (let tmInfo = tm_TmInfo timeout in
      if ti_Round tmInfo < st_round s then Ok (s, []) else
      go_bind (validators_of (ti_Round tmInfo) ''consensusstate: epoch verified''
        ''consensusstate: timeout message was verified'' s) (\<lambda>(epoch, validatorSet).
      go_bind (go_some (GetCertPubkeys (st_ValEpochMap s) epoch) ''consensusstate: timeout message was verified'')
        (\<lambda>validatorMapping.
      run_steps
        [ProcessQC cr (HighExtendVote_GetQC (tm_HighExtend timeout)),
         (\<lambda>s. case tm_HighExtend timeout of
            HEV_Tip tip (Some voteSig) \<Rightarrow> HandleVoteMessage cr author
              \<lparr>vm_Vote = \<lparr>v_ID = header_GetId cr (tip_BlockHeader tip), v_Round = ti_Round tmInfo, v_Epoch = ti_Epoch tmInfo\<rparr>,
               vm_Sig = voteSig\<rparr> s
          | _ \<Rightarrow> Ok (s, [])),
         last_round_certificate cr (tm_LastRoundCertificate timeout),
         (\<lambda>s. pacemaker_call cr (ProcessRemoteTimeout cr (st_EpochManager s) validatorSet validatorMapping author timeout) s),
         tryPropose cr] s)))"

text \<open>A leader without the tip of the last round asks for no-endorsements.\<close>

definition answer_recovery :: "crypto \<Rightarrow> node_id \<Rightarrow> RoundRecoveryMessage \<Rightarrow> epoch \<Rightarrow> ValidatorSet \<Rightarrow> handler" where
  "answer_recovery cr author rr epoch validatorSet s =
     go_bind (st_Election s (st_round s) validatorSet) (\<lambda>expectedLeader.
       if rm_Round rr \<noteq> st_round s \<or> author \<noteq> expectedLeader then Ok (s, []) else
       case tc_HighExtend (rm_TC rr) of
         HE_QC _ \<Rightarrow> Ok (s, [])
       | HE_Tip tip \<Rightarrow>
           let tipId = header_GetId cr (tip_BlockHeader tip) in
           if IsCoherent (st_tree s) tipId
              \<and> U128_Cmp (bh_TimestampNs (tip_BlockHeader tip)) (ts_localTimeNs (st_BlockTimestamp s)) < 0 then Ok (s, [])
           else if \<not> IsSafeToNoEndorse (rm_Round rr) (st_safety s) then Ok (s, [])
           else
           go_bind (Safety_NoEndorse (rm_Round rr) tipId (st_safety s)) (\<lambda>safety.
             let ne = NewNoEndorsementMessage cr
                   \<lparr>ne_Epoch = epoch, ne_Round = rm_Round rr, ne_TipQcRound = qc_GetRound (bh_QC (tip_BlockHeader tip))\<rparr>
                   (st_CertKeypair s) in
             Ok (set_safety safety s,
                 [PublishCmd (PointToPointTarget author) (signed_msg cr s (PMNoEndorsement ne))])))"

definition HandleRoundRecoveryMessage :: "crypto \<Rightarrow> node_id \<Rightarrow> RoundRecoveryMessage \<Rightarrow> handler" where
  "HandleRoundRecoveryMessage cr author rr s =
     go_bind (validators_of (rm_Round rr) ''consensusstate: epoch verified''
       ''consensusstate: round recovery message was verified'' s) (\<lambda>(epoch, validatorSet).
     run_steps [ProcessTC cr (rm_TC rr), answer_recovery cr author rr epoch validatorSet] s)"

definition HandleNoEndorsementMessage :: "crypto \<Rightarrow> node_id \<Rightarrow> NoEndorsementMessage \<Rightarrow> handler" where
  "HandleNoEndorsementMessage cr author msg s =
     (let round = ne_Round (nm_Msg msg); current = st_round s in
      if round < current then Ok (s, [])
      else if round > current then Ok (s, [])
      else
      go_bind (validators_of round ''consensusstate: epoch verified''
        ''consensusstate: no_endorsement message was verified'' s) (\<lambda>(epoch, validatorSet).
      go_bind (go_some (GetCertPubkeys (st_ValEpochMap s) epoch)
        ''consensusstate: no_endorsement message was verified'') (\<lambda>validatorMapping.
      go_bind (ProcessNoEndorsement cr author msg validatorSet validatorMapping (cs_NoEndorsementState (st_Consensus s)))
        (\<lambda>(ns, maybeNec).
      let s = upd_cs (cs_NoEndorsementState_update (\<lambda>_. ns)) s in
      case maybeNec of None \<Rightarrow> Ok (s, []) | Some _ \<Rightarrow> tryPropose cr s))))"

text \<open>An advance-round message with a certificate is forwarded to the leader of the round it opens.\<close>

definition forward_qc :: "crypto \<Rightarrow> QuorumCertificate \<Rightarrow> handler" where
  "forward_qc cr qc s =
     go_bind (leader_of (st_round s) ''consensusstate: looked up leader for invalid round'' s) (\<lambda>leader.
       Ok (s, [PublishCmd (PointToPointTarget leader) (signed_msg cr s (advance_round_msg (RC_QC qc)))]))"

definition HandleAdvanceRoundMessage :: "crypto \<Rightarrow> node_id \<Rightarrow> AdvanceRoundMessage \<Rightarrow> handler" where
  "HandleAdvanceRoundMessage cr author msg s =
     (case am_LastRoundCertificate msg of
        RC_TC tc \<Rightarrow> ProcessTC cr tc s
      | RC_QC qc \<Rightarrow>
          if v_Round (qc_Info qc) < st_round s then Ok (s, [])
          else run_steps [ProcessQC cr qc, forward_qc cr qc] s)"

text \<open>The blocks of a sync response, in order; the first that fails to validate ends the loop.\<close>

fun blocksync_loop :: "crypto \<Rightarrow> ConsensusFullBlock list \<Rightarrow> handler" where
  "blocksync_loop cr [] s = Ok (s, [])"
| "blocksync_loop cr (b # blocks) s =
     (if \<not> IsValidToInsert cr (st_tree s) (fb_Header b) then blocksync_loop cr blocks s else
      go_bind (validateBlock cr (fb_Header b) (fb_Body b) s) (\<lambda>block.
        case block of
          None \<Rightarrow> Ok (s, [])
        | Some block \<Rightarrow> run_steps [tryAddAndCommitBlocktree cr block None, blocksync_loop cr blocks] s))"

definition HandleBlockSync :: "crypto \<Rightarrow> BlockRange \<Rightarrow> ConsensusFullBlock list \<Rightarrow> handler" where
  "HandleBlockSync cr blockRange fullBlocks s =
     (case map_of (cs_BlockSyncRequests (st_Consensus s)) (br_LastBlockId blockRange) of
        None \<Rightarrow> Ok (s, [])
      | Some _ \<Rightarrow> run_steps
          [blocksync_loop cr fullBlocks,
           (\<lambda>s. Ok (upd_cs (cs_BlockSyncRequests_update (adel (br_LastBlockId blockRange))) s, []))] s)"

end
