(* ===== verification/Handlers.thy ===== *)
theory Handlers
  imports ConsensusState
begin

text \<open>
  Contracts of the handlers of \<open>consensusstate/state.go\<close>. A contract relates the state before a call, the
  commands it emits and the state after it. The locale \<open>state_contract\<close> asks for it on the calls that
  change what consensus safety depends on, and gives it for every handler and every run of the node.
\<close>

section \<open>What a step leaves alone\<close>

fun quiet_msg :: "ProtocolMessage \<Rightarrow> bool" where
  "quiet_msg (PMRoundRecovery _) = True"
| "quiet_msg (PMAdvanceRound _) = True"
| "quiet_msg _ = False"

fun quiet_cmd :: "Command \<Rightarrow> bool" where
  "quiet_cmd (PublishCmd t m) = quiet_msg (cm_Message (uv_Obj (vf_Message m)))"
| "quiet_cmd (CreateProposalCmd p) = False"
| "quiet_cmd (EnterRoundCmd e r) = False"
| "quiet_cmd (CommitBlocksCmd (CommitFinalized b)) = False"
| "quiet_cmd _ = True"

definition same_core :: "State \<Rightarrow> State \<Rightarrow> bool" where
  "same_core s s' \<longleftrightarrow> st_tree s' = st_tree s \<and> st_safety s' = st_safety s \<and> st_pacemaker s' = st_pacemaker s
     \<and> cs_ScheduledVote (st_Consensus s') = cs_ScheduledVote (st_Consensus s)
     \<and> st_BlockPolicy s' = st_BlockPolicy s \<and> st_EpochManager s' = st_EpochManager s"

lemma same_core_refl [simp]: "same_core s s"
  by (simp add: same_core_def)

lemma signed_msg_payload [simp]: "cm_Message (uv_Obj (vf_Message (signed_msg cr s m))) = m"
  by (simp add: signed_msg_def Sign_def)

section \<open>The contract\<close>

definition step_ok :: "(State \<Rightarrow> Command list \<Rightarrow> State \<Rightarrow> bool) \<Rightarrow> handler \<Rightarrow> bool" where
  "step_ok R f \<longleftrightarrow> (\<forall>s s' c. f s = Ok (s', c) \<longrightarrow> R s c s')"

lemma step_okI: "(\<And>s s' c. f s = Ok (s', c) \<Longrightarrow> R s c s') \<Longrightarrow> step_ok R f"
  by (simp add: step_ok_def)

lemma step_okD: "step_ok R f \<Longrightarrow> f s = Ok (s', c) \<Longrightarrow> R s c s'"
  by (simp add: step_ok_def)

locale step_relation =
  fixes R :: "State \<Rightarrow> Command list \<Rightarrow> State \<Rightarrow> bool"
  assumes refl_ok: "R s [] s"
    and trans: "R s c s' \<Longrightarrow> R s' c' s'' \<Longrightarrow> R s (c @ c') s''"
begin

lemma nothing_ok: "step_ok R (\<lambda>s. Ok (s, []))"
  by (rule step_okI) (simp add: refl_ok)

lemma steps_Nil: "step_ok R (run_steps [])"
  by (rule step_okI) (simp add: refl_ok)

lemma steps_Cons: "step_ok R f \<Longrightarrow> step_ok R (run_steps fs) \<Longrightarrow> step_ok R (run_steps (f # fs))"
proof (rule step_okI)
  fix s s' c assume f: "step_ok R f" "step_ok R (run_steps fs)" and "run_steps (f # fs) s = Ok (s', c)"
  then obtain s1 c1 c2 where s: "f s = Ok (s1, c1)" "run_steps fs s1 = Ok (s', c2)" "c = c1 @ c2"
    by (auto simp: go_simps)
  from trans[OF step_okD[OF f(1) s(1)] step_okD[OF f(2) s(2)]] show "R s c s'" using s(3) by simp
qed

lemma run_steps_ok: "list_all (step_ok R) fs \<Longrightarrow> step_ok R (run_steps fs)"
  by (induction fs) (simp_all add: steps_Cons steps_Nil del: run_steps.simps)

text \<open>A first change of the state, then the rest.\<close>

lemma after: "R s [] s1 \<Longrightarrow> step_ok R f \<Longrightarrow> f s1 = Ok (s', c) \<Longrightarrow> R s c s'"
  using trans[of s "[]" s1 c s'] by (simp add: step_okD)

text \<open>Lookups and branches.\<close>

lemma bind_ok: "(\<And>x. step_ok R (g x)) \<Longrightarrow> step_ok R (\<lambda>s. go_bind (m s) (\<lambda>x. g x s))"
  by (rule step_okI) (auto simp: go_simps dest: step_okD)

lemma if_ok: "step_ok R f \<Longrightarrow> step_ok R g \<Longrightarrow> step_ok R (\<lambda>s. if P s then f s else g s)"
  by (rule step_okI) (auto split: if_splits dest: step_okD)

lemma option_ok:
  "step_ok R f \<Longrightarrow> (\<And>x. step_ok R (g x)) \<Longrightarrow> step_ok R (\<lambda>s. case m s of None \<Rightarrow> f s | Some x \<Rightarrow> g x s)"
  by (rule step_okI) (auto split: option.splits dest: step_okD)

lemma prod_ok: "(\<And>x y. step_ok R (g x y)) \<Longrightarrow> step_ok R (\<lambda>s. case m s of (x, y) \<Rightarrow> g x y s)"
  by (rule step_okI) (auto split: prod.splits dest: step_okD)

lemma rc_ok:
  "(\<And>x. step_ok R (f x)) \<Longrightarrow> (\<And>x. step_ok R (g x)) \<Longrightarrow> step_ok R (\<lambda>s. case m s of RC_QC x \<Rightarrow> f x s | RC_TC x \<Rightarrow> g x s)"
  by (rule step_okI) (auto split: RoundCertificate.splits dest: step_okD)

lemma extend_ok:
  "(\<And>x. step_ok R (f x)) \<Longrightarrow> (\<And>x. step_ok R (g x)) \<Longrightarrow> step_ok R (\<lambda>s. case m s of HE_Tip x \<Rightarrow> f x s | HE_QC x \<Rightarrow> g x s)"
  by (rule step_okI) (auto split: HighExtend.splits dest: step_okD)

lemma let_ok: "(\<And>x. step_ok R (g x)) \<Longrightarrow> step_ok R (\<lambda>s. let x = m s in g x s)"
  by (rule step_okI) (auto dest: step_okD)

lemma stop_ok: "step_ok R (\<lambda>s. Panic m)" "step_ok R (\<lambda>s. Panic (h s))" "step_ok R (\<lambda>s. Err (e s))" "step_ok R (\<lambda>s. Diverge)"
  by (rule step_okI, simp)+

lemmas branch_ok = nothing_ok bind_ok if_ok option_ok prod_ok rc_ok extend_ok let_ok stop_ok steps_Nil steps_Cons

end

text \<open>Contracts on the block tree: what is asked of coherency updates and commits.\<close>

locale tree_contract = step_relation R for R +
  fixes cr :: crypto
  assumes quiet: "same_core s s' \<Longrightarrow> list_all quiet_cmd c \<Longrightarrow> R s c s'"
    and coherency_ok: "(TryUpdateCoherency cr (st_BlockPolicy s) (st_StateRead s) i (st_tree s) :: (NeedStatesync, _) go)
      = Ok (t, bs) \<Longrightarrow> R s [] (set_tree t s)"
    and commit_ok: "step_ok R (tryCommit cr qc)"
begin

lemma emit_ok: "list_all quiet_cmd c \<Longrightarrow> step_ok R (emit c)"
  by (rule step_okI) (auto simp: emit_def intro: quiet)

lemma quiet_ok: "(\<And>s. same_core s (f s)) \<Longrightarrow> (\<And>s. list_all quiet_cmd (c s)) \<Longrightarrow> step_ok R (\<lambda>s. Ok (f s, c s))"
  by (rule step_okI) (auto intro: quiet)

lemma request_sync_ok: "step_ok R (\<lambda>s. request_sync r (n s) s)"
  unfolding request_sync_def by (rule quiet_ok) (simp_all add: same_core_def)

lemma request_blocks_ok: "step_ok R RequestBlocksIfMissingAncestor"
  unfolding RequestBlocksIfMissingAncestor_def[abs_def] by (intro branch_ok request_sync_ok)

lemma request_tip_ok: "step_ok R (requestTipIfMissing cr)"
  unfolding requestTipIfMissing_def[abs_def]
  by (intro branch_ok request_sync_ok)

lemma proposed_head_ok: "step_ok R (updateProposedHead cr)"
  unfolding updateProposedHead_def[abs_def]
  by (intro branch_ok quiet_ok) (simp_all add: same_core_def)

lemma coherency_update_ok: "step_ok R (tryUpdateCoherency cr i)"
proof (rule step_okI)
  fix s s' c assume "tryUpdateCoherency cr i s = Ok (s', c)"
  then obtain t bs where
    t: "(TryUpdateCoherency cr (st_BlockPolicy s) (st_StateRead s) i (st_tree s) :: (NeedStatesync, _) go) = Ok (t, bs)"
    and r: "run_steps [emit (map (\<lambda>b. CommitBlocksCmd (CommitProposed b False)) bs), updateProposedHead cr,
      (\<lambda>s. go_bind (GetHighCommittableQc cr (st_tree s)) (\<lambda>qc.
         case qc of None \<Rightarrow> Ok (s, []) | Some qc \<Rightarrow> tryCommit cr qc s))] (set_tree t s) = Ok (s', c)"
    unfolding tryUpdateCoherency_def go_bind_eq_Ok by (auto simp del: run_steps.simps)
  have "step_ok R (run_steps [emit (map (\<lambda>b. CommitBlocksCmd (CommitProposed b False)) bs), updateProposedHead cr,
      (\<lambda>s. go_bind (GetHighCommittableQc cr (st_tree s)) (\<lambda>qc.
         case qc of None \<Rightarrow> Ok (s, []) | Some qc \<Rightarrow> tryCommit cr qc s))])"
    by (intro branch_ok proposed_head_ok commit_ok emit_ok) (simp add: list_all_iff)
  from after[OF coherency_ok[OF t] this r] show "R s c s'" .
qed

end

lemma run_steps_two:
  "run_steps [f, g] s = Ok (s', c) \<longleftrightarrow> (\<exists>s1 c1 c2. f s = Ok (s1, c1) \<and> g s1 = Ok (s', c2) \<and> c = c1 @ c2)"
  by (auto simp: go_simps)

section \<open>Committing keeps the round\<close>

definition same_round :: "State \<Rightarrow> Command list \<Rightarrow> State \<Rightarrow> bool" where
  "same_round s c s' \<longleftrightarrow> st_pacemaker s' = st_pacemaker s \<and> st_safety s' = st_safety s
     \<and> cs_ScheduledVote (st_Consensus s') = cs_ScheduledVote (st_Consensus s)"

lemma commit_block_Ok:
  assumes "commit_block cr b s = Ok (s', c)"
  shows "\<exists>policy em. (UpdateCommittedBlock cr b (st_BlockPolicy s) :: (NeedStatesync, _) go) = Ok policy
    \<and> (ScheduleEpochStart (block_SeqNum b) (block_Round b) (st_EpochManager s) :: (NeedStatesync, _) go) = Ok em
    \<and> s' = s\<lparr>st_BlockPolicy := policy, st_EpochManager := em\<rparr> \<and> c = [CommitBlocksCmd (CommitFinalized b)]"
  using assms by (auto simp: commit_block_def go_simps)

text \<open>The blocks are committed one by one; only the policy and the epoch manager change.\<close>

lemma commit_blocks_Ok:
  assumes "run_steps (map (commit_block cr) bs) s = Ok (s', c)"
  shows "\<exists>policy em. s' = s\<lparr>st_BlockPolicy := policy, st_EpochManager := em\<rparr>
    \<and> c = map (\<lambda>b. CommitBlocksCmd (CommitFinalized b)) bs"
  using assms
proof (induction bs arbitrary: s s' c)
  case Nil
  then show ?case by (intro exI[of _ "st_BlockPolicy s"] exI[of _ "st_EpochManager s"]) simp
next
  case (Cons b bs)
  from Cons.prems obtain s1 c1 c2 where s: "commit_block cr b s = Ok (s1, c1)"
    "run_steps (map (commit_block cr) bs) s1 = Ok (s', c2)" "c = c1 @ c2"
    by (auto simp: go_simps)
  from commit_block_Ok[OF s(1)] Cons.IH[OF s(2)] s(3) show ?case by auto (rule exI, rule exI, rule refl)
qed

text \<open>What a successful commit has done: nothing, or a pruning to a coherent block.\<close>

lemma tryCommit_Ok:
  assumes "tryCommit cr qc s = Ok (s', c)"
  shows "(s' = s \<and> c = []) \<or> (\<exists>i t bs. IsCoherent (st_tree s) i
    \<and> (Prune cr i (st_tree s) :: (NeedStatesync, _) go) = Ok (t, bs)
    \<and> run_steps (map (commit_block cr) bs) (set_tree t s) = Ok (s', c))"
proof (cases "GetBlock (st_tree s) (qc_GetBlockId qc)")
  case (Some b)
  from assms Some obtain i where i: "(qc_GetCommittableId cr qc b :: (NeedStatesync, _) go) = Ok i"
    by (auto simp: tryCommit_def go_simps)
  show ?thesis
  proof (cases i)
    case (Some j)
    show ?thesis
    proof (cases "IsCoherent (st_tree s) j")
      case True
      with assms i Some \<open>GetBlock (st_tree s) (qc_GetBlockId qc) = Some b\<close> obtain t bs where
        "(Prune cr j (st_tree s) :: (NeedStatesync, _) go) = Ok (t, bs)"
        "run_steps (map (commit_block cr) bs) (set_tree t s) = Ok (s', c)"
        by (auto simp: tryCommit_def go_bind_eq_Ok)
      with True show ?thesis by blast
    qed (use assms i Some \<open>GetBlock (st_tree s) (qc_GetBlockId qc) = Some b\<close> in \<open>simp add: tryCommit_def\<close>)
  qed (use assms i Some in \<open>simp add: tryCommit_def\<close>)
qed (use assms in \<open>simp add: tryCommit_def\<close>)

interpretation keeps: tree_contract same_round cr for cr
proof unfold_locales
  show "step_ok same_round (tryCommit cr qc)" for qc
  proof (rule step_okI)
    fix s s' c assume "tryCommit cr qc s = Ok (s', c)"
    from tryCommit_Ok[OF this] show "same_round s c s'"
      by (auto simp: same_round_def dest!: commit_blocks_Ok)
  qed
qed (simp_all add: same_round_def same_core_def)

lemma tryUpdateCoherency_round:
  assumes "tryUpdateCoherency cr i s = Ok (s', c)"
  shows "st_pacemaker s' = st_pacemaker s"
  using step_okD[OF keeps.coherency_update_ok assms] by (simp add: same_round_def)

lemma requestTipIfMissing_round:
  assumes "requestTipIfMissing cr s = Ok (s', c)"
  shows "st_pacemaker s' = st_pacemaker s"
  using step_okD[OF keeps.request_tip_ok assms] by (simp add: same_round_def)

section \<open>Contracts of the whole state machine\<close>

locale state_contract = tree_contract R cr for R cr +
  assumes add_ok: "step_ok R (add_block cr b)"
    and certificate_ok: "step_ok R (\<lambda>s. pacemaker_call cr (Pacemaker_ProcessCertificate (st_EpochManager s) rc) s)"
    and local_timeout_ok: "step_ok R (pacemaker_call cr ProcessLocalTimeout)"
    and remote_timeout_ok:
      "step_ok R (\<lambda>s. pacemaker_call cr (ProcessRemoteTimeout cr (st_EpochManager s) vs m author timeout) s)"
    and handle_ok: "(HandleProposal r (st_safety s) :: (NeedStatesync, Safety) go) = Ok x \<Longrightarrow> R s [] (set_safety x s)"
    and propose_tip_ok: "propose_tip cr (st_round s) tip tc s = Ok (s', c) \<Longrightarrow> R s c s'"
    and propose_qc_ok: "propose_qc cr (st_round s) e qc fresh tc s = Ok (s', c) \<Longrightarrow> R s c s'"
    and recovery_ok: "step_ok R (answer_recovery cr author rr e vs)"
    and vote_ok: "step_ok R (tryVote cr tc tip)"
    and timer_ok: "step_ok R (HandleVoteTimer cr r)"
begin

text \<open>The leader's branch: the round is the one of the state, also after the coherency update.\<close>

lemma propose_extend_ok:
  assumes "propose_extend cr (st_round s) e s = Ok (s', c)"
  shows "R s c s'"
proof (cases "IsSafeToPropose (st_round s) (st_safety s)")
  case True
  have after_update: "R s (c1 @ c2) s'" if u: "tryUpdateCoherency cr i s = Ok (s1, c1)"
    and r: "st_round s1 = st_round s \<Longrightarrow> R s1 c2 s'" for i s1 c1 c2
    using trans[OF step_okD[OF coherency_update_ok u] r] tryUpdateCoherency_round[OF u] by simp
  obtain he fresh tc where ch: "propose_choice s = (he, fresh, tc)" by (cases "propose_choice s")
  show ?thesis
  proof (cases he)
    case (HE_Tip tip)
    from assms ch True HE_Tip obtain s1 c1 c2 where "tryUpdateCoherency cr (header_GetId cr (tip_BlockHeader tip)) s = Ok (s1, c1)"
      "propose_tip cr (st_round s) tip tc s1 = Ok (s', c2)" "c = c1 @ c2"
      by (auto simp: propose_extend_def run_steps_two simp del: run_steps.simps)
    then show ?thesis using propose_tip_ok[of s1] by (auto intro!: after_update)
  next
    case (HE_QC qc)
    from assms ch True HE_QC obtain s1 c1 c2 where "tryUpdateCoherency cr (qc_GetBlockId qc) s = Ok (s1, c1)"
      "propose_qc cr (st_round s) e qc fresh tc s1 = Ok (s', c2)" "c = c1 @ c2"
      by (auto simp: propose_extend_def run_steps_two simp del: run_steps.simps)
    then show ?thesis using propose_qc_ok[of s1] by (auto intro!: after_update)
  qed
qed (use assms in \<open>simp add: propose_extend_def refl_ok\<close>)

lemma propose_ok: "step_ok R (tryPropose cr)"
proof (rule step_okI)
  fix s s' c assume "tryPropose cr s = Ok (s', c)"
  then consider "c = []" "s' = s" | e s1 c1 c2 where "requestTipIfMissing cr s = Ok (s1, c1)"
    "propose_extend cr (st_round s) e s1 = Ok (s', c2)" "c = c1 @ c2"
    unfolding tryPropose_def by (auto simp: Let_def go_bind_eq_Ok run_steps_two simp del: run_steps.simps split: if_split_asm)
  then show "R s c s'"
  proof cases
    case 2
    have "st_round s1 = st_round s" using requestTipIfMissing_round[OF 2(1)] by simp
    with propose_extend_ok[of s1 e s' c2] 2(2) have "R s1 c2 s'" by simp
    with step_okD[OF request_tip_ok 2(1)] show ?thesis unfolding 2(3) by (rule trans)
  qed (simp add: refl_ok)
qed

lemma proposal_voted_ok:
  "step_ok R (\<lambda>s. go_bind (GetHighestCoherentBlockOnPathFromRoot cr (st_tree s) i) (\<lambda>voted.
     emit (case voted of None \<Rightarrow> [] | Some b \<Rightarrow> [CommitBlocksCmd (CommitVoted b)]) s))"
  by (intro bind_ok emit_ok) (simp split: option.split)

lemma cancel_ok: "step_ok R cancel_syncs"
  unfolding cancel_syncs_def[abs_def] Let_def
  by (rule quiet_ok) (auto simp: same_core_def list_all_iff)

lemma statesync_ok: "step_ok R maybeStatesync"
  unfolding maybeStatesync_def[abs_def] by (intro branch_ok)

lemma new_round_ok: "step_ok R start_new_round"
  unfolding start_new_round_def[abs_def] by (rule quiet_ok) (simp_all add: same_core_def)

lemma check_leader_ok: "step_ok R check_leader"
  unfolding check_leader_def[abs_def] by (intro branch_ok)

lemmas part_ok = branch_ok coherency_update_ok commit_ok propose_ok request_blocks_ok proposed_head_ok
  proposal_voted_ok cancel_ok statesync_ok new_round_ok check_leader_ok certificate_ok local_timeout_ok
  remote_timeout_ok add_ok vote_ok recovery_ok

lemma ProcessQC_ok: "step_ok R (ProcessQC cr qc)"
  unfolding ProcessQC_def[abs_def] by (intro proposal_voted_ok part_ok)

lemma ProcessTC_ok: "step_ok R (ProcessTC cr tc)"
  unfolding ProcessTC_def[abs_def] by (intro part_ok)

lemma timeout_expiry_ok: "step_ok R (HandleTimeoutExpiry cr r)"
  unfolding HandleTimeoutExpiry_def[abs_def] by (intro part_ok)

lemma add_and_commit_ok: "step_ok R (tryAddAndCommitBlocktree cr b pv)"
  unfolding tryAddAndCommitBlocktree_def by (intro part_ok)

lemma accept_proposal_ok: "step_ok R (accept_proposal cr author p vs)"
proof (rule step_okI)
  fix s s' c assume a: "accept_proposal cr author p vs s = Ok (s', c)"
  show "R s c s'"
  proof (cases "s' = s \<and> c = []")
    case False
    with a obtain x block where h: "(HandleProposal (pm_ProposalRound p) (st_safety s) :: (NeedStatesync, _) go) = Ok x"
      and b: "(case block of None \<Rightarrow> Ok (set_safety x s, []) | Some b \<Rightarrow> tryAddAndCommitBlocktree cr b
        (Some \<lparr>pv_proposalRound = pm_ProposalRound p, pv_lastRoundTC = pm_LastRoundTC p, pv_tip = pm_Tip p\<rparr>)
        (set_safety x s)) = Ok (s', c)"
      by (auto simp: accept_proposal_def Let_def go_bind_eq_Ok split: if_split_asm)
    note h = handle_ok[OF h]
    show ?thesis
    proof (cases block)
      case (Some b')
      then show ?thesis using after[OF h add_and_commit_ok] b by simp
    qed (use b h in simp)
  qed (simp add: refl_ok)
qed

lemma proposal_ok: "step_ok R (HandleProposalMessage cr author p)"
  unfolding HandleProposalMessage_def[abs_def]
  by (intro part_ok ProcessQC_ok ProcessTC_ok accept_proposal_ok)

lemma publish_ok: "quiet_msg m \<Longrightarrow> step_ok R (\<lambda>s. Ok (s, [PublishCmd (t s) (signed_msg cr s m)]))"
  by (rule quiet_ok) simp_all

lemma announce_ok: "step_ok R (announce_qc cr r vs qc)"
proof -
  have "step_ok R (\<lambda>s. emit (if st_NodeId s = l
      then [PublishCmd (BroadcastTarget (st_epoch s)) (signed_msg cr s (advance_round_msg (RC_QC qc)))] else []) s)" for l
    by (rule step_okI) (auto simp: emit_def advance_round_msg_def intro!: quiet split: if_split_asm)
  then show ?thesis unfolding announce_qc_def by (intro part_ok ProcessQC_ok)
qed

text \<open>A change of the vote bookkeeping, then the rest.\<close>

lemma quiet_then:
  assumes "same_core s s1" "step_ok R f" "f s1 = Ok (s', c)"
  shows "R s c s'"
  using after[OF quiet[OF assms(1), of "[]"] assms(2,3)] by simp

lemma vote_message_ok: "step_ok R (HandleVoteMessage cr author vm)"
proof (rule step_okI)
  fix s s' c assume a: "HandleVoteMessage cr author vm s = Ok (s', c)"
  show "R s c s'"
  proof (cases "s' = s \<and> c = []")
    case False
    with a obtain vset vs qc where
      "(case qc of None \<Rightarrow> Ok (upd_cs (cs_VoteState_update (\<lambda>_. vs)) s, [])
        | Some qc \<Rightarrow> announce_qc cr (v_Round (vm_Vote vm)) vset qc (upd_cs (cs_VoteState_update (\<lambda>_. vs)) s)) = Ok (s', c)"
      by (auto simp: HandleVoteMessage_def Let_def go_bind_eq_Ok split: if_split_asm)
    moreover have "same_core s (upd_cs (cs_VoteState_update (\<lambda>_. vs)) s)" by (simp add: same_core_def)
    ultimately show ?thesis
      by (cases qc) (auto intro: quiet quiet_then[OF _ announce_ok])
  qed (simp add: refl_ok)
qed

lemma advance_ok: "step_ok R (BroadcastAdvanceRoundMessage cr rc)"
  unfolding BroadcastAdvanceRoundMessage_def[abs_def]
  by (intro branch_ok publish_ok) (simp add: advance_round_msg_def)

lemma last_certificate_ok: "step_ok R (last_round_certificate cr lrc)"
proof (cases lrc)
  case (Some rc)
  then show ?thesis
    by (cases rc) (auto simp: last_round_certificate_def[abs_def] simp del: run_steps.simps
      intro!: part_ok ProcessQC_ok ProcessTC_ok timeout_expiry_ok advance_ok)
qed (simp add: last_round_certificate_def[abs_def] nothing_ok)

lemma timeout_message_ok: "step_ok R (HandleTimeoutMessage cr author tm)"
proof -
  have "step_ok R (\<lambda>s. case tm_HighExtend tm of
      HEV_Tip tip (Some sig) \<Rightarrow> HandleVoteMessage cr author (vm tip sig) s | _ \<Rightarrow> Ok (s, []))" for vm
    by (rule step_okI) (auto simp: refl_ok split: HighExtendVote.split_asm option.split_asm dest: step_okD[OF vote_message_ok])
  then show ?thesis
    unfolding HandleTimeoutMessage_def[abs_def]
    by (intro part_ok ProcessQC_ok last_certificate_ok)
qed

lemma round_recovery_ok: "step_ok R (HandleRoundRecoveryMessage cr author rr)"
  unfolding HandleRoundRecoveryMessage_def[abs_def] by (intro part_ok ProcessTC_ok)

lemma no_endorsement_ok: "step_ok R (HandleNoEndorsementMessage cr author m)"
proof (rule step_okI)
  fix s s' c assume a: "HandleNoEndorsementMessage cr author m s = Ok (s', c)"
  show "R s c s'"
  proof (cases "s' = s \<and> c = []")
    case False
    with a obtain ns nec where
      "(case nec of None \<Rightarrow> Ok (upd_cs (cs_NoEndorsementState_update (\<lambda>_. ns)) s, [])
        | Some (x :: NoEndorsementCertificate) \<Rightarrow> tryPropose cr (upd_cs (cs_NoEndorsementState_update (\<lambda>_. ns)) s)) = Ok (s', c)"
      by (auto simp: HandleNoEndorsementMessage_def Let_def go_bind_eq_Ok split: if_split_asm)
    moreover have "same_core s (upd_cs (cs_NoEndorsementState_update (\<lambda>_. ns)) s)" by (simp add: same_core_def)
    ultimately show ?thesis
      by (cases nec) (auto intro: quiet quiet_then[OF _ propose_ok])
  qed (simp add: refl_ok)
qed

lemma forward_ok: "step_ok R (forward_qc cr qc)"
  unfolding forward_qc_def[abs_def]
  by (intro branch_ok publish_ok) (simp add: advance_round_msg_def)

lemma advance_message_ok: "step_ok R (HandleAdvanceRoundMessage cr author m)"
  unfolding HandleAdvanceRoundMessage_def[abs_def]
  by (intro part_ok ProcessQC_ok ProcessTC_ok forward_ok)

lemma blocksync_loop_ok: "step_ok R (blocksync_loop cr bs)"
proof (induction bs)
  case (Cons b bs)
  have "blocksync_loop cr (b # bs) = (\<lambda>s.
     (if \<not> IsValidToInsert cr (st_tree s) (fb_Header b) then blocksync_loop cr bs s else
      go_bind (validateBlock cr (fb_Header b) (fb_Body b) s) (\<lambda>block.
        case block of
          None \<Rightarrow> Ok (s, [])
        | Some block \<Rightarrow> run_steps [tryAddAndCommitBlocktree cr block None, blocksync_loop cr bs] s)))"
    by (rule ext) (simp only: blocksync_loop.simps)
  then show ?case by (simp only:) (intro part_ok Cons add_and_commit_ok)
qed (simp add: nothing_ok[unfolded step_ok_def] step_ok_def refl_ok)

lemma blocksync_ok: "step_ok R (HandleBlockSync cr r bs)"
  unfolding HandleBlockSync_def[abs_def]
  by (intro part_ok blocksync_loop_ok quiet_ok) (simp_all add: same_core_def)

end

end
