(* ===== verification/Node.thy ===== *)
theory Node
  imports Handlers
begin

text \<open>
  Runs of one node: any sequence of events, each handled to its end. Besides the handlers of
  \<open>consensusstate/state.go\<close> the clock may be set, execution may progress, validator sets of later epochs
  may become known and the vote delay gauges may be refreshed. Three contracts follow for every run: the
  node moves forward, it never signs twice, and the blocks it finalizes form a chain.
\<close>

datatype event =
    TimeoutExpired round
  | ProposalReceived node_id ProposalMessage
  | VoteReceived node_id VoteMessage
  | TimeoutReceived node_id TimeoutMessage
  | RoundRecoveryReceived node_id RoundRecoveryMessage
  | NoEndorsementReceived node_id NoEndorsementMessage
  | AdvanceRoundReceived node_id AdvanceRoundMessage
  | BlocksSynced BlockRange "ConsensusFullBlock list"
  | VoteTimerExpired round
  | ClockSet u128
  | ExecutionProgressed ExecutionStateRead
  | ValidatorSetsKnown ValidatorsEpochMapping
  | GaugesRefreshed u128

fun handle :: "crypto \<Rightarrow> event \<Rightarrow> handler" where
  "handle cr (TimeoutExpired r) s = HandleTimeoutExpiry cr r s"
| "handle cr (ProposalReceived a m) s = HandleProposalMessage cr a m s"
| "handle cr (VoteReceived a m) s = HandleVoteMessage cr a m s"
| "handle cr (TimeoutReceived a m) s = HandleTimeoutMessage cr a m s"
| "handle cr (RoundRecoveryReceived a m) s = HandleRoundRecoveryMessage cr a m s"
| "handle cr (NoEndorsementReceived a m) s = HandleNoEndorsementMessage cr a m s"
| "handle cr (AdvanceRoundReceived a m) s = HandleAdvanceRoundMessage cr a m s"
| "handle cr (BlocksSynced r bs) s = HandleBlockSync cr r bs s"
| "handle cr (VoteTimerExpired r) s = HandleVoteTimer cr r s"
| "handle cr (ClockSet t) s = Ok (s\<lparr>st_BlockTimestamp := UpdateTime t (st_BlockTimestamp s)\<rparr>, [])"
| "handle cr (ExecutionProgressed sr) s = Ok (s\<lparr>st_StateRead := sr\<rparr>, [])"
| "handle cr (ValidatorSetsKnown m) s = Ok (s\<lparr>st_ValEpochMap := m\<rparr>, [])"
| "handle cr (GaugesRefreshed t) s = go_bind (RefreshVoteDelayMetrics t s) (\<lambda>s. Ok (s, []))"

inductive node_run :: "crypto \<Rightarrow> State \<Rightarrow> Command list \<Rightarrow> State \<Rightarrow> bool" for cr s0 where
  start: "node_run cr s0 [] s0"
| step: "node_run cr s0 c s \<Longrightarrow> handle cr e s = Ok (s', c') \<Longrightarrow> node_run cr s0 (c @ c') s'"

lemma handle_eqs:
  "handle cr (TimeoutExpired r) = HandleTimeoutExpiry cr r"
  "handle cr (ProposalReceived a pm) = HandleProposalMessage cr a pm"
  "handle cr (VoteReceived a vm) = HandleVoteMessage cr a vm"
  "handle cr (TimeoutReceived a tm) = HandleTimeoutMessage cr a tm"
  "handle cr (RoundRecoveryReceived a rm) = HandleRoundRecoveryMessage cr a rm"
  "handle cr (NoEndorsementReceived a nm) = HandleNoEndorsementMessage cr a nm"
  "handle cr (AdvanceRoundReceived a am) = HandleAdvanceRoundMessage cr a am"
  "handle cr (BlocksSynced br bs) = HandleBlockSync cr br bs"
  "handle cr (VoteTimerExpired r) = HandleVoteTimer cr r"
  "handle cr (ClockSet t) = (\<lambda>s. Ok (s\<lparr>st_BlockTimestamp := UpdateTime t (st_BlockTimestamp s)\<rparr>, []))"
  "handle cr (ExecutionProgressed sr) = (\<lambda>s. Ok (s\<lparr>st_StateRead := sr\<rparr>, []))"
  "handle cr (ValidatorSetsKnown m) = (\<lambda>s. Ok (s\<lparr>st_ValEpochMap := m\<rparr>, []))"
  by (rule ext, simp)+

context state_contract
begin

lemma handle_event_ok: "step_ok R (handle cr e)"
proof (cases e)
  case (GaugesRefreshed t)
  show ?thesis
  proof (rule step_okI)
    fix s s' c assume "handle cr e s = Ok (s', c)"
    then have "same_core s s'" "c = []"
      using GaugesRefreshed by (auto simp: RefreshVoteDelayMetrics_def go_simps same_core_def)
    then show "R s c s'" by (simp add: quiet)
  qed
qed (simp_all only: handle_eqs timeout_expiry_ok proposal_ok vote_message_ok timeout_message_ok round_recovery_ok
    no_endorsement_ok advance_message_ok blocksync_ok timer_ok, (rule quiet_ok; simp add: same_core_def)+)

lemma run_ok: "node_run cr s0 c s \<Longrightarrow> R s0 c s"
proof (induction rule: node_run.induct)
  case (step c s e s' c')
  from trans[OF step.IH step_okD[OF handle_event_ok step.hyps(2)]] show ?case .
qed (rule refl_ok)

end

section \<open>Calls of the pacemaker\<close>

text \<open>
  What every call of the pacemaker promises follows from what a certificate and a local timeout
  promise, when the bookkeeping of pending timeouts and the phase do not matter.
\<close>

locale pacemaker_contract =
  fixes P :: "Pacemaker \<times> Safety \<Rightarrow> PacemakerCommand list \<Rightarrow> Pacemaker \<times> Safety \<Rightarrow> bool"
  assumes pm_quiet: "pk_highCertificate p' = pk_highCertificate p \<Longrightarrow> P (p, x) [] (p', x)"
    and pm_trans: "P a pcs b \<Longrightarrow> P b pcs' d \<Longrightarrow> P a (pcs @ pcs') d"
    and pm_certificate: "(Pacemaker_ProcessCertificate em rc (p, x) :: (NeedStatesync, _) go) = Ok ((p', x'), pcs)
      \<Longrightarrow> P (p, x) pcs (p', x')"
    and pm_timeout: "(localTimeoutRound p x :: (NeedStatesync, _) go) = Ok (x', pcs) \<Longrightarrow> P (p, x) pcs (p, x')"
begin

lemma pm_before: "pk_highCertificate q = pk_highCertificate p \<Longrightarrow> P (q, x) pcs b \<Longrightarrow> P (p, x) pcs b"
  using pm_trans[OF pm_quiet, of q p x pcs b] by simp

lemma pm_after: "P a pcs (p, x) \<Longrightarrow> pk_highCertificate q = pk_highCertificate p \<Longrightarrow> P a pcs (q, x)"
  using pm_trans[OF _ pm_quiet, of a pcs p x q] by simp

lemma pm_honest:
  assumes "(honest_timeout vs (p, x) :: (NeedStatesync, _) go) = Ok ((p', x'), pcs)"
  shows "P (p, x) pcs (p', x')"
  using assms unfolding honest_timeout_def
  by (auto simp: go_simps pm_quiet split: if_splits go.splits bool.splits dest!: pm_timeout[of p x] intro: pm_after)

lemma pm_loop:
  assumes "(remote_timeout_loop n cr em vs m ti (p, x) pcs :: (NeedStatesync, _) go) = Ok ((p', x'), pcs')"
  shows "\<exists>cs. pcs' = pcs @ cs \<and> P (p, x) cs (p', x')"
  using assms
proof (induction n arbitrary: p)
  case (Suc n)
  show ?case
  proof (cases "pk_phase p = phaseOne \<and> HasSuperMajorityVotes vs (pendingNodeIds p) = Ok True")
    case False
    then have "p' = p \<and> x' = x \<and> pcs' = pcs"
      using Suc.prems by (cases "pk_phase p"; cases "HasSuperMajorityVotes vs (pendingNodeIds p)") simp_all
    then show ?thesis by (simp add: pm_quiet)
  next
    case True
    note step = Suc.prems[unfolded remote_timeout_loop.simps pending_tms_def[symmetric]]
    show ?thesis
    proof (cases "NewTimeoutCertificate cr (ti_Epoch ti) (ti_Round ti) (pending_tms p) m")
      case (Ok tc)
      with step True obtain cs where
        "(Pacemaker_ProcessCertificate em (RC_TC tc) (p, x) :: (NeedStatesync, _) go) = Ok ((p', x'), cs)" "pcs' = pcs @ cs"
        by (auto simp: go_simps split: if_splits)
      then show ?thesis by (intro exI[of _ cs] conjI pm_certificate)
    next
      case (Err e)
      then obtain bad where "e = InvalidSignaturesCreate bad" using step True by (cases e) simp_all
      with Err step True have "(remote_timeout_loop n cr em vs m ti
          (p\<lparr>pk_invalidTimeoutSenders := pk_invalidTimeoutSenders p \<union> fst ` set bad,
             pk_pendingTimeouts := filter (\<lambda>(k, pt). k \<notin> fst ` set bad) (pk_pendingTimeouts p)\<rparr>, x) pcs
          :: (NeedStatesync, _) go) = Ok ((p', x'), pcs')" by simp
      from Suc.IH[OF this] obtain cs where "pcs' = pcs @ cs \<and> P (p, x) cs (p', x')" using pm_before[rotated] by fastforce
      then show ?thesis ..
    qed (use step True in simp_all)
  qed
qed simp

lemma pm_remote:
  assumes "(ProcessRemoteTimeout cr em vs m author tm (p, x) :: (NeedStatesync, _) go) = Ok ((p', x'), pcs)"
  shows "P (p, x) pcs (p', x')"
proof -
  consider "p' = p" "x' = x" "pcs = []" | q y cs where
    "(honest_timeout vs (with_timeout author tm p, x) :: (NeedStatesync, _) go) = Ok ((q, y), cs)"
    "(remote_timeout_loop (Suc (length (pk_pendingTimeouts q))) cr em vs m (tm_TmInfo tm) (q, y) cs :: (NeedStatesync, _) go)
       = Ok ((p', x'), pcs)"
    using assms unfolding ProcessRemoteTimeout_def by (auto simp: go_simps Let_def split: if_splits)
  then show ?thesis
  proof cases
    case 2
    have h: "P (p, x) cs (q, y)" by (rule pm_before[OF _ pm_honest[OF 2(1)]]) simp
    from pm_loop[OF 2(2)] obtain cs' where "pcs = cs @ cs'" "P (q, y) cs' (p', x')" by blast
    then show ?thesis using pm_trans[OF h] by simp
  qed (simp add: pm_quiet)
qed

lemma pm_local:
  assumes "(ProcessLocalTimeout (p, x) :: (NeedStatesync, _) go) = Ok ((p', x'), pcs)"
  shows "P (p, x) pcs (p', x')"
proof -
  from assms have "(localTimeoutRound (p\<lparr>pk_phase := phaseOne\<rparr>) x :: (NeedStatesync, _) go) = Ok (x', pcs)" "p' = p\<lparr>pk_phase := phaseOne\<rparr>"
    unfolding ProcessLocalTimeout_def by (auto simp: Let_def go_simps)
  then show ?thesis using pm_before[OF _ pm_timeout, of "p\<lparr>pk_phase := phaseOne\<rparr>" p] by simp
qed

end

section \<open>What the node signs\<close>

fun msg_votes :: "crypto \<Rightarrow> ProtocolMessage \<Rightarrow> (round \<times> block_id) list" where
  "msg_votes cr (PMVote m) = [(v_Round (vm_Vote m), v_ID (vm_Vote m))]"
| "msg_votes cr (PMTimeout m) = (case tm_HighExtend m of
     HEV_Tip tip (Some _) \<Rightarrow> [(ti_Round (tm_TmInfo m), header_GetId cr (tip_BlockHeader tip))] | _ \<Rightarrow> [])"
| "msg_votes cr _ = []"

fun cmd_votes :: "crypto \<Rightarrow> Command \<Rightarrow> (round \<times> block_id) list" where
  "cmd_votes cr (PublishCmd t m) = msg_votes cr (cm_Message (uv_Obj (vf_Message m)))"
| "cmd_votes cr _ = []"

fun msg_proposals :: "ProtocolMessage \<Rightarrow> round list" where
  "msg_proposals (PMProposal m) = [pm_ProposalRound m]"
| "msg_proposals _ = []"

fun cmd_proposals :: "Command \<Rightarrow> round list" where
  "cmd_proposals (PublishCmd t m) = msg_proposals (cm_Message (uv_Obj (vf_Message m)))"
| "cmd_proposals (CreateProposalCmd p) = [pr_Round p]"
| "cmd_proposals _ = []"

fun msg_noEndorsements :: "ProtocolMessage \<Rightarrow> round list" where
  "msg_noEndorsements (PMNoEndorsement m) = [ne_Round (nm_Msg m)]"
| "msg_noEndorsements _ = []"

fun cmd_noEndorsements :: "Command \<Rightarrow> round list" where
  "cmd_noEndorsements (PublishCmd t m) = msg_noEndorsements (cm_Message (uv_Obj (vf_Message m)))"
| "cmd_noEndorsements _ = []"

abbreviation votes_in :: "crypto \<Rightarrow> Command list \<Rightarrow> (round \<times> block_id) set" where
  "votes_in cr c \<equiv> set (concat (map (cmd_votes cr) c))"

abbreviation proposals_in :: "Command list \<Rightarrow> round list" where
  "proposals_in c \<equiv> concat (map cmd_proposals c)"

abbreviation noEndorsements_in :: "Command list \<Rightarrow> round list" where
  "noEndorsements_in c \<equiv> concat (map cmd_noEndorsements c)"

lemma quiet_msg_signs: "quiet_msg m \<Longrightarrow> msg_votes cr m = [] \<and> msg_proposals m = [] \<and> msg_noEndorsements m = []"
  by (cases m) simp_all

lemma quiet_cmd_signs: "quiet_cmd c \<Longrightarrow> cmd_votes cr c = [] \<and> cmd_proposals c = [] \<and> cmd_noEndorsements c = []"
  by (cases c) (auto dest: quiet_msg_signs)

lemma quiet_signs:
  assumes "list_all quiet_cmd c"
  shows "votes_in cr c = {}" "proposals_in c = []" "noEndorsements_in c = []"
  using assms by (induction c) (auto dest: quiet_cmd_signs)

text \<open>A vote waiting for its timer has been recorded by the safety state.\<close>

definition sched_ok :: "State \<Rightarrow> signed \<Rightarrow> bool" where
  "sched_ok s g \<longleftrightarrow> (\<forall>v. cs_ScheduledVote (st_Consensus s) = Some (VoteReady v) \<longrightarrow> (v_Round v, v_ID v) \<in> signed_votes g)"

text \<open>From one ghost log to another by steps of the safety state, with what was signed on the way.\<close>

definition log_step :: "crypto \<Rightarrow> Safety \<times> signed \<Rightarrow> (round \<times> block_id) set \<Rightarrow> round list \<Rightarrow> round list
    \<Rightarrow> Safety \<times> signed \<Rightarrow> bool" where
  "log_step cr x V ps ns y \<longleftrightarrow> (safety_step cr)\<^sup>*\<^sup>* x y \<and> signed_votes (snd x) \<union> V \<subseteq> signed_votes (snd y)
     \<and> sg_proposals (snd y) = rev ps @ sg_proposals (snd x)
     \<and> map fst (sg_noEndorsements (snd y)) = rev ns @ map fst (sg_noEndorsements (snd x))"

lemma log_step_refl: "log_step cr x {} [] [] x"
  by (simp add: log_step_def)

lemma log_step_trans:
  "log_step cr x V ps ns y \<Longrightarrow> log_step cr y V' ps' ns' z \<Longrightarrow> log_step cr x (V \<union> V') (ps @ ps') (ns @ ns') z"
  unfolding log_step_def by auto

lemma log_step_one:
  assumes "safety_step cr x y" "signed_votes (snd x) \<union> V \<subseteq> signed_votes (snd y)"
    "sg_proposals (snd y) = rev ps @ sg_proposals (snd x)"
    "map fst (sg_noEndorsements (snd y)) = rev ns @ map fst (sg_noEndorsements (snd x))"
  shows "log_step cr x V ps ns y"
  using assms by (auto simp: log_step_def)

definition signing :: "crypto \<Rightarrow> State \<Rightarrow> Command list \<Rightarrow> State \<Rightarrow> bool" where
  "signing cr s c s' \<longleftrightarrow> (\<forall>g. sched_ok s g \<longrightarrow> (\<exists>g'. sched_ok s' g'
     \<and> log_step cr (st_safety s, g) (votes_in cr c) (proposals_in c) (noEndorsements_in c) (st_safety s', g')))"

lemma signing_refl: "signing cr s [] s"
  using log_step_refl by (fastforce simp: signing_def)

lemma signing_trans:
  assumes "signing cr s c s'" "signing cr s' c' s''"
  shows "signing cr s (c @ c') s''"
  unfolding signing_def
proof (intro allI impI)
  fix g assume "sched_ok s g"
  with assms(1) obtain g' where "sched_ok s' g'"
    and l: "log_step cr (st_safety s, g) (votes_in cr c) (proposals_in c) (noEndorsements_in c) (st_safety s', g')"
    unfolding signing_def by blast
  with assms(2) obtain g'' where "sched_ok s'' g''"
    "log_step cr (st_safety s', g') (votes_in cr c') (proposals_in c') (noEndorsements_in c') (st_safety s'', g'')"
    unfolding signing_def by blast
  with log_step_trans[OF l this(2)] show "\<exists>g'. sched_ok s'' g' \<and> log_step cr (st_safety s, g) (votes_in cr (c @ c'))
    (proposals_in (c @ c')) (noEndorsements_in (c @ c')) (st_safety s'', g')" by auto
qed

text \<open>A call that keeps the scheduled vote and only adds to the log.\<close>

lemma sched_ok_mono:
  assumes "sched_ok s g" "signed_votes g \<subseteq> signed_votes g'"
    "cs_ScheduledVote (st_Consensus s') = cs_ScheduledVote (st_Consensus s)"
  shows "sched_ok s' g'"
  using assms unfolding sched_ok_def by auto

lemma signing_log:
  assumes "\<And>g. \<exists>g'. log_step cr (st_safety s, g) (votes_in cr c) (proposals_in c) (noEndorsements_in c) (st_safety s', g')"
    and "cs_ScheduledVote (st_Consensus s') = cs_ScheduledVote (st_Consensus s)"
  shows "signing cr s c s'"
  unfolding signing_def
proof (intro allI impI)
  fix g assume g: "sched_ok s g"
  obtain g' where l: "log_step cr (st_safety s, g) (votes_in cr c) (proposals_in c) (noEndorsements_in c) (st_safety s', g')"
    using assms(1) by blast
  have "sched_ok s' g'" using l by (intro sched_ok_mono[OF g _ assms(2)]) (auto simp: log_step_def)
  with l show "\<exists>g'. sched_ok s' g'
     \<and> log_step cr (st_safety s, g) (votes_in cr c) (proposals_in c) (noEndorsements_in c) (st_safety s', g')" by blast
qed

lemma signing_frame:
  assumes "st_safety s' = st_safety s" "cs_ScheduledVote (st_Consensus s') = cs_ScheduledVote (st_Consensus s)"
    "votes_in cr c = {}" "proposals_in c = []" "noEndorsements_in c = []"
  shows "signing cr s c s'"
proof (rule signing_log[OF _ assms(2)])
  show "\<exists>g'. log_step cr (st_safety s, g) (votes_in cr c) (proposals_in c) (noEndorsements_in c) (st_safety s', g')" for g
    unfolding assms(1,3-5) using log_step_refl by blast
qed

text \<open>The operations of the safety state as steps, whatever the type of errors around them.\<close>

lemma safety_ops_unit:
  "(Safety_Vote r tc t x :: ('e, _) go) = Ok y \<Longrightarrow> (Safety_Vote r tc t x :: (unit, _) go) = Ok y"
  "(Safety_NoEndorse r b x :: ('e, _) go) = Ok y \<Longrightarrow> (Safety_NoEndorse r b x :: (unit, _) go) = Ok y"
  "(Safety_Propose r x :: ('e, _) go) = Ok y \<Longrightarrow> (Safety_Propose r x :: (unit, _) go) = Ok y"
  "(Safety_RecoveryRequest r x :: ('e, _) go) = Ok y \<Longrightarrow> (Safety_RecoveryRequest r x :: (unit, _) go) = Ok y"
  "(Safety_Timeout r x :: ('e, _) go) = Ok z \<Longrightarrow> (Safety_Timeout r x :: (unit, _) go) = Ok z"
  by (auto simp: Safety_Vote_def Safety_NoEndorse_def Safety_Propose_def Safety_RecoveryRequest_def
      Safety_Timeout_def Let_def split: if_splits)

lemma evictHandled_unit:
  "(evictHandled h o' :: ('e, _) go) = Ok z \<Longrightarrow> (evictHandled h o' :: ('f, _) go) = Ok z"
  by (induction h o' rule: evictHandled.induct) (auto split: if_splits)

lemma HandleProposal_unit:
  assumes "(HandleProposal r x :: ('e, _) go) = Ok y"
  shows "(HandleProposal r x :: (unit, _) go) = Ok y"
proof -
  from assms obtain h o' where e: "(evictHandled (r # sf_handledProposals x) (sf_handledProposalsOrder x @ [r]) :: ('e, _) go) = Ok (h, o')"
    and y: "IsSafeToHandleProposal r x" "y = x\<lparr>sf_handledProposals := h, sf_handledProposalsOrder := o'\<rparr>"
    by (auto simp: HandleProposal_def go_simps split: if_splits)
  from evictHandled_unit[OF e, where ?'f = unit] y show ?thesis by (simp add: HandleProposal_def)
qed

fun pm_votes :: "crypto \<Rightarrow> PacemakerCommand \<Rightarrow> (round \<times> block_id) list" where
  "pm_votes cr (CmdPrepareTimeout ti (HE_Tip t) safe lrc) =
     (if safe then [(ti_Round ti, header_GetId cr (tip_BlockHeader t))] else [])"
| "pm_votes cr _ = []"

lemma FromPacemakerCommand_signs:
  "concat (map (cmd_votes cr) (FromPacemakerCommand cr k ck v pc)) = pm_votes cr pc"
  "proposals_in (FromPacemakerCommand cr k ck v pc) = []"
  "noEndorsements_in (FromPacemakerCommand cr k ck v pc) = []"
  by (cases "(cr, pc)" rule: pm_votes.cases;
      simp add: Sign_def NewTimeoutMessage_def NewTimeout_def Let_def)+

lemma FromPacemakerCommands_sign:
  "votes_in cr (concat (map (FromPacemakerCommand cr k ck v) pcs)) = set (concat (map (pm_votes cr) pcs))"
  "proposals_in (concat (map (FromPacemakerCommand cr k ck v) pcs)) = []"
  "noEndorsements_in (concat (map (FromPacemakerCommand cr k ck v) pcs)) = []"
proof (induction pcs)
  case (Cons pc pcs)
  note f = FromPacemakerCommand_signs[of cr k ck v pc]
  {
    case 1
    then show ?case using Cons(1) unfolding list.map concat.simps map_append concat_append f(1) set_append by simp
  next
    case 2
    then show ?case using Cons(2) unfolding list.map concat.simps map_append concat_append f(2) by simp
  next
    case 3
    then show ?case using Cons(3) unfolding list.map concat.simps map_append concat_append f(3) by simp
  }
qed simp_all

text \<open>A call of the pacemaker signs at most the votes in the timeouts it prepares.\<close>

definition pm_signs :: "crypto \<Rightarrow> Safety \<Rightarrow> PacemakerCommand list \<Rightarrow> Safety \<Rightarrow> bool" where
  "pm_signs cr x pcs x' \<longleftrightarrow> (\<forall>g. \<exists>g'. log_step cr (x, g) (set (concat (map (pm_votes cr) pcs))) [] [] (x', g'))"

lemma pm_signs_refl: "concat (map (pm_votes cr) pcs) = [] \<Longrightarrow> pm_signs cr x pcs x"
  using log_step_refl by (fastforce simp: pm_signs_def)

lemma pm_signs_trans: "pm_signs cr x pcs y \<Longrightarrow> pm_signs cr y pcs' z \<Longrightarrow> pm_signs cr x (pcs @ pcs') z"
  unfolding pm_signs_def using log_step_trans by fastforce

interpretation pm: pacemaker_contract "\<lambda>a pcs b. pm_signs cr (snd a) pcs (snd b)" for cr
proof unfold_locales
  fix em rc p x p' x' pcs
  assume "(Pacemaker_ProcessCertificate em rc (p, x) :: (NeedStatesync, _) go) = Ok ((p', x'), pcs)"
  from Pacemaker_ProcessCertificate_Ok[OF this]
  have "pm_signs cr x pcs x'"
  proof (elim disjE conjE)
    assume "x' = Safety_ProcessCertificate rc x" "pcs = [CmdEnterRound (pk_currentEpoch p') (GetCurrentRound p') rc,
      CmdSchedule (GetCurrentRound p') (getRoundTimer p' (GetCurrentRound p'))]"
    then have "log_step cr (x, g) (set (concat (map (pm_votes cr) pcs))) [] [] (x', g)" for g
      by (intro log_step_one) (auto intro: safety_step.certificate)
    then show ?thesis unfolding pm_signs_def by blast
  qed (simp add: pm_signs_refl)
  then show "pm_signs cr (snd (p, x)) pcs (snd (p', x'))" by simp
next
  fix p :: Pacemaker and x x' pcs
  assume t: "(localTimeoutRound p x :: (NeedStatesync, _) go) = Ok (x', pcs)"
  let ?r = "GetCurrentRound p"
  obtain safe where s: "(Safety_Timeout ?r x :: (NeedStatesync, _) go) = Ok (x', safe)"
    using t by (auto simp: localTimeoutRound_def Let_def go_simps)
  have "concat (map (pm_votes cr) pcs) = embedded_vote cr ?r safe x'"
    using t by (auto simp: localTimeoutRound_def Let_def s embedded_vote_def split: option.splits)
  then have "log_step cr (x, g) (set (concat (map (pm_votes cr) pcs))) [] []
      (x', g\<lparr>sg_timeoutVotes := embedded_vote cr ?r safe x' @ sg_timeoutVotes g\<rparr>)" for g
    by (intro log_step_one[OF safety_step.local_timeout[OF safety_ops_unit(5)[OF s]]]) auto
  then have "pm_signs cr x pcs x'" unfolding pm_signs_def by blast
  then show "pm_signs cr (snd (p, x)) pcs (snd (p, x'))" by simp
qed (auto simp: pm_signs_refl intro: pm_signs_trans)

lemma signing_pacemaker_call:
  assumes "pacemaker_call cr f s = Ok (s', c)"
    and "\<And>p x pcs. f (st_pacemaker s, st_safety s) = Ok ((p, x), pcs) \<Longrightarrow> pm_signs cr (st_safety s) pcs x"
  shows "signing cr s c s'"
proof -
  from assms(1) obtain p x pcs where f: "f (st_pacemaker s, st_safety s) = Ok ((p, x), pcs)"
    and s': "s' = upd_cs (\<lambda>c. c\<lparr>cs_Pacemaker := p, cs_Safety := x\<rparr>) s"
    and c: "c = concat (map (FromPacemakerCommand cr (st_Keypair s) (st_CertKeypair s) (st_Version s)) pcs)"
    by (auto simp: pacemaker_call_def go_simps)
  have "\<exists>g'. log_step cr (st_safety s, g) (votes_in cr c) (proposals_in c) (noEndorsements_in c) (st_safety s', g')" for g
    using assms(2)[OF f] unfolding pm_signs_def c FromPacemakerCommands_sign s' by simp
  then show ?thesis by (rule signing_log) (simp add: s')
qed

text \<open>Votes: the safety state records the vote before it is sent or left to the timer.\<close>

lemma sendVote_Ok:
  assumes "sendVoteAndResetTimer cr v s = Ok (s', c)"
  shows "st_safety s' = st_safety s" "cs_ScheduledVote (st_Consensus s') = None"
    "votes_in cr c = {(v_Round v, v_ID v)}" "proposals_in c = []" "noEndorsements_in c = []"
  using assms
  by (auto simp: sendVoteAndResetTimer_def Let_def go_simps NewVoteMessage_def split: if_splits)

lemma signing_send:
  assumes "sendVoteAndResetTimer cr v s = Ok (s', c)"
    and "(v_Round v, v_ID v) \<in> signed_votes g"
  shows "sched_ok s' g" "log_step cr (st_safety s, g) (votes_in cr c) (proposals_in c) (noEndorsements_in c) (st_safety s', g)"
  using sendVote_Ok[OF assms(1)] assms(2) by (simp_all add: sched_ok_def log_step_def)

lemma schedule_vote_Ok:
  assumes "schedule_vote cr v r s = Ok (s', c)"
  shows "sendVoteAndResetTimer cr v s = Ok (s', c)
    \<or> (s' = upd_cs (cs_ScheduledVote_update (\<lambda>_. Some (VoteReady v))) s \<and> c = [])"
proof (cases "cs_ScheduledVote (st_Consensus s)")
  case None
  with assms show ?thesis by (simp add: schedule_vote_def split: if_split_asm)
next
  case (Some st)
  with assms show ?thesis by (cases st) (simp_all add: schedule_vote_def split: if_split_asm)
qed

lemma schedule_vote_signs:
  assumes "schedule_vote cr v r s = Ok (s', c)" and "(v_Round v, v_ID v) \<in> signed_votes g"
  shows "sched_ok s' g \<and> log_step cr (st_safety s, g) (votes_in cr c) (proposals_in c) (noEndorsements_in c) (st_safety s', g)"
proof -
  consider "sendVoteAndResetTimer cr v s = Ok (s', c)"
    | "s' = upd_cs (cs_ScheduledVote_update (\<lambda>_. Some (VoteReady v))) s" "c = []"
    using schedule_vote_Ok[OF assms(1)] by blast
  then show ?thesis
  proof cases
    case 1
    then show ?thesis using signing_send[OF _ assms(2)] by blast
  next
    case 2
    then show ?thesis using assms(2) log_step_refl by (auto simp: sched_ok_def)
  qed
qed

lemma maybeRecord_Ok:
  assumes "maybeRecordVoteDelayMetrics a b s = Ok (s', c)"
  shows "st_safety s' = st_safety s" "c = []"
  using assms
  by (auto simp: maybeRecordVoteDelayMetrics_def Let_def go_simps split: option.split_asm if_split_asm)

text \<open>What a vote that is cast has done: a step of the safety state, then the vote is sent or scheduled.\<close>

lemma tryVote_Ok:
  assumes "tryVote cr tc tip s = Ok (s', c)"
  shows "(s' = s \<and> c = []) \<or> (\<exists>tcTip x r s1.
    (Safety_Vote (st_round s) tcTip tip (st_safety s) :: (NeedStatesync, _) go) = Ok x \<and> st_safety s1 = x
    \<and> schedule_vote cr \<lparr>v_ID = header_GetId cr (tip_BlockHeader tip), v_Round = st_round s, v_Epoch = st_epoch s\<rparr> r s1 = Ok (s', c))"
proof (cases "s' = s \<and> c = []")
  case False
  let ?h = "tip_BlockHeader tip" and ?v = "\<lparr>v_ID = header_GetId cr (tip_BlockHeader tip), v_Round = st_round s, v_Epoch = st_epoch s\<rparr>"
  from assms False obtain ts r where q: "GetTimestampOfQc (st_tree s) (bh_QC ?h) = Some ts"
    "GetBlockRoundOfQc (st_tree s) (bh_QC ?h) = Some r"
    by (auto simp: tryVote_def Let_def split: option.split_asm)
  from assms False obtain tcTip x where v: "(Safety_Vote (st_round s) tcTip tip (st_safety s) :: (NeedStatesync, _) go) = Ok x"
    and r: "run_steps [maybeRecordVoteDelayMetrics (st_round s) r, schedule_vote cr ?v r] (set_safety x s) = Ok (s', c)"
    by (auto simp: tryVote_def Let_def q go_bind_eq_Ok simp del: run_steps.simps split: if_split_asm)
  from r obtain s1 c1 c2 where s1: "maybeRecordVoteDelayMetrics (st_round s) r (set_safety x s) = Ok (s1, c1)"
    "schedule_vote cr ?v r s1 = Ok (s', c2)" "c = c1 @ c2"
    unfolding run_steps_two by blast
  note m = maybeRecord_Ok[OF s1(1)]
  have "st_safety s1 = x" using m(1) by simp
  moreover have "schedule_vote cr ?v r s1 = Ok (s', c)" using s1 m(2) by simp
  ultimately show ?thesis using v by blast
qed simp

lemma signing_vote:
  assumes "tryVote cr tc tip s = Ok (s', c)"
  shows "signing cr s c s'"
  using tryVote_Ok[OF assms]
proof (elim disjE conjE exE)
  fix tcTip x r s1
  assume v: "(Safety_Vote (st_round s) tcTip tip (st_safety s) :: (NeedStatesync, _) go) = Ok x" and s1: "st_safety s1 = x"
    and sch: "schedule_vote cr \<lparr>v_ID = header_GetId cr (tip_BlockHeader tip), v_Round = st_round s, v_Epoch = st_epoch s\<rparr> r s1 = Ok (s', c)"
  show ?thesis unfolding signing_def
  proof (intro allI impI)
    fix g assume "sched_ok s g"
    let ?g = "g\<lparr>sg_votes := (st_round s, tcTip, header_GetId cr (tip_BlockHeader tip)) # sg_votes g\<rparr>"
    have "log_step cr (st_safety s, g) {} [] [] (st_safety s1, ?g)"
      unfolding s1 by (rule log_step_one[OF safety_step.vote[OF safety_ops_unit(1)[OF v]]]) auto
    moreover have "sched_ok s' ?g"
      "log_step cr (st_safety s1, ?g) (votes_in cr c) (proposals_in c) (noEndorsements_in c) (st_safety s', ?g)"
      using schedule_vote_signs[OF sch, of ?g] by simp_all
    ultimately show "\<exists>g'. sched_ok s' g'
      \<and> log_step cr (st_safety s, g) (votes_in cr c) (proposals_in c) (noEndorsements_in c) (st_safety s', g')"
      using log_step_trans by fastforce
  qed
qed (simp add: signing_refl)

lemma signing_timer:
  assumes "HandleVoteTimer cr r s = Ok (s', c)"
  shows "signing cr s c s'"
proof (cases "\<exists>v. cs_ScheduledVote (st_Consensus s) = Some (VoteReady v)")
  case True
  then obtain v where v: "cs_ScheduledVote (st_Consensus s) = Some (VoteReady v)" by blast
  with assms have send: "sendVoteAndResetTimer cr v s = Ok (s', c)" by (simp add: HandleVoteTimer_def)
  show ?thesis unfolding signing_def
    using signing_send[OF send] v by (auto simp: sched_ok_def)
next
  case False
  then have "s' = upd_cs (cs_ScheduledVote_update (\<lambda>_. Some VoteTimerFired)) s" "c = []"
    using assms by (auto simp: HandleVoteTimer_def split: option.split_asm OutgoingVoteStatus.split_asm)
  then show ?thesis unfolding signing_def using log_step_refl by (auto simp: sched_ok_def)
qed

text \<open>No-endorsements, proposals and recovery requests.\<close>

lemma log_ops:
  "(Safety_NoEndorse r i x :: ('e, _) go) = Ok y \<Longrightarrow>
     log_step cr (x, g) {} [] [r] (y, g\<lparr>sg_noEndorsements := (r, i) # sg_noEndorsements g\<rparr>)"
  "(Safety_Propose r x :: ('e, _) go) = Ok y \<Longrightarrow>
     log_step cr (x, g) {} [r] [] (y, g\<lparr>sg_proposals := r # sg_proposals g\<rparr>)"
  "(Safety_RecoveryRequest r x :: ('e, _) go) = Ok y \<Longrightarrow> log_step cr (x, g) {} [] [] (y, g)"
  "(HandleProposal r x :: ('e, _) go) = Ok y \<Longrightarrow> log_step cr (x, g) {} [] [] (y, g)"
  by (rule log_step_one[OF safety_step.no_endorse[OF safety_ops_unit(2)]], assumption; simp)
    (rule log_step_one[OF safety_step.propose[OF safety_ops_unit(3)]]
      log_step_one[OF safety_step.recovery[OF safety_ops_unit(4)]]
      log_step_one[OF safety_step.handle_proposal[OF HandleProposal_unit]], assumption; simp)+

lemma signing_safety:
  assumes "\<And>g. log_step cr (st_safety s, g) (votes_in cr c) (proposals_in c) (noEndorsements_in c) (x, f g)"
  shows "signing cr s c (set_safety x s)"
  using assms by (intro signing_log) auto

lemma signing_recovery:
  assumes "answer_recovery cr author rr e vs s = Ok (s', c)"
  shows "signing cr s c s'"
proof (cases "s' = s \<and> c = []")
  case False
  with assms obtain i x m t where n: "(Safety_NoEndorse (rm_Round rr) i (st_safety s) :: (NeedStatesync, _) go) = Ok x"
    and s': "s' = set_safety x s" and c: "c = [PublishCmd t (signed_msg cr s (PMNoEndorsement m))]" and m: "ne_Round (nm_Msg m) = rm_Round rr"
    by (auto simp: answer_recovery_def Let_def go_bind_eq_Ok NewNoEndorsementMessage_def
        split: if_split_asm HighExtend.split_asm)
  show ?thesis unfolding s' by (rule signing_safety) (use log_ops(1)[OF n] c m in simp)
qed (simp add: signing_refl)

lemma signing_propose_tip:
  assumes "propose_tip cr (st_round s) tip tc s = Ok (s', c)"
  shows "signing cr s c s'"
proof (cases "s' = s \<and> c = []")
  case False
  note ne = False
  show ?thesis
  proof (cases "IsCoherent (st_tree s) (header_GetId cr (tip_BlockHeader tip))
      \<and> U128_Cmp (bh_TimestampNs (tip_BlockHeader tip)) (ts_localTimeNs (st_BlockTimestamp s)) < 0")
    case True
    with assms obtain x b where p: "(Safety_Propose (st_round s) (st_safety s) :: (NeedStatesync, _) go) = Ok x"
      and e: "s' = set_safety x s" "c = [PublishCmd (RaptorcastTarget (st_round s) (st_epoch s)) (signed_msg cr s (PMProposal
        \<lparr>pm_ProposalRound = st_round s, pm_ProposalEpoch = st_epoch s, pm_Tip = tip, pm_BlockBody = b, pm_LastRoundTC = tc\<rparr>))]"
      by (auto simp: propose_tip_def Let_def go_bind_eq_Ok)
    show ?thesis unfolding e(1) by (rule signing_safety) (use log_ops(2)[OF p] e(2) in simp)
  next
    case False
    then have "propose_tip cr (st_round s) tip tc s =
        (if \<not> IsSafeToRecoveryRequest (st_round s) (st_safety s) then Ok (s, []) else
         go_bind (Safety_RecoveryRequest (st_round s) (st_safety s)) (\<lambda>safety.
         go_bind (go_some tc ''nil pointer dereference'') (\<lambda>tc.
           Ok (set_safety safety s,
               [PublishCmd (BroadcastTarget (st_epoch s)) (signed_msg cr s (PMRoundRecovery
                  \<lparr>rm_Round = st_round s, rm_Epoch = st_epoch s, rm_TC = tc\<rparr>))]))))"
      unfolding propose_tip_def Let_def de_Morgan_conj by (rule if_P)
    note eq = assms[unfolded this]
    then have "IsSafeToRecoveryRequest (st_round s) (st_safety s)" using ne by (cases "IsSafeToRecoveryRequest (st_round s) (st_safety s)") simp_all
    with eq have "go_bind (Safety_RecoveryRequest (st_round s) (st_safety s)) (\<lambda>safety.
         go_bind (go_some tc ''nil pointer dereference'') (\<lambda>tc.
           Ok (set_safety safety s,
               [PublishCmd (BroadcastTarget (st_epoch s)) (signed_msg cr s (PMRoundRecovery
                  \<lparr>rm_Round = st_round s, rm_Epoch = st_epoch s, rm_TC = tc\<rparr>))]))) = (Ok (s', c) :: (NeedStatesync, _) go)" by (simp only: not_True_eq_False if_False)
    then obtain x where p: "(Safety_RecoveryRequest (st_round s) (st_safety s) :: (NeedStatesync, _) go) = Ok x"
      and r: "go_bind (go_some tc ''nil pointer dereference'') (\<lambda>tc.
           Ok (set_safety x s,
               [PublishCmd (BroadcastTarget (st_epoch s)) (signed_msg cr s (PMRoundRecovery
                  \<lparr>rm_Round = st_round s, rm_Epoch = st_epoch s, rm_TC = tc\<rparr>))])) = (Ok (s', c) :: (NeedStatesync, _) go)"
      unfolding go_bind_eq_Ok by blast
    from r obtain m where e: "s' = set_safety x s" "c = [PublishCmd (BroadcastTarget (st_epoch s)) (signed_msg cr s (PMRoundRecovery
        \<lparr>rm_Round = st_round s, rm_Epoch = st_epoch s, rm_TC = m\<rparr>))]" by (cases tc) (simp, metis Pair_inject go.inject(1) go_bind.simps(1) go_some_Some)
    show ?thesis unfolding e(1) by (rule signing_safety) (use log_ops(3)[OF p] e(2) in simp)
  qed
qed (simp add: signing_refl)

lemma propose_qc_Ok:
  assumes "propose_qc cr r e qc fresh tc s = Ok (s', c)"
  shows "(s' = s \<and> c = []) \<or> (\<exists>x p. (Safety_Propose r (st_safety s) :: (NeedStatesync, _) go) = Ok x
    \<and> s' = set_safety x s \<and> c = [CreateProposalCmd p] \<and> pr_Round p = r)"
proof (cases "IsCoherent (st_tree s) (qc_GetBlockId qc)")
  case True
  with assms obtain path blocks where "(GetBlocksOnPathFromRoot (st_tree s) (qc_GetBlockId qc) :: (NeedStatesync, _) go) = Ok path"
    "path = Some blocks"
    by (auto simp: propose_qc_def go_bind_eq_Ok go_some_eq_Ok)
  note p = assms[unfolded propose_qc_def Let_def this(1) go_bind.simps this(2) go_some_Some]
  obtain n ts where n: "(if blocks \<noteq> [] then
               (block_SeqNum (last blocks) + 1,
                GetValidBlockTimestamp (st_BlockTimestamp s) (bh_TimestampNs (fb_Header (last blocks))))
             else (ri_SeqNum (bt_root (st_tree s)) + 1,
                   GetValidBlockTimestamp (st_BlockTimestamp s) (ri_TimestampNs (bt_root (st_tree s))))) = (n, ts)"
    by fastforce
  show ?thesis
  proof (cases "GetExpectedExecutionResults cr (st_BlockPolicy s) n (Some blocks) (st_StateRead s)")
    case (Ok res)
    with p[unfolded n] True show ?thesis by (auto simp: go_bind_eq_Ok)
  qed (use p[unfolded n] True in simp_all)
qed (use assms in \<open>simp add: propose_qc_def\<close>)

lemma signing_propose_qc:
  assumes "propose_qc cr (st_round s) e qc fresh tc s = Ok (s', c)"
  shows "signing cr s c s'"
  using propose_qc_Ok[OF assms]
proof (elim disjE exE conjE)
  fix x p assume p: "(Safety_Propose (st_round s) (st_safety s) :: (NeedStatesync, _) go) = Ok x"
    and e: "s' = set_safety x s" "c = [CreateProposalCmd p]" "pr_Round p = st_round s"
  show ?thesis unfolding e(1) by (rule signing_safety) (use log_ops(2)[OF p] e(2,3) in simp)
qed (simp add: signing_refl)

lemma signing_commit:
  assumes "tryCommit cr qc s = Ok (s', c)"
  shows "signing cr s c s'"
  using tryCommit_Ok[OF assms]
proof (elim disjE exE conjE)
  fix i t bs assume "run_steps (map (commit_block cr) bs) (set_tree t s) = Ok (s', c)"
  from commit_blocks_Ok[OF this] show ?thesis
    by (auto intro!: signing_frame simp: comp_def)
qed (simp add: signing_refl)

interpretation signs: state_contract "signing cr" cr for cr
proof unfold_locales
  show "signing cr s c s'" if "same_core s s'" "list_all quiet_cmd c" for s s' c
    using that quiet_signs[OF that(2)] by (intro signing_frame) (simp_all add: same_core_def)
  show "signing cr s [] (set_safety x s)" if "(HandleProposal r (st_safety s) :: (NeedStatesync, _) go) = Ok x" for r s x
    by (rule signing_safety) (use log_ops(4)[OF that] in simp)
qed (auto simp: step_ok_def add_block_def intro: signing_refl signing_trans signing_commit signing_vote signing_timer
    signing_recovery signing_propose_tip signing_propose_qc signing_frame signing_pacemaker_call
    pm.pm_certificate[simplified] pm.pm_local[simplified] pm.pm_remote[simplified])

lemma run_log:
  assumes "node_run cr s0 c s" and "cs_ScheduledVote (st_Consensus s0) = None"
  shows "\<exists>g. log_step cr (st_safety s0, nothing_signed) (votes_in cr c) (proposals_in c) (noEndorsements_in c) (st_safety s, g)"
  using signs.run_ok[OF assms(1)] assms(2) by (auto simp: signing_def sched_ok_def)

lemma safety_run_steps: "(safety_step cr)\<^sup>*\<^sup>* x y \<Longrightarrow> safety_run cr x \<Longrightarrow> safety_run cr y"
  by (induction rule: rtranclp_induct) (auto intro: safety_run.step)

lemma safety_life_steps: "(safety_step cr)\<^sup>*\<^sup>* x y \<Longrightarrow> safety_life cr x \<Longrightarrow> safety_life cr y"
  by (induction rule: rtranclp_induct) (auto intro: safety_life.live)

lemma NewConsensusState_fields:
  assumes "(NewConsensusState em config root hc :: ('e, _) go) = Ok cs"
  shows "cs_Safety cs = NewSafety hc None" "cs_ScheduledVote cs = None" "cs_PendingBlockTree cs = blocktree_New root"
    "pk_pendingTimeouts (cs_Pacemaker cs) = []" "pk_highCertificate (cs_Pacemaker cs) = hc"
  using assms by (auto simp: NewConsensusState_def NewPacemaker_def Let_def go_simps split: option.splits)

section \<open>Properties\<close>

text \<open>C1. A node never equivocates: over every run of the consensus state machine, whatever messages, timers and
  sync responses arrive in whatever order, all votes it publishes in a round, alone or inside a timeout,
  are for one block, and the rounds it proposes in and the rounds it refuses to endorse in are strictly increasing.\<close>

theorem node_never_equivocates:
  assumes "(NewConsensusState em config root hc :: (unit, ConsensusState) go) = Ok (st_Consensus s0)"
    and "node_run cr s0 c s"
  shows "(\<forall>r i j. (r, i) \<in> votes_in cr c \<longrightarrow> (r, j) \<in> votes_in cr c \<longrightarrow> i = j)
    \<and> sorted_wrt (<) (proposals_in c) \<and> sorted_wrt (<) (noEndorsements_in c)"
proof -
  note init = NewConsensusState_fields[OF assms(1)]
  from run_log[OF assms(2) init(2)] obtain g where l: "log_step cr (NewSafety hc None, nothing_signed) (votes_in cr c)
      (proposals_in c) (noEndorsements_in c) (st_safety s, g)"
    unfolding init(1) by blast
  then have st: "(safety_step cr)\<^sup>*\<^sup>* (NewSafety hc None, nothing_signed) (st_safety s, g)" by (simp add: log_step_def)
  have v: "votes_inv cr (st_safety s, g)" by (rule votes_inv_run[OF safety_run_steps[OF st safety_run.forkpoint]])
  have o: "life_inv (st_safety s, g)" by (rule life_inv_life[OF safety_life_steps[OF st safety_life.boot]])
  have g: "sg_proposals g = rev (proposals_in c)" "map fst (sg_noEndorsements g) = rev (noEndorsements_in c)"
    and sub: "votes_in cr c \<subseteq> signed_votes g"
    using l by (auto simp: log_step_def nothing_signed_def)
  have "\<forall>r i j. (r, i) \<in> signed_votes g \<longrightarrow> (r, j) \<in> signed_votes g \<longrightarrow> i = j"
    using v unfolding votes_inv_def by fastforce
  moreover have "sorted_wrt (<) (proposals_in c)" "sorted_wrt (<) (noEndorsements_in c)"
    using o unfolding life_inv_def prod.case g by (simp_all add: sorted_wrt_rev)
  ultimately show ?thesis using sub by blast
qed

definition example_config :: ConsensusConfig where
  "example_config = \<lparr>cc_ExecutionDelay = 3, cc_Delta = 1000, cc_ChainConfig = StaticConfig DefaultParams 100 10 5,
     cc_LiveToStatesyncThreshold = 600, cc_StatesyncToLiveThreshold = 60, cc_StartExecutionThreshold = 300,
     cc_TimestampLatencyEstimateNs = U128FromUint64 1\<rparr>"

definition example_consensus :: ConsensusState where
  "example_consensus = \<lparr>cs_PendingBlockTree = blocktree_New genesis_root, cs_VoteState = NewVoteState 1,
     cs_NoEndorsementState = NewNoEndorsementState 1, cs_ScheduledVote = None,
     cs_Safety = NewSafety (RC_QC GenesisQC) None,
     cs_Pacemaker = example_pacemaker\<lparr>pk_highCertificate := RC_QC GenesisQC, pk_localProcessing := 1000\<rparr>,
     cs_BlockSyncRequests = [], cs_CanonicalProposedTip = None, cs_VoteDelayTimerStart = None, cs_voteDelayMetrics = []\<rparr>"

text \<open>A node that leads every round.\<close>

definition example_state :: State where
  "example_state = \<lparr>st_Consensus = example_consensus, st_VoteDelayGauges = \<lparr>vg_P50Ms = 0, vg_P90Ms = 0, vg_P99Ms = 0\<rparr>,
     st_EpochManager = example_em, st_BlockPolicy = PassthruBlockPolicy, st_StateRead = example_state_read,
     st_ValEpochMap = (\<lambda>_. Some \<lparr>ee_valSet = example_set, ee_certPubkeys = example_mapping\<rparr>),
     st_Election = (\<lambda>_ _. Ok [1]), st_Version = 1, st_BlockValidator = (\<lambda>h b _ _. NewFullBlock example_crypto h b),
     st_BlockTimestamp = \<lparr>ts_localTimeNs = U128FromUint64 9, ts_maxDeltaNs = U128FromUint64 5, ts_latencyEstimateNs = U128FromUint64 1\<rparr>,
     st_Beneficiary = replicate 20 0, st_NodeId = [1], st_Config = example_config, st_Keypair = ([7], [1]), st_CertKeypair = [7]\<rparr>"

definition example_tc :: TimeoutCertificate where
  "example_tc = \<lparr>tc_Epoch = 1, tc_Round = 1, tc_TipRounds = [], tc_HighExtend = HE_QC GenesisQC\<rparr>"

lemma example_epochs:
  "v_Round (qc_Info GenesisQC) = 0" "v_ID (qc_Info GenesisQC) = GENESIS_BLOCK_ID" "GetEpoch example_em 1 = Some 1"
  "GetEpoch example_em 2 = Some 1"
  by code_simp+

lemma example_NewConsensusState:
  "(NewConsensusState example_em example_config genesis_root (RC_QC GenesisQC) :: ('e, _) go) = Ok (st_Consensus example_state)"
  by (simp add: NewConsensusState_def NewPacemaker_def Let_def example_config_def example_consensus_def example_state_def
      GetCurrentRound_def example_pacemaker_def example_epochs)

lemma empty_tree:
  "(GetCanonicalCoherentTip cr (blocktree_New root) qc :: ('e, _) go) = Ok (ri_BlockId root)"
  "(GetHighCommittableQc cr (blocktree_New root) :: ('e, _) go) = Ok None"
  "(TryUpdateCoherency cr policy sr i (blocktree_New root) :: ('e, _) go) = Ok (blocktree_New root, [])"
  "GetBlock (blocktree_New root) i = None"
  by (auto simp: GetCanonicalCoherentTip_def GetHighCommittableQc_def TryUpdateCoherency_def GetBlocksOnPathFromRoot_def
      blocktree_New_def GetBlock_def highestRoundCoherentDescendant_def high_qc_loop.simps descendant_loop.simps go_of_def descend_def)

lemma empty_tree_coherency:
  assumes "st_tree s = blocktree_New root"
  shows "tryUpdateCoherency cr i s = Ok (s, [])"
proof -
  have "set_tree (st_tree s) s = s" by simp
  with assms show ?thesis by (simp add: tryUpdateCoherency_def empty_tree updateProposedHead_def emit_def)
qed

lemmas example_state_simps = example_state_def example_consensus_def example_pacemaker_def example_tc_def example_epochs
  NewNoEndorsementState_def NewSafety_def blocktree_New_def

lemma example_advance:
  "\<exists>s c. handle example_crypto (AdvanceRoundReceived [2] \<lparr>am_LastRoundCertificate = RC_TC example_tc\<rparr>) example_state = Ok (s, c)
    \<and> proposals_in c = [2]"
  by (simp add: HandleAdvanceRoundMessage_def ProcessTC_def pacemaker_call_def Pacemaker_ProcessCertificate_def GetCurrentRound_def
      Let_def check_leader_def lookupLeader_def tryPropose_def validators_of_def GetValSet_def go_some_def requestTipIfMissing_def
      propose_extend_def propose_choice_def GetNec_def empty_tree_coherency[of _ genesis_root] propose_qc_def IsSafeToPropose_def
      Safety_Propose_def Safety_ProcessCertificate_def GetBlocksOnPathFromRoot_def IsCoherent_def qc_GetBlockId_def example_state_simps)

theorem node_never_equivocates_witness:
  "\<exists>c s. node_run example_crypto example_state c s \<and> proposals_in c = [2]
    \<and> (\<forall>r i j. (r, i) \<in> votes_in example_crypto c \<longrightarrow> (r, j) \<in> votes_in example_crypto c \<longrightarrow> i = j)
    \<and> sorted_wrt (<) (noEndorsements_in c)"
proof -
  obtain s c where h: "handle example_crypto (AdvanceRoundReceived [2] \<lparr>am_LastRoundCertificate = RC_TC example_tc\<rparr>) example_state = Ok (s, c)"
    and "proposals_in c = [2]"
    using example_advance by blast
  moreover have "node_run example_crypto example_state c s"
    using node_run.step[OF node_run.start h] by simp
  ultimately show ?thesis using node_never_equivocates[OF example_NewConsensusState] by blast
qed

end
