(* ===== verification/Finality.thy ===== *)
theory Finality
  imports Node
begin

text \<open>
  What the node finalizes and which rounds it enters, over every run of the consensus state machine:
  two more contracts of the handlers. Finalized blocks form one chain from the root the node started
  with, with consecutive sequence numbers where the block policy counts them, and epoch starts are only
  added. Rounds are entered in increasing order.
\<close>

section \<open>Commands\<close>

fun cmd_finalized :: "Command \<Rightarrow> ConsensusFullBlock list" where
  "cmd_finalized (CommitBlocksCmd (CommitFinalized b)) = [b]"
| "cmd_finalized _ = []"

fun cmd_entered :: "Command \<Rightarrow> round list" where
  "cmd_entered (EnterRoundCmd e r) = [r]"
| "cmd_entered _ = []"

abbreviation finalized_in :: "Command list \<Rightarrow> ConsensusFullBlock list" where
  "finalized_in c \<equiv> concat (map cmd_finalized c)"

abbreviation entered_in :: "Command list \<Rightarrow> round list" where
  "entered_in c \<equiv> concat (map cmd_entered c)"

lemma quiet_cmd_silent: "quiet_cmd c \<Longrightarrow> cmd_finalized c = [] \<and> cmd_entered c = []"
  by (cases c rule: quiet_cmd.cases) auto

lemma quiet_silent: "list_all quiet_cmd c \<Longrightarrow> finalized_in c = [] \<and> entered_in c = []"
  by (induction c) (auto dest: quiet_cmd_silent)

section \<open>Handlers that neither commit nor change the round\<close>

definition frame :: "State \<Rightarrow> Command list \<Rightarrow> State \<Rightarrow> bool" where
  "frame s c s' \<longleftrightarrow> st_tree s' = st_tree s \<and> st_pacemaker s' = st_pacemaker s \<and> st_BlockPolicy s' = st_BlockPolicy s
     \<and> st_EpochManager s' = st_EpochManager s \<and> finalized_in c = [] \<and> entered_in c = []"

interpretation framing: step_relation frame
  by unfold_locales (auto simp: frame_def)

lemma frame_safety: "step_ok frame (run_steps fs) \<Longrightarrow> step_ok frame (\<lambda>s. run_steps fs (set_safety x s))"
  by (rule step_okI) (auto simp: frame_def dest!: step_okD)

lemma frame_result: "(\<And>s. frame s (c s) (u s)) \<Longrightarrow> step_ok frame (\<lambda>s. Ok (u s, c s))"
  by (rule step_okI) auto

lemma frame_send: "step_ok frame (sendVoteAndResetTimer cr v)"
  unfolding sendVoteAndResetTimer_def[abs_def] by (intro framing.branch_ok frame_result) (auto simp: frame_def)

lemma frame_schedule: "step_ok frame (schedule_vote cr v r)"
  by (rule step_okI) (auto simp: frame_def dest!: schedule_vote_Ok step_okD[OF frame_send])

lemma frame_timer: "step_ok frame (HandleVoteTimer cr r)"
  by (rule step_okI)
    (auto simp: frame_def HandleVoteTimer_def split: option.split_asm OutgoingVoteStatus.split_asm dest!: step_okD[OF frame_send])

lemma frame_record: "step_ok frame (maybeRecordVoteDelayMetrics a b)"
  unfolding maybeRecordVoteDelayMetrics_def[abs_def] by (intro framing.branch_ok frame_result) (auto simp: frame_def)

lemma frame_vote: "step_ok frame (tryVote cr tc tip)"
  unfolding tryVote_def[abs_def]
  by (intro framing.branch_ok frame_safety frame_record frame_schedule)

lemma frame_recovery: "step_ok frame (answer_recovery cr author rr e vs)"
  unfolding answer_recovery_def[abs_def] by (intro framing.branch_ok frame_result) (auto simp: frame_def)

lemma frame_propose_tip: "step_ok frame (propose_tip cr r tip tc)"
  unfolding propose_tip_def[abs_def] by (intro framing.branch_ok frame_result) (auto simp: frame_def)

lemma frame_propose_qc: "step_ok frame (propose_qc cr r e qc fresh tc)"
  by (rule step_okI) (auto simp: frame_def dest!: propose_qc_Ok)

section \<open>Finalized blocks\<close>

text \<open>A chain of blocks from the block with one id to the block with another.\<close>

fun linked :: "crypto \<Rightarrow> block_id \<Rightarrow> ConsensusFullBlock list \<Rightarrow> block_id \<Rightarrow> bool" where
  "linked cr a [] b \<longleftrightarrow> a = b"
| "linked cr a (x # xs) b \<longleftrightarrow> qc_GetBlockId (bh_QC (fb_Header x)) = a \<and> linked cr (block_GetId cr x) xs b"

lemma linked_append: "linked cr a (xs @ ys) b \<longleftrightarrow> (\<exists>i. linked cr a xs i \<and> linked cr i ys b)"
  by (induction xs arbitrary: a) auto

fun consecutive :: "seqnum \<Rightarrow> seqnum list \<Rightarrow> seqnum \<Rightarrow> bool" where
  "consecutive n [] m \<longleftrightarrow> n = m"
| "consecutive n (x # xs) m \<longleftrightarrow> x = n + 1 \<and> consecutive x xs m"

lemma consecutive_append: "consecutive n (xs @ ys) m \<longleftrightarrow> (\<exists>i. consecutive n xs i \<and> consecutive i ys m)"
  by (induction xs arbitrary: n) auto

lemma consecutive_nth: "consecutive n xs m \<Longrightarrow> k < length xs \<Longrightarrow> xs ! k = n + 1 + of_nat k"
  by (induction xs arbitrary: n k) (auto simp: nth_Cons split: nat.splits)

lemma UpdateCommittedBlock_lastCommit:
  assumes "(UpdateCommittedBlock cr b p :: ('e, _) go) = Ok p'" and "policy_lastCommit p = Some n"
  shows "block_SeqNum b = n + 1" "policy_lastCommit p' = Some (n + 1)"
  using assms by (cases p; auto simp: Mock_UpdateCommittedBlock_def Let_def go_simps MockBlockPolicy.defs split: if_splits)+

text \<open>A committed boundary block starts the next epoch.\<close>

definition starts_epoch :: "EpochManager \<Rightarrow> ConsensusFullBlock \<Rightarrow> epoch \<Rightarrow> bool" where
  "starts_epoch em b e \<longleftrightarrow> (IsBoundaryBlock (block_SeqNum b) (em_EpochLength em) :: (unit, _) go) = Ok True
     \<and> (ToEpoch (block_SeqNum b) (em_EpochLength em) :: (unit, _) go) = Ok e"

definition schedules :: "EpochManager \<Rightarrow> ConsensusFullBlock list \<Rightarrow> EpochManager \<Rightarrow> bool" where
  "schedules em bs em' \<longleftrightarrow> em_EpochLength em' = em_EpochLength em \<and> em_EpochStartDelay em' = em_EpochStartDelay em
     \<and> em_epochStarts em \<subseteq>\<^sub>m em_epochStarts em'
     \<and> (\<forall>b\<in>set bs. \<forall>e. starts_epoch em b e \<longrightarrow> em_epochStarts em' (e + 1) = Some (block_Round b + em_EpochStartDelay em))"

lemma schedules_refl: "schedules em [] em"
  by (simp add: schedules_def)

lemma schedules_trans:
  assumes "schedules em bs em'" "schedules em' bs' em''"
  shows "schedules em (bs @ bs') em''"
proof -
  have "starts_epoch em' b e \<longleftrightarrow> starts_epoch em b e" for b e
    using assms(1) by (simp add: schedules_def starts_epoch_def)
  moreover have "em_epochStarts em \<subseteq>\<^sub>m em_epochStarts em''"
    using assms map_le_trans unfolding schedules_def by blast
  moreover have "em_epochStarts em'' e = Some r" if "em_epochStarts em' e = Some r" for e r
    using assms(2) that unfolding schedules_def map_le_def by (metis domI)
  ultimately show ?thesis
    using assms unfolding schedules_def by auto
qed

lemma ToEpoch_unit: "(ToEpoch n l :: ('e, _) go) = Ok e \<Longrightarrow> (ToEpoch n l :: ('f, _) go) = Ok e"
  "(IsBoundaryBlock n l :: ('e, _) go) = Ok b \<Longrightarrow> (IsBoundaryBlock n l :: ('f, _) go) = Ok b"
  by (auto simp: ToEpoch_def IsBoundaryBlock_def split: if_splits)

lemma ScheduleEpochStart_schedules:
  assumes "(ScheduleEpochStart (block_SeqNum b) (block_Round b) em :: ('e, _) go) = Ok em'"
  shows "schedules em [b] em'"
proof -
  from assms obtain x where x: "(IsBoundaryBlock (block_SeqNum b) (em_EpochLength em) :: ('e, _) go) = Ok x"
    by (auto simp: ScheduleEpochStart_def go_simps)
  note u = ToEpoch_unit(2)[OF x, where ?'f = unit]
  show ?thesis
  proof (cases x)
    case True
    with assms x obtain n where n: "(ToEpoch (block_SeqNum b) (em_EpochLength em) :: ('e, _) go) = Ok n"
      and i: "(insertEpochStart (n + 1) (block_Round b + em_EpochStartDelay em) em :: ('e, _) go) = Ok em'"
      by (auto simp: ScheduleEpochStart_def go_simps)
    from i show ?thesis
      by (auto simp: schedules_def starts_epoch_def ToEpoch_unit(1)[OF n, where ?'f = unit] insertEpochStart_def map_le_def
          split: option.splits if_splits)
  next
    case False
    with assms x u show ?thesis by (auto simp: ScheduleEpochStart_def schedules_def starts_epoch_def)
  qed
qed

section \<open>The block tree\<close>

abbreviation tree_keyed :: "crypto \<Rightarrow> BlockTree \<Rightarrow> bool" where
  "tree_keyed cr t \<equiv> keyed (\<lambda>e. block_GetId cr (te_ValidatedBlock e)) (bt_tree t)"

lemma bt_remove_keyed:
  assumes "bt_remove i t = Some (t', e)" and "tree_keyed cr t"
  shows "tree_keyed cr t'" "bt_root t' = bt_root t" "block_GetId cr (te_ValidatedBlock e) = i"
  using bt_remove_Some[OF assms(1)] keyed_mem[OF assms(2) map_of_SomeD, of i e] keyed_filter[OF assms(2)]
  by (auto simp: AList.delete_eq)

lemma prune_loop_linked:
  assumes "(prune_loop entry commit t :: ('e, _) go) = Ok (t', commit')" and "tree_keyed cr t"
  shows "\<exists>xs. commit' = commit @ xs \<and> linked cr (bt_rootId t) (rev xs) (block_GetId cr (te_ValidatedBlock entry))
    \<and> tree_keyed cr t' \<and> bt_root t' = bt_root t"
  using assms
proof (induction entry commit t rule: prune_loop.induct)
  case (1 entry commit t)
  have c: "te_IsCoherent entry" using "1.prems"(1) by (subst (asm) prune_loop.simps) (auto split: if_splits)
  show ?case
  proof (cases "te_Parent entry = bt_rootId t")
    case True
    then show ?thesis using "1.prems" c by (subst (asm) prune_loop.simps) (auto simp: Let_def)
  next
    case False
    with "1.prems"(1) c obtain t1 e1 where r: "bt_remove (te_Parent entry) t = Some (t1, e1)"
      and l: "(prune_loop e1 (commit @ [te_ValidatedBlock entry]) t1 :: ('e, _) go) = Ok (t', commit')"
      by (subst (asm) prune_loop.simps) (auto simp: Let_def split: option.splits)
    note k = bt_remove_keyed[OF r "1.prems"(2)]
    have "\<exists>xs. commit' = (commit @ [te_ValidatedBlock entry]) @ xs \<and> linked cr (bt_rootId t1) (rev xs) (block_GetId cr (te_ValidatedBlock e1))
        \<and> tree_keyed cr t' \<and> bt_root t' = bt_root t1"
      using "1.IH"[OF _ refl refl refl False r refl l k(1)] c by simp
    then obtain xs where "commit' = commit @ (te_ValidatedBlock entry # xs)" "linked cr (bt_rootId t) (rev xs) (te_Parent entry)"
      "tree_keyed cr t'" "bt_root t' = bt_root t"
      using k by auto
    then show ?thesis by (intro exI[of _ "te_ValidatedBlock entry # xs"]) (auto simp: linked_append)
  qed
qed

lemma prune_gc_keyed:
  assumes "tree_keyed cr t"
  shows "tree_keyed cr (prune_gc r t) \<and> bt_root (prune_gc r t) = bt_root t"
proof -
  have "tree_keyed cr t' \<Longrightarrow> tree_keyed cr (fold (\<lambda>i t. case bt_remove i t of None \<Rightarrow> t | Some (t', _) \<Rightarrow> t') is t')
    \<and> bt_root (fold (\<lambda>i t. case bt_remove i t of None \<Rightarrow> t | Some (t', _) \<Rightarrow> t') is t') = bt_root t'" for "is" t'
  proof (induction "is" arbitrary: t')
    case (Cons i "is")
    show ?case
    proof (cases "bt_remove i t'")
      case (Some r)
      obtain t1 e where r: "r = (t1, e)" by (cases r)
      from bt_remove_keyed[OF Some[unfolded r] Cons.prems] Cons.IH[of t1] Some r show ?thesis by simp
    qed (use Cons in simp)
  qed simp
  then show ?thesis using assms unfolding prune_gc_def Let_def by blast
qed

lemma Prune_linked:
  assumes "(Prune cr i t :: ('e, _) go) = Ok (t', bs)" and "tree_keyed cr t"
  shows "tree_keyed cr t'" "linked cr (bt_rootId t) bs (bt_rootId t')"
proof -
  have "tree_keyed cr t' \<and> linked cr (bt_rootId t) bs (bt_rootId t')"
  proof (cases "i = bt_rootId t")
    case False
    with assms(1) obtain t1 e t2 commit where r: "bt_remove i t = Some (t1, e)"
      and l: "(prune_loop e [] t1 :: ('e, _) go) = Ok (t2, commit)" and bs: "bs = rev commit"
      and t': "bt_tree t' = bt_tree (prune_gc (block_Round (te_ValidatedBlock e)) t2)" "bt_rootId t' = block_GetId cr (te_ValidatedBlock e)"
      by (auto simp: Prune_def go_simps Let_def split: if_splits option.splits)
    note k = bt_remove_keyed[OF r assms(2)]
    from prune_loop_linked[OF l k(1)] bs k(2) t' prune_gc_keyed[of cr t2] show ?thesis by auto
  qed (use assms in \<open>auto simp: Prune_def split: if_splits\<close>)
  then show "tree_keyed cr t'" "linked cr (bt_rootId t) bs (bt_rootId t')" by simp_all
qed

lemma Add_keyed: "tree_keyed cr t \<Longrightarrow> tree_keyed cr (Add cr b t) \<and> bt_root (Add cr b t) = bt_root t"
  by (cases "IsValidToInsert cr t (fb_Header b)") (simp_all add: Add_insert keyed_bt_insert, simp_all add: Add_def)

lemma coherency_loop_keyed:
  assumes "coherency_loop cr policy sr queue out t = Some (Ok (t', bs) :: ('e, _) go)" and "tree_keyed cr t"
  shows "tree_keyed cr t' \<and> bt_root t' = bt_root t"
proof -
  let ?P = "\<lambda>cr policy sr queue out t (y :: ('e, _) go).
    \<forall>t' bs. y = Ok (t', bs) \<longrightarrow> tree_keyed cr t \<longrightarrow> tree_keyed cr t' \<and> bt_root t' = bt_root t"
  have "?P cr policy sr queue out t (Ok (t', bs))"
  proof (rule coherency_loop.raw_induct[OF _ assms(1), where P = ?P])
    fix f and cr :: crypto and policy sr queue out t and y :: "('e, _) go"
    assume IH: "\<And>cr policy sr queue out t y. f cr policy sr queue out t = Some y \<Longrightarrow> ?P cr policy sr queue out t y"
      and step: "(case queue of
        [] \<Rightarrow> Some (Ok (t, out))
      | nextId # queue \<Rightarrow>
          (case GetBlocksOnPathFromRoot t nextId of
             Err e \<Rightarrow> Some (Err e)
           | Panic s \<Rightarrow> Some (Panic s)
           | Diverge \<Rightarrow> None
           | Ok None \<Rightarrow> f cr policy sr queue out t
           | Ok (Some extending) \<Rightarrow>
               if extending = [] then Some (Panic ''index out of range'') else
               let nextBlock = last extending in
               (case CheckCoherency cr policy nextBlock (Some (butlast extending)) (bt_root t) sr of
                  Panic s \<Rightarrow> Some (Panic s)
                | Diverge \<Rightarrow> None
                | Err _ \<Rightarrow> f cr policy sr queue out t
                | Ok _ \<Rightarrow> (case bt_get t nextId of
                      None \<Rightarrow> Some (Panic ''nil pointer dereference'')
                    | Some e \<Rightarrow> f cr policy sr (queue @ te_ChildrenBlocks e) (out @ [nextBlock]) (set_coherent nextId t))))) = Some y"
    define Q where "Q \<longleftrightarrow> ?P cr policy sr queue out t y"
    have Q: "(\<And>r. y \<noteq> Ok r) \<Longrightarrow> Q" "y = Ok (t, out) \<Longrightarrow> Q" "f cr policy sr q' out' t = Some y \<Longrightarrow> Q"
      "f cr policy sr q' out' (set_coherent i t) = Some y \<Longrightarrow> Q" for q' out' i
      using IH[of cr policy sr _ _ t y] IH[of cr policy sr _ _ "set_coherent i t" y] set_coherent_keyed[of cr t i]
      by (auto simp: Q_def set_coherent_root)
    have Q
    proof (cases queue)
      case (Cons i q)
      with step show ?thesis
        by (auto simp: Let_def split: go.split_asm option.split_asm if_split_asm intro: Q)
    qed (use step Q(2) in auto)
    then show "?P cr policy sr queue out t y" by (simp only: Q_def)
  qed
  with assms(2) show ?thesis by blast
qed

lemma TryUpdateCoherency_keyed:
  assumes "(TryUpdateCoherency cr policy sr i t :: ('e, _) go) = Ok (t', bs)" and "tree_keyed cr t"
  shows "tree_keyed cr t' \<and> bt_root t' = bt_root t"
proof -
  from assms(1) obtain path where p: "(GetBlocksOnPathFromRoot t i :: ('e, _) go) = Ok path"
    and r: "(case path of None \<Rightarrow> Ok (t, []) | Some path \<Rightarrow>
      (case find (\<lambda>b. case bt_get t (block_GetId cr b) of None \<Rightarrow> True | Some e \<Rightarrow> \<not> te_IsCoherent e) path of
         None \<Rightarrow> Ok (t, [])
       | Some x \<Rightarrow> go_of (coherency_loop cr policy sr [block_GetId cr x] [] t))) = (Ok (t', bs) :: ('e, _) go)"
    unfolding TryUpdateCoherency_def go_bind_eq_Ok by blast
  show ?thesis
  proof (cases "t' = t")
    case False
    with r obtain x where "go_of (coherency_loop cr policy sr [block_GetId cr x] [] t) = (Ok (t', bs) :: ('e, _) go)"
      by (simp split: option.split_asm)
    then have "coherency_loop cr policy sr [block_GetId cr x] [] t = Some (Ok (t', bs) :: ('e, _) go)"
      by (simp add: go_of_def split: option.split_asm)
    then show ?thesis using coherency_loop_keyed assms(2) by blast
  qed (use assms(2) in simp)
qed

section \<open>The contract of finalization\<close>

definition finalizing :: "crypto \<Rightarrow> State \<Rightarrow> Command list \<Rightarrow> State \<Rightarrow> bool" where
  "finalizing cr s c s' \<longleftrightarrow>
     (tree_keyed cr (st_tree s) \<longrightarrow> tree_keyed cr (st_tree s')
        \<and> linked cr (bt_rootId (st_tree s)) (finalized_in c) (bt_rootId (st_tree s')))
   \<and> (\<forall>n. policy_lastCommit (st_BlockPolicy s) = Some n \<longrightarrow>
        (\<exists>m. policy_lastCommit (st_BlockPolicy s') = Some m \<and> consecutive n (map block_SeqNum (finalized_in c)) m))
   \<and> schedules (st_EpochManager s) (finalized_in c) (st_EpochManager s')"

lemma finalizing_trans: "finalizing cr s c s' \<Longrightarrow> finalizing cr s' c' s'' \<Longrightarrow> finalizing cr s (c @ c') s''"
  unfolding finalizing_def map_append concat_append by (fastforce simp: linked_append consecutive_append intro: schedules_trans)

lemma finalizing_frame: "frame s c s' \<Longrightarrow> finalizing cr s c s'"
  by (simp add: frame_def finalizing_def schedules_refl del: concat_eq_Nil_conv)

lemma finalizing_tree: "tree_keyed cr (st_tree s) \<longrightarrow> tree_keyed cr t \<and> bt_root t = bt_root (st_tree s) \<Longrightarrow> finalizing cr s [] (set_tree t s)"
  by (simp add: finalizing_def schedules_refl)

lemma commit_blocks_Cons:
  assumes "run_steps (map (commit_block cr) (b # bs)) s = Ok (s', c)"
  shows "\<exists>policy em c'. (UpdateCommittedBlock cr b (st_BlockPolicy s) :: (NeedStatesync, _) go) = Ok policy
    \<and> (ScheduleEpochStart (block_SeqNum b) (block_Round b) (st_EpochManager s) :: (NeedStatesync, _) go) = Ok em
    \<and> run_steps (map (commit_block cr) bs) (s\<lparr>st_BlockPolicy := policy, st_EpochManager := em\<rparr>) = Ok (s', c')
    \<and> c = CommitBlocksCmd (CommitFinalized b) # c'"
proof -
  from assms obtain s1 c1 c' where "commit_block cr b s = Ok (s1, c1)" "run_steps (map (commit_block cr) bs) s1 = Ok (s', c')" "c = c1 @ c'"
    by (auto simp: go_simps)
  with commit_block_Ok[OF this(1)] show ?thesis by auto
qed

lemma commit_blocks_counts:
  assumes "run_steps (map (commit_block cr) bs) s = Ok (s', c)"
  shows "finalized_in c = bs" "st_tree s' = st_tree s"
    "policy_lastCommit (st_BlockPolicy s) = Some n \<Longrightarrow>
       \<exists>m. policy_lastCommit (st_BlockPolicy s') = Some m \<and> consecutive n (map block_SeqNum bs) m"
    "schedules (st_EpochManager s) bs (st_EpochManager s')"
  using assms
proof (induction bs arbitrary: s c n)
  case (Cons b bs)
  {
    case 1
    from commit_blocks_Cons[OF 1] show ?case using Cons.IH(1) by auto
  next
    case 2
    from commit_blocks_Cons[OF 2] show ?case using Cons.IH(2) by fastforce
  next
    case 3
    from commit_blocks_Cons[OF 3(2)] obtain policy em c' where u: "(UpdateCommittedBlock cr b (st_BlockPolicy s) :: (NeedStatesync, _) go) = Ok policy"
      and r: "run_steps (map (commit_block cr) bs) (s\<lparr>st_BlockPolicy := policy, st_EpochManager := em\<rparr>) = Ok (s', c')" by blast
    from UpdateCommittedBlock_lastCommit[OF u 3(1)] Cons.IH(3)[OF _ r, of "n + 1"] show ?case by auto
  next
    case 4
    from commit_blocks_Cons[OF 4] obtain policy em c' where
      u: "(ScheduleEpochStart (block_SeqNum b) (block_Round b) (st_EpochManager s) :: (NeedStatesync, _) go) = Ok em"
      and r: "run_steps (map (commit_block cr) bs) (s\<lparr>st_BlockPolicy := policy, st_EpochManager := em\<rparr>) = Ok (s', c')" by blast
    from schedules_trans[OF ScheduleEpochStart_schedules[OF u]] Cons.IH(4)[OF r] show ?case by fastforce
  }
qed (simp_all add: schedules_refl)

lemma finalizing_commit: "step_ok (finalizing cr) (tryCommit cr qc)"
proof (rule step_okI)
  fix s s' c assume "tryCommit cr qc s = Ok (s', c)"
  from tryCommit_Ok[OF this] show "finalizing cr s c s'"
  proof (elim disjE exE conjE)
    fix i t bs assume p: "(Prune cr i (st_tree s) :: (NeedStatesync, _) go) = Ok (t, bs)"
      and c: "run_steps (map (commit_block cr) bs) (set_tree t s) = Ok (s', c)"
    note b = commit_blocks_counts[OF c]
    show ?thesis unfolding finalizing_def b(1,2) using Prune_linked[OF p] b(3,4) by simp
  qed (simp add: finalizing_frame framing.refl_ok)
qed

lemma finalizing_pacemaker_call: "step_ok (finalizing cr) (\<lambda>s. pacemaker_call cr (f s) s)"
proof (rule step_okI)
  fix s s' c assume "pacemaker_call cr (f s) s = Ok (s', c)"
  then obtain p x pcs where s': "s' = upd_cs (\<lambda>c. c\<lparr>cs_Pacemaker := p, cs_Safety := x\<rparr>) s"
    and c: "c = concat (map (FromPacemakerCommand cr (st_Keypair s) (st_CertKeypair s) (st_Version s)) pcs)"
    by (auto simp: pacemaker_call_def go_simps)
  have "finalized_in (FromPacemakerCommand cr k ck v pc) = []" for k ck v pc
    by (cases pc) (simp_all add: Let_def)
  then have "finalized_in c = []" unfolding c by (induction pcs) auto
  then show "finalizing cr s c s'" by (simp add: s' finalizing_def schedules_refl del: concat_eq_Nil_conv)
qed

lemmas frame_handlers = frame_vote frame_timer frame_recovery frame_propose_tip frame_propose_qc

lemma step_ok_mono: "step_ok R f \<Longrightarrow> (\<And>s c s'. R s c s' \<Longrightarrow> R' s c s') \<Longrightarrow> step_ok R' f"
  by (auto simp: step_ok_def)

interpretation finality: state_contract "finalizing cr" cr for cr
proof unfold_locales
  show "finalizing cr s c s'" if "same_core s s'" "list_all quiet_cmd c" for s s' c
    using that quiet_silent[OF that(2)] by (intro finalizing_frame) (simp add: frame_def same_core_def)
  show "finalizing cr s c s'" if "propose_tip cr (st_round s) tip tc s = Ok (s', c)" for s tip tc s' c
    using step_okD[OF frame_propose_tip that] by (rule finalizing_frame)
  show "finalizing cr s c s'" if "propose_qc cr (st_round s) e qc fresh tc s = Ok (s', c)" for s e qc fresh tc s' c
    using step_okD[OF frame_propose_qc that] by (rule finalizing_frame)
  show "step_ok (finalizing cr) (tryVote cr tc tip)" "step_ok (finalizing cr) (HandleVoteTimer cr r)"
    "step_ok (finalizing cr) (answer_recovery cr author rr e vs)" for tc tip r author rr e vs
    by (rule step_ok_mono[OF _ finalizing_frame], rule frame_handlers, assumption)+
  show "step_ok (finalizing cr) (add_block cr b)" for b
    by (rule step_okI) (auto simp: add_block_def intro!: finalizing_tree Add_keyed)
  show "finalizing cr s [] (set_tree t s)"
    if "(TryUpdateCoherency cr (st_BlockPolicy s) (st_StateRead s) i (st_tree s) :: (NeedStatesync, _) go) = Ok (t, bs)" for s i t bs
    using TryUpdateCoherency_keyed[OF that] by (intro finalizing_tree) blast
qed (auto intro: finalizing_trans finalizing_commit finalizing_pacemaker_call finalizing_frame framing.refl_ok simp: frame_def)

section \<open>The contract of rounds\<close>

text \<open>The rounds entered between two high certificates: each is the round after a newer certificate.\<close>

fun ladder :: "round \<Rightarrow> round list \<Rightarrow> round \<Rightarrow> bool" where
  "ladder h [] h' \<longleftrightarrow> h = h'"
| "ladder h (r # rs) h' \<longleftrightarrow> h < r - 1 \<and> ladder (r - 1) rs h'"

lemma ladder_append: "ladder h (rs @ rs') h' \<longleftrightarrow> (\<exists>i. ladder h rs i \<and> ladder i rs' h')"
  by (induction rs arbitrary: h) auto

lemma next_round_less: "(h :: u64) < r - 1 \<Longrightarrow> r \<noteq> 0 \<Longrightarrow> h + 1 < r"
proof -
  assume h: "h < r - 1" and r: "r \<noteq> 0"
  have "unat (r - 1) < unat r" using r by (simp add: unat_minus_one unat_gt_0)
  then show ?thesis using inc_le[OF h] by (simp add: word_less_nat_alt word_le_nat_alt)
qed

lemma ladder_sorted:
  assumes "ladder h rs h'" and "0 \<notin> set rs"
  shows "sorted_wrt (<) ((h + 1) # rs)" "h' + 1 = last ((h + 1) # rs)"
proof -
  have "sorted_wrt (<) ((h + 1) # rs) \<and> h' + 1 = last ((h + 1) # rs)"
    using assms
  proof (induction rs arbitrary: h)
    case (Cons r rs)
    have less: "h + 1 < r" using Cons.prems by (intro next_round_less) auto
    have "sorted_wrt (<) ((r - 1 + 1) # rs) \<and> h' + 1 = last ((r - 1 + 1) # rs)"
      using Cons.prems by (intro Cons.IH) auto
    then show ?case using less by (auto intro: less_trans)
  qed simp
  then show "sorted_wrt (<) ((h + 1) # rs)" "h' + 1 = last ((h + 1) # rs)" by simp_all
qed

abbreviation high_round :: "Pacemaker \<Rightarrow> round" where
  "high_round p \<equiv> rc_Round (pk_highCertificate p)"

fun pm_entered :: "PacemakerCommand \<Rightarrow> round list" where
  "pm_entered (CmdEnterRound e r rc) = [r]"
| "pm_entered _ = []"

lemma FromPacemakerCommands_enter:
  "entered_in (concat (map (FromPacemakerCommand cr k ck v) pcs)) = concat (map pm_entered pcs)"
proof (induction pcs)
  case (Cons pc pcs)
  have "entered_in (FromPacemakerCommand cr k ck v pc) = pm_entered pc" by (cases pc) (simp_all add: Let_def)
  with Cons show ?case by simp
qed simp

interpretation pace: pacemaker_contract
  "\<lambda>a pcs b. ladder (high_round (fst a)) (concat (map pm_entered pcs)) (high_round (fst b))"
proof unfold_locales
  fix em rc p x p' x' pcs
  assume "(Pacemaker_ProcessCertificate em rc (p, x) :: (NeedStatesync, _) go) = Ok ((p', x'), pcs)"
  from Pacemaker_ProcessCertificate_Ok[OF this]
  show "ladder (high_round (fst (p, x))) (concat (map pm_entered pcs)) (high_round (fst (p', x')))"
    by (auto simp: GetCurrentRound_def)
next
  fix p :: Pacemaker and x x' pcs
  assume "(localTimeoutRound p x :: (NeedStatesync, _) go) = Ok (x', pcs)"
  from localTimeoutRound_Ok(3)[OF this]
  show "ladder (high_round (fst (p, x))) (concat (map pm_entered pcs)) (high_round (fst (p, x')))" by auto
qed (auto simp: ladder_append)

definition advancing :: "State \<Rightarrow> Command list \<Rightarrow> State \<Rightarrow> bool" where
  "advancing s c s' \<longleftrightarrow> ladder (high_round (st_pacemaker s)) (entered_in c) (high_round (st_pacemaker s'))"

lemma advancing_frame: "st_pacemaker s' = st_pacemaker s \<Longrightarrow> entered_in c = [] \<Longrightarrow> advancing s c s'"
  by (simp add: advancing_def del: concat_eq_Nil_conv)

lemma frame_advancing: "frame s c s' \<Longrightarrow> advancing s c s'"
  by (simp add: frame_def advancing_frame)

lemma advancing_pacemaker_call:
  assumes "\<And>s p x pcs. f s (st_pacemaker s, st_safety s) = Ok ((p, x), pcs) \<Longrightarrow>
    ladder (high_round (st_pacemaker s)) (concat (map pm_entered pcs)) (high_round p)"
  shows "step_ok advancing (\<lambda>s. pacemaker_call cr (f s) s)"
proof (rule step_okI)
  fix s s' c assume "pacemaker_call cr (f s) s = Ok (s', c)"
  then obtain p x pcs where f: "f s (st_pacemaker s, st_safety s) = Ok ((p, x), pcs)"
    and s': "s' = upd_cs (\<lambda>c. c\<lparr>cs_Pacemaker := p, cs_Safety := x\<rparr>) s"
    and c: "c = concat (map (FromPacemakerCommand cr (st_Keypair s) (st_CertKeypair s) (st_Version s)) pcs)"
    by (auto simp: pacemaker_call_def go_simps)
  from assms[OF f] show "advancing s c s'" unfolding advancing_def s' c FromPacemakerCommands_enter by simp
qed

lemma advancing_commit: "step_ok advancing (tryCommit cr qc)"
proof (rule step_okI)
  fix s s' c assume "tryCommit cr qc s = Ok (s', c)"
  from tryCommit_Ok[OF this] show "advancing s c s'"
    by (auto intro!: advancing_frame dest!: commit_blocks_Ok simp: comp_def)
qed

interpretation rounds: state_contract advancing cr for cr
proof unfold_locales
  show "advancing s c s'" if "same_core s s'" "list_all quiet_cmd c" for s s' c
    using that quiet_silent[OF that(2)] by (intro advancing_frame) (simp_all add: same_core_def)
  show "advancing s c s'" if "propose_tip cr (st_round s) tip tc s = Ok (s', c)" for s tip tc s' c
    using step_okD[OF frame_propose_tip that] by (rule frame_advancing)
  show "advancing s c s'" if "propose_qc cr (st_round s) e qc fresh tc s = Ok (s', c)" for s e qc fresh tc s' c
    using step_okD[OF frame_propose_qc that] by (rule frame_advancing)
  show "step_ok advancing (tryVote cr tc tip)" "step_ok advancing (HandleVoteTimer cr r)"
    "step_ok advancing (answer_recovery cr author rr e vs)" for tc tip r author rr e vs
    by (rule step_ok_mono[OF _ frame_advancing], rule frame_handlers, assumption)+
  show "step_ok advancing (\<lambda>s. pacemaker_call cr (Pacemaker_ProcessCertificate (st_EpochManager s) rc) s)" for rc
    using pace.pm_certificate by (intro advancing_pacemaker_call) fastforce
  show "step_ok advancing (pacemaker_call cr ProcessLocalTimeout)"
    using pace.pm_local by (intro advancing_pacemaker_call[of "\<lambda>s. ProcessLocalTimeout"]) fastforce
  show "step_ok advancing (\<lambda>s. pacemaker_call cr (ProcessRemoteTimeout cr (st_EpochManager s) vs m author timeout) s)" for vs m author timeout
    using pace.pm_remote by (intro advancing_pacemaker_call) fastforce
  show "advancing s c s' \<Longrightarrow> advancing s' c' s'' \<Longrightarrow> advancing s (c @ c') s''" for s c s' c' s''
    by (auto simp: advancing_def ladder_append)
qed (auto simp: step_ok_def add_block_def intro: advancing_frame advancing_commit[unfolded step_ok_def, rule_format])

section \<open>Properties\<close>

text \<open>C2. A node finalizes one chain: over every run from a tree whose blocks are stored under their ids, as a new
  tree is, the finalized blocks link the root at the start to the current root by parent id, in the order in which they are
  finalized; their sequence numbers are consecutive when the block policy counts them; scheduled epoch
  starts never change, and a finalized boundary block schedules the start of the next epoch.\<close>

theorem node_finalizes_one_chain:
  assumes "tree_keyed cr (st_tree s0)" and "node_run cr s0 c s"
  shows "linked cr (bt_rootId (st_tree s0)) (finalized_in c) (bt_rootId (st_tree s))
    \<and> (\<forall>n k. policy_lastCommit (st_BlockPolicy s0) = Some n \<longrightarrow> k < length (finalized_in c)
        \<longrightarrow> block_SeqNum (finalized_in c ! k) = n + 1 + of_nat k)
    \<and> schedules (st_EpochManager s0) (finalized_in c) (st_EpochManager s)"
proof -
  note f = finality.run_ok[OF assms(2), unfolded finalizing_def]
  have "block_SeqNum (finalized_in c ! k) = n + 1 + of_nat k"
    if "policy_lastCommit (st_BlockPolicy s0) = Some n" "k < length (finalized_in c)" for n k
  proof -
    from f that(1) obtain m where "consecutive n (map block_SeqNum (finalized_in c)) m" by blast
    from consecutive_nth[OF this, of k] that(2) show ?thesis by simp
  qed
  with f assms(1) show ?thesis by blast
qed

definition example_qc2 :: QuorumCertificate where
  "example_qc2 = GenesisQC\<lparr>qc_Info := \<lparr>v_ID = example_id2, v_Round = 2, v_Epoch = 1\<rparr>\<rparr>"

text \<open>A node that follows: it holds two coherent blocks and another node leads.\<close>

definition example_follower :: State where
  "example_follower = (set_tree example_tree example_state)\<lparr>st_BlockPolicy := MockPolicy (NewMockBlockPolicy 3),
     st_Election := (\<lambda>_ _. Ok [2])\<rparr>"

lemma example_path1:
  assumes "rootpath example_tree example_id1 es"
  shows "map te_ValidatedBlock es = [example_b1]"
proof -
  have "rootpath example_tree example_id1 [\<lparr>te_ValidatedBlock = example_b1, te_IsCoherent = True, te_ChildrenBlocks = [example_id2]\<rparr>]"
    by (rule rootpath.first[OF example_tree_get(1)]) (simp add: example_blocks example_tree_get(4))
  from rootpath_unique[OF this assms] show ?thesis by auto
qed

lemma example_prune:
  obtains t where "(Prune example_crypto example_id1 example_tree :: ('e, _) go) = Ok (t, [example_b1])"
    and "bt_get t example_id2 = Some \<lparr>te_ValidatedBlock = example_b2, te_IsCoherent = True, te_ChildrenBlocks = []\<rparr>"
    and "bt_get t GENESIS_BLOCK_ID = None" and "bt_rootId t = example_id1" and "ri_Round (bt_root t) = 1"
proof -
  have inv: "forest_inv example_crypto example_tree" "coherent_inv example_tree" "payload_inv example_crypto example_tree"
    using example_tree_inv by (simp_all add: tree_inv_def)
  obtain t es where p: "(Prune example_crypto example_id1 example_tree :: ('e, _) go) = Ok (t, map te_ValidatedBlock es)"
    "rootpath example_tree example_id1 es"
    "pruned example_crypto example_tree example_id1 \<lparr>te_ValidatedBlock = example_b1, te_IsCoherent = True, te_ChildrenBlocks = [example_id2]\<rparr> t"
    by (rule Prune_path[OF inv example_tree_get(1)]) auto
  have "bt_get example_tree GENESIS_BLOCK_ID = None" using example_tree_get(3)[of GENESIS_BLOCK_ID] example_ids by metis
  then show ?thesis using that[of t] p example_path1[OF p(2)] example_tree_get(2)
    by (auto simp: pruned_def example_blocks live_def entry_root_def)
qed

lemma example_finalizes:
  "\<exists>s c. handle example_crypto (AdvanceRoundReceived [2] \<lparr>am_LastRoundCertificate = RC_QC example_qc2\<rparr>) example_follower = Ok (s, c)
    \<and> finalized_in c = [example_b1] \<and> entered_in c = [3]"
proof -
  obtain t where p: "(Prune example_crypto example_id1 example_tree :: (NeedStatesync, _) go) = Ok (t, [example_b1])"
    and t: "bt_get t example_id2 = Some \<lparr>te_ValidatedBlock = example_b2, te_IsCoherent = True, te_ChildrenBlocks = []\<rparr>"
      "bt_get t GENESIS_BLOCK_ID = None" "bt_rootId t = example_id1" "ri_Round (bt_root t) = 1"
    using example_prune by blast
  have "forest_inv example_crypto example_tree" using example_tree_inv by (simp add: tree_inv_def)
  then obtain path where "(GetBlocksOnPathFromRoot example_tree example_id2 :: (NeedStatesync, _) go) = Ok path"
    by (rule GetBlocksOnPathFromRoot_returns[where i = example_id2]) blast+
  then obtain v where v: "(GetHighestCoherentBlockOnPathFromRoot example_crypto example_tree example_id2 :: (NeedStatesync, _) go) = Ok v"
    by (simp add: GetHighestCoherentBlockOnPathFromRoot_def)
  note ids = example_ids example_ids[symmetric]
  have qc: "qc_GetBlockId example_qc2 = example_id2" "qc_GetRound example_qc2 = 2" "v_Round (qc_Info example_qc2) = 2"
    "v_Round (qc_Info (bh_QC (fb_Header example_b2))) = 1"
    using example_blocks(5) by (simp_all add: example_qc2_def qc_GetBlockId_def qc_GetRound_def)
  have tip: "(GetCanonicalCoherentTip example_crypto t example_qc2 :: (NeedStatesync, _) go) = Ok example_id2"
    using t ids by (simp add: GetCanonicalCoherentTip_def GetBlocksOnPathFromRoot_def qc example_blocks
        IsCoherent_def Let_def highestRoundCoherentDescendant_def descendant_loop.simps descend_def go_of_def)
  have fill: "(MaybeFillPathToRoot t example_qc2 :: (NeedStatesync, _) go) = Ok None"
    using t ids by (simp add: MaybeFillPathToRoot_def qc example_blocks)
  have commit: "(qc_GetCommittableId example_crypto example_qc2 example_b2 :: (NeedStatesync, _) go) = Ok (Some example_id1)"
    using ids by (simp add: qc_GetCommittableId_def qc_getCommittableId_def qc example_blocks)
  have epochs: "(IsBoundaryBlock 1 100 :: (NeedStatesync, _) go) = Ok False" "GetEpoch example_em 3 = Some 1" by code_simp+
  have gen: "qc_GetBlockId GenesisQC = GENESIS_BLOCK_ID" by (simp add: GenesisQC_def qc_GetBlockId_def)
  have example_em_simps: "em_EpochLength example_em = 100" by (simp add: example_em_def)
  show ?thesis
    by (cases v; simp add: HandleAdvanceRoundMessage_def ProcessQC_def qc v emit_def
      tryCommit_def commit p example_follower_def example_state_simps GetCurrentRound_def GetBlock_def example_tree_get(1,2) t
      IsCoherent_def commit_block_def Mock_UpdateCommittedBlock_def NewMockBlockPolicy_def GENESIS_SEQ_NUM_def example_blocks Let_def
      ScheduleEpochStart_def epochs example_em_simps cancel_syncs_def maybeStatesync_def GetSeqNumOfQc_def gen ids
      pacemaker_call_def Pacemaker_ProcessCertificate_def updateProposedHead_def tip RequestBlocksIfMissingAncestor_def fill
      start_new_round_def check_leader_def lookupLeader_def tryPropose_def validators_of_def GetValSet_def go_some_def
      forward_qc_def leader_of_def)
qed

lemma example_follower_run:
  obtains c s where "node_run example_crypto example_follower c s" and "finalized_in c = [example_b1]" and "entered_in c = [3]"
proof -
  obtain s c where h: "handle example_crypto (AdvanceRoundReceived [2] \<lparr>am_LastRoundCertificate = RC_QC example_qc2\<rparr>) example_follower = Ok (s, c)"
    and "finalized_in c = [example_b1]" "entered_in c = [3]"
    using example_finalizes by blast
  then show ?thesis using that node_run.step[OF node_run.start h] by simp
qed

theorem node_finalizes_one_chain_witness:
  "\<exists>c s. node_run example_crypto example_follower c s \<and> finalized_in c = [example_b1]
    \<and> linked example_crypto GENESIS_BLOCK_ID [example_b1] (bt_rootId (st_tree s)) \<and> block_SeqNum example_b1 = 1"
proof -
  obtain c s where r: "node_run example_crypto example_follower c s" "finalized_in c = [example_b1]"
    by (rule example_follower_run)
  have "tree_keyed example_crypto (st_tree example_follower)"
    using example_tree_inv by (simp add: tree_inv_def forest_inv_def example_follower_def)
  from node_finalizes_one_chain[OF this r(1)] r show ?thesis
    by (auto simp: example_follower_def example_tree_get(4) NewMockBlockPolicy_def GENESIS_SEQ_NUM_def)
qed

text \<open>C3. Rounds only go forward: over every run the rounds a node enters are strictly increasing, all of them later
  than the round it starts in, and the last one is its current round; entering round 0 would take a
  certificate of the largest round number.\<close>

theorem node_enters_rounds_in_order:
  assumes "node_run cr s0 c s" and "0 \<notin> set (entered_in c)"
  shows "sorted_wrt (<) (st_round s0 # entered_in c) \<and> st_round s = last (st_round s0 # entered_in c)"
  using ladder_sorted[OF rounds.run_ok[OF assms(1), unfolded advancing_def] assms(2)] unfolding GetCurrentRound_def by simp

theorem node_enters_rounds_in_order_witness:
  "\<exists>c s. node_run example_crypto example_follower c s \<and> entered_in c = [3] \<and> st_round example_follower < 3 \<and> st_round s = 3"
proof -
  obtain c s where r: "node_run example_crypto example_follower c s" "entered_in c = [3]"
    by (rule example_follower_run)
  with node_enters_rounds_in_order[OF r(1)] show ?thesis by (auto simp del: concat_eq_Nil_conv)
qed

end
