(* ===== verification/Validation.thy ===== *)
theory Validation
  imports Pacemakers Policy
begin

text \<open>
  \<open>validation/\<close>: what an inbound consensus message has to satisfy before the consensus state
  sees it. A check runs against the cache of verified certificates and returns an error or none,
  together with the cache, which keeps what it learnt also when the check fails. Certificates are
  found in the cache by their encoding. Leader election is an argument.
\<close>

section \<open>Cache\<close>

text \<open>The recency list of the Go cache, front first, and the keys of the map into it.\<close>

record lru =
  lru_cap :: nat
  lru_ll :: "bytes list"
  lru_seen :: "bytes set"

definition newLRU :: "nat \<Rightarrow> lru" where
  "newLRU cap = \<lparr>lru_cap = cap, lru_ll = [], lru_seen = {}\<rparr>"

definition lru_contains :: "lru \<Rightarrow> bytes \<Rightarrow> bool" where
  "lru_contains c key \<longleftrightarrow> key \<in> lru_seen c"

definition lru_put :: "bytes \<Rightarrow> lru \<Rightarrow> lru" where
  "lru_put key c =
     (if key \<in> lru_seen c then c\<lparr>lru_ll := key # remove1 key (lru_ll c)\<rparr> else
      let ll = key # lru_ll c; seen = insert key (lru_seen c) in
      if length ll > lru_cap c then c\<lparr>lru_ll := butlast ll, lru_seen := seen - {last ll}\<rparr>
      else c\<lparr>lru_ll := ll, lru_seen := seen\<rparr>)"

definition qcCacheCapacity :: nat where "qcCacheCapacity = 1000"
definition tcCacheCapacity :: nat where "tcCacheCapacity = 1000"
definition necCacheCapacity :: nat where "necCacheCapacity = 1000"

record CertificateCache =
  cc_qcLRU :: lru
  cc_tcLRU :: lru
  cc_necLRU :: lru

definition NewCertificateCache :: CertificateCache where
  "NewCertificateCache = \<lparr>cc_qcLRU = newLRU qcCacheCapacity, cc_tcLRU = newLRU tcCacheCapacity, cc_necLRU = newLRU necCacheCapacity\<rparr>"

definition CacheValidatedQC :: "QuorumCertificate \<Rightarrow> CertificateCache \<Rightarrow> CertificateCache" where
  "CacheValidatedQC qc c = c\<lparr>cc_qcLRU := lru_put (QuorumCertificate_EncodeRLP [] qc) (cc_qcLRU c)\<rparr>"

definition QCIsCachedValidated :: "CertificateCache \<Rightarrow> QuorumCertificate \<Rightarrow> bool" where
  "QCIsCachedValidated c qc = lru_contains (cc_qcLRU c) (QuorumCertificate_EncodeRLP [] qc)"

definition CacheValidatedTC :: "TimeoutCertificate \<Rightarrow> CertificateCache \<Rightarrow> CertificateCache" where
  "CacheValidatedTC tc c = c\<lparr>cc_tcLRU := lru_put (TimeoutCertificate_EncodeRLP [] tc) (cc_tcLRU c)\<rparr>"

definition TCIsCachedValidated :: "CertificateCache \<Rightarrow> TimeoutCertificate \<Rightarrow> bool" where
  "TCIsCachedValidated c tc = lru_contains (cc_tcLRU c) (TimeoutCertificate_EncodeRLP [] tc)"

definition CacheValidatedNEC :: "NoEndorsementCertificate \<Rightarrow> CertificateCache \<Rightarrow> CertificateCache" where
  "CacheValidatedNEC nec c = c\<lparr>cc_necLRU := lru_put (NoEndorsementCertificate_EncodeRLP [] nec) (cc_necLRU c)\<rparr>"

definition NECIsCachedValidated :: "CertificateCache \<Rightarrow> NoEndorsementCertificate \<Rightarrow> bool" where
  "NECIsCachedValidated c nec = lru_contains (cc_necLRU c) (NoEndorsementCertificate_EncodeRLP [] nec)"

section \<open>Errors\<close>

datatype validation_error =
    ErrInvalidAuthor | ErrNotWellFormed | ErrInvalidSignature | ErrInvalidTcRound | ErrDuplicateTcTipRound
  | ErrEmptySignersTcTipRound | ErrTooManyTcTipRound | ErrInsufficientStake | ErrValidatorSetDataUnavailable
  | ErrSignaturesDuplicateNode | ErrInvalidVote | ErrInvalidVersion | ErrInvalidEpoch

datatype PrefilterError =
    OutdatedProposal | OutdatedVote | OutdatedTimeout | OutdatedRoundRecovery | OutdatedNoEndorsement
  | OutdatedAdvanceRoundQc | OutdatedAdvanceRoundTc

text \<open>
  A lookup that does not touch the cache returns an error or a value. A check returns the error, if
  any, and the cache.
\<close>

type_synonym ('e, 'a) lookup = "('e, validation_error + 'a) go"
type_synonym 'e checker = "CertificateCache \<Rightarrow> ('e, validation_error option \<times> CertificateCache) go"

definition reject :: "validation_error \<Rightarrow> 'e checker" where
  "reject e cache = Ok (Some e, cache)"

definition accept :: "'e checker" where
  "accept cache = Ok (None, cache)"

text \<open>\<open>if err != nil { return e }\<close> after a call of another package, the same with the callee's own error, and after a check.\<close>

definition attempt :: "('x, 'a) go \<Rightarrow> validation_error \<Rightarrow> ('e, 'a) lookup" where
  "attempt m e = (case m of Ok x \<Rightarrow> Ok (Inr x) | Err _ \<Rightarrow> Ok (Inl e) | Panic s \<Rightarrow> Panic s | Diverge \<Rightarrow> Diverge)"

definition and_then :: "('e, 'a) lookup \<Rightarrow> ('a \<Rightarrow> 'e checker) \<Rightarrow> 'e checker" where
  "and_then m f cache = go_bind m (\<lambda>r. case r of Inl e \<Rightarrow> reject e cache | Inr x \<Rightarrow> f x cache)"

definition also_check :: "'e checker \<Rightarrow> 'e checker \<Rightarrow> 'e checker" where
  "also_check f g cache = go_bind (f cache) (\<lambda>(err, cache). case err of None \<Rightarrow> g cache | Some e \<Rightarrow> reject e cache)"

section \<open>Before verification\<close>

fun Prefilter :: "Unverified \<Rightarrow> RootInfo option \<Rightarrow> round \<Rightarrow> PrefilterError option" where
  "Prefilter u rootInfo currentRound =
     (case cm_Message (uv_Obj u) of
        PMProposal m \<Rightarrow> (case rootInfo of
            Some root \<Rightarrow> if pm_ProposalRound m \<le> ri_Round root then Some OutdatedProposal else None
          | None \<Rightarrow> None)
      | PMVote m \<Rightarrow> if v_Round (vm_Vote m) < currentRound then Some OutdatedVote else None
      | PMTimeout m \<Rightarrow> if ti_Round (tm_TmInfo m) < currentRound then Some OutdatedTimeout else None
      | PMRoundRecovery m \<Rightarrow> if rm_Round m < currentRound then Some OutdatedRoundRecovery else None
      | PMNoEndorsement m \<Rightarrow> if ne_Round (nm_Msg m) < currentRound then Some OutdatedNoEndorsement else None
      | PMAdvanceRound m \<Rightarrow>
          if rc_Round (am_LastRoundCertificate m) < currentRound then
            (case am_LastRoundCertificate m of RC_QC _ \<Rightarrow> Some OutdatedAdvanceRoundQc | RC_TC _ \<Rightarrow> Some OutdatedAdvanceRoundTc)
          else None)"

definition Verify :: "crypto \<Rightarrow> Unverified \<Rightarrow> EpochManager \<Rightarrow> ValidatorsEpochMapping \<Rightarrow> validation_error + Verified" where
  "Verify cr u epochManager valEpochMap =
     (case GetEpoch epochManager (ConsensusMessage_GetRound (uv_Obj u)) of
        None \<Rightarrow> Inl ErrInvalidEpoch
      | Some epoch \<Rightarrow>
          (case GetValSet valEpochMap epoch of
             None \<Rightarrow> Inl ErrValidatorSetDataUnavailable
           | Some valSet \<Rightarrow>
               (case RecoverPubKey cr (uv_AuthorSignature u) DomainConsensusMessage (ConsensusMessage_EncodeRLP [] (uv_Obj u)) of
                  None \<Rightarrow> Inl ErrInvalidSignature
                | Some author \<Rightarrow>
                    if \<not> IsMember valSet author then Inl ErrInvalidAuthor
                    else Inr \<lparr>vf_Author = author, vf_Message = u\<rparr>)))"

type_synonym 'e LeaderElection = "round \<Rightarrow> ValidatorSet \<Rightarrow> ('e, node_id) go"
type_synonym 'e EpochToValidators = "epoch \<Rightarrow> round \<Rightarrow> ('e, ValidatorSet \<times> ValidatorMapping \<times> node_id) lookup"

definition NewEpochToValidators :: "EpochManager \<Rightarrow> ValidatorsEpochMapping \<Rightarrow> 'e LeaderElection \<Rightarrow> 'e EpochToValidators" where
  "NewEpochToValidators epochManager valEpochMap election epoch round =
     (if GetEpoch epochManager round \<noteq> Some epoch then Ok (Inl ErrInvalidEpoch) else
      case GetValSet valEpochMap epoch of
        None \<Rightarrow> Ok (Inl ErrValidatorSetDataUnavailable)
      | Some valSet \<Rightarrow>
          (case GetCertPubkeys valEpochMap epoch of
             None \<Rightarrow> Ok (Inl ErrValidatorSetDataUnavailable)
           | Some certPubkeys \<Rightarrow> go_bind (election round valSet) (\<lambda>leader. Ok (Inr (valSet, certPubkeys, leader)))))"

section \<open>Certificates\<close>

definition qcEqual :: "QuorumCertificate \<Rightarrow> QuorumCertificate \<Rightarrow> bool" where
  "qcEqual a b \<longleftrightarrow> QuorumCertificate_EncodeRLP [] a = QuorumCertificate_EncodeRLP [] b"

text \<open>The last part of every certificate check.\<close>

definition check_stake :: "ValidatorSet \<Rightarrow> node_id list \<Rightarrow> 'e checker \<Rightarrow> 'e checker" where
  "check_stake validators nodeIds k =
     and_then (attempt (HasSuperMajorityVotes validators nodeIds) ErrSignaturesDuplicateNode)
       (\<lambda>ok. if \<not> ok then reject ErrInsufficientStake else k)"

definition VerifyQC :: "crypto \<Rightarrow> 'e EpochToValidators \<Rightarrow> QuorumCertificate \<Rightarrow> 'e checker" where
  "VerifyQC cr e2v qc cache =
     (if QCIsCachedValidated cache qc then accept cache else
      and_then (e2v (v_Epoch (qc_Info qc)) (qc_GetRound qc)) (\<lambda>(validators, mapping, _).
        if qc_GetRound qc = GENESIS_ROUND then
          (if qcEqual qc GenesisQC then accept else reject ErrInvalidSignature)
        else
          and_then (attempt (sigcol_Verify cr (qc_Signatures qc) DomainVote mapping (Vote_EncodeRLP [] (qc_Info qc))) ErrInvalidSignature)
            (\<lambda>nodeIds. check_stake validators nodeIds (\<lambda>cache. accept (CacheValidatedQC qc cache)))) cache)"

definition VerifyNEC :: "crypto \<Rightarrow> 'e EpochToValidators \<Rightarrow> NoEndorsementCertificate \<Rightarrow> 'e checker" where
  "VerifyNEC cr e2v nec cache =
     (if NECIsCachedValidated cache nec then accept cache else
      and_then (e2v (ne_Epoch (nec_Msg nec)) (ne_Round (nec_Msg nec))) (\<lambda>(validators, mapping, _).
        and_then (attempt (sigcol_Verify cr (nec_Signatures nec) DomainNoEndorsement mapping
            (NoEndorsement_EncodeRLP [] (nec_Msg nec))) ErrInvalidSignature)
          (\<lambda>nodeIds. check_stake validators nodeIds (\<lambda>cache. accept (CacheValidatedNEC nec cache)))) cache)"

text \<open>The loop of \<open>VerifyTC\<close> over the tip rounds, and its inner loop that marks the signers.\<close>

fun mark_signers :: "node_id list \<Rightarrow> node_id set \<Rightarrow> node_id set option" where
  "mark_signers [] seen = Some seen"
| "mark_signers (signer # signers) seen = (if signer \<in> seen then None else mark_signers signers (insert signer seen))"

fun tip_rounds_loop :: "crypto \<Rightarrow> ValidatorMapping \<Rightarrow> TimeoutCertificate \<Rightarrow> HighTipRoundSigColTuple list \<Rightarrow> (round \<times> round) set
    \<Rightarrow> node_id set \<Rightarrow> node_id list \<Rightarrow> HighExtendRank \<Rightarrow> ('e, node_id list \<times> HighExtendRank) lookup" where
  "tip_rounds_loop cr mapping tc [] seenTipRounds seenNodeIds nodeIds highestRank = Ok (Inr (nodeIds, highestRank))"
| "tip_rounds_loop cr mapping tc (t # ts) seenTipRounds seenNodeIds nodeIds highestRank =
     (if ht_HighQcRound t \<ge> tc_Round tc then Ok (Inl ErrInvalidTcRound)
      else if (ht_HighQcRound t, ht_HighTipRound t) \<in> seenTipRounds then Ok (Inl ErrDuplicateTcTipRound)
      else if sigcol_NumSignatures (ht_Sigs t) = 0 then Ok (Inl ErrEmptySignersTcTipRound)
      else
      let highestRank = (if HighExtendRank_Cmp (HighTipRoundSigColTuple_Rank t) highestRank > 0
                         then HighTipRoundSigColTuple_Rank t else highestRank);
          td = \<lparr>ti_Epoch = tc_Epoch tc, ti_Round = tc_Round tc, ti_HighQcRound = ht_HighQcRound t, ti_HighTipRound = ht_HighTipRound t\<rparr> in
      go_bind (attempt (sigcol_Verify cr (ht_Sigs t) DomainTimeout mapping (TimeoutInfo_EncodeRLP [] td)) ErrInvalidSignature) (\<lambda>r.
        case r of
          Inl e \<Rightarrow> Ok (Inl e)
        | Inr signers \<Rightarrow>
            (case mark_signers signers seenNodeIds of
               None \<Rightarrow> Ok (Inl ErrSignaturesDuplicateNode)
             | Some seenNodeIds \<Rightarrow>
                 tip_rounds_loop cr mapping tc ts (insert (ht_HighQcRound t, ht_HighTipRound t) seenTipRounds) seenNodeIds
                   (nodeIds @ signers) highestRank)))"

text \<open>The conditions of \<open>VerifyTip\<close> on the fresh certificate.\<close>

definition fresh_certificate_ok :: "ConsensusTip \<Rightarrow> bool" where
  "fresh_certificate_ok tip =
     (let h = tip_BlockHeader tip in
      if ImmediatelyFollows (bh_BlockRound h) (qc_GetRound (bh_QC h)) then tip_FreshCertificate tip = None else
      case tip_FreshCertificate tip of
        None \<Rightarrow> False
      | Some (FPC_Nec nec) \<Rightarrow> ne_Round (nec_Msg nec) = bh_BlockRound h \<and> ne_TipQcRound (nec_Msg nec) = qc_GetRound (bh_QC h)
      | Some (FPC_NoTip noTip) \<Rightarrow> ImmediatelyFollows (bh_BlockRound h) (nt_Round noTip)
          \<and> qc_GetRound (nt_HighQc noTip) = qc_GetRound (bh_QC h))"

abbreviation tc_of_NoTip :: "NoTipCertificate \<Rightarrow> TimeoutCertificate" where
  "tc_of_NoTip noTip \<equiv> \<lparr>tc_Epoch = nt_Epoch noTip, tc_Round = nt_Round noTip, tc_TipRounds = nt_TipRounds noTip,
     tc_HighExtend = HE_QC (nt_HighQc noTip)\<rparr>"

text \<open>The certificate checks call each other: a timeout certificate may hold a tip, a tip a timeout certificate without one.\<close>

fun extend_size :: "HighExtend \<Rightarrow> nat" where
  "extend_size (HE_Tip t) = 6"
| "extend_size (HE_QC q) = 2"

function (sequential) VerifyTC :: "crypto \<Rightarrow> 'e EpochToValidators \<Rightarrow> TimeoutCertificate \<Rightarrow> 'e checker"
  and VerifyHighExtend :: "crypto \<Rightarrow> 'e EpochToValidators \<Rightarrow> HighExtend \<Rightarrow> 'e checker"
  and VerifyTip :: "crypto \<Rightarrow> 'e EpochToValidators \<Rightarrow> ConsensusTip \<Rightarrow> 'e checker" where
  "VerifyTC cr e2v tc cache =
     (if TCIsCachedValidated cache tc then accept cache else
      and_then (e2v (tc_Epoch tc) (tc_Round tc)) (\<lambda>(validators, mapping, _).
        if length (tc_TipRounds tc) > length (vs_members validators) then reject ErrTooManyTcTipRound else
        and_then (tip_rounds_loop cr mapping tc (tc_TipRounds tc) {} {} [] (RankQc GENESIS_ROUND)) (\<lambda>(nodeIds, highestRank).
          check_stake validators nodeIds (also_check
            (\<lambda>cache. VerifyHighExtend cr e2v (tc_HighExtend tc) cache)
            (if HighExtendRank_Cmp (HighExtend_Rank (tc_HighExtend tc)) highestRank \<noteq> 0 then reject ErrNotWellFormed
             else (\<lambda>cache. accept (CacheValidatedTC tc cache)))))) cache)"
| "VerifyHighExtend cr e2v (HE_Tip tip) cache = VerifyTip cr e2v tip cache"
| "VerifyHighExtend cr e2v (HE_QC qc) cache = VerifyQC cr e2v qc cache"
| "VerifyTip cr e2v tip cache =
     and_then (e2v (bh_Epoch (tip_BlockHeader tip)) (bh_BlockRound (tip_BlockHeader tip))) (\<lambda>(_, _, leader).
       case tip_SignatureAuthor cr tip of
         None \<Rightarrow> reject ErrInvalidSignature
       | Some tipAuthor \<Rightarrow>
           if tipAuthor \<noteq> leader \<or> tipAuthor \<noteq> bh_Author (tip_BlockHeader tip) then reject ErrInvalidAuthor
           else if \<not> fresh_certificate_ok tip then reject ErrNotWellFormed
           else also_check (VerifyQC cr e2v (bh_QC (tip_BlockHeader tip)))
             (case tip_FreshCertificate tip of
                None \<Rightarrow> accept
              | Some (FPC_Nec nec) \<Rightarrow> VerifyNEC cr e2v nec
              | Some (FPC_NoTip noTip) \<Rightarrow> (\<lambda>cache. VerifyTC cr e2v (tc_of_NoTip noTip) cache))) cache"
  by pat_completeness auto
termination
  by (relation "measure (\<lambda>x. case x of Inl (_, _, tc, _) \<Rightarrow> Suc (extend_size (tc_HighExtend tc))
      | Inr (Inl (_, _, he, _)) \<Rightarrow> extend_size he | Inr (Inr _) \<Rightarrow> 5)") auto

declare VerifyTC.simps [simp del] VerifyTip.simps [simp del]

section \<open>Messages\<close>

definition tipsEqual :: "crypto \<Rightarrow> ConsensusTip \<Rightarrow> ConsensusTip \<Rightarrow> bool" where
  "tipsEqual cr a b \<longleftrightarrow> header_GetId cr (tip_BlockHeader a) = header_GetId cr (tip_BlockHeader b) \<and> tip_Signature a = tip_Signature b"

definition wellFormedProposal :: "crypto \<Rightarrow> ProposalMessage \<Rightarrow> bool" where
  "wellFormedProposal cr m =
     (let h = tip_BlockHeader (pm_Tip m) in
      if bh_BlockBodyId h \<noteq> body_GetId cr (pm_BlockBody m) then False
      else if ImmediatelyFollows (pm_ProposalRound m) (qc_GetRound (bh_QC h)) then pm_LastRoundTC m = None
      else case pm_LastRoundTC m of
        None \<Rightarrow> False
      | Some tc \<Rightarrow>
          if \<not> ImmediatelyFollows (pm_ProposalRound m) (tc_Round tc) then False
          else case tc_HighExtend tc of
            HE_Tip tcTip \<Rightarrow>
              if tipsEqual cr tcTip (pm_Tip m) then True
              else pm_ProposalRound m = bh_BlockRound h \<and> qc_GetRound (bh_QC (tip_BlockHeader tcTip)) = qc_GetRound (bh_QC h)
          | HE_QC qc \<Rightarrow> qc_GetRound qc = qc_GetRound (bh_QC h))"

definition validateProposal :: "crypto \<Rightarrow> ProposalMessage \<Rightarrow> EpochManager \<Rightarrow> 'e EpochToValidators \<Rightarrow> 'e checker" where
  "validateProposal cr m epochManager e2v =
     (if \<not> wellFormedProposal cr m then reject ErrNotWellFormed
      else if GetEpoch epochManager (pm_ProposalRound m) \<noteq> Some (pm_ProposalEpoch m) then reject ErrInvalidEpoch
      else also_check (VerifyTip cr e2v (pm_Tip m))
        (case pm_LastRoundTC m of None \<Rightarrow> accept | Some tc \<Rightarrow> VerifyTC cr e2v tc))"

definition validateVote :: "crypto \<Rightarrow> VoteMessage \<Rightarrow> EpochManager \<Rightarrow> 'e checker" where
  "validateVote cr m epochManager =
     (if \<not> BlsSignature_Validate cr (Some (vm_Sig m)) then reject ErrInvalidSignature
      else if GetEpoch epochManager (v_Round (vm_Vote m)) \<noteq> Some (v_Epoch (vm_Vote m)) then reject ErrInvalidEpoch
      else accept)"

definition wellFormedTimeout :: "Timeout \<Rightarrow> bool" where
  "wellFormedTimeout timeout =
     (let info = tm_TmInfo timeout in
      if HighExtendRank_Cmp (HighExtendVote_Rank (tm_HighExtend timeout)) (TimeoutInfo_Rank info) \<noteq> 0 then False
      else if ImmediatelyFollows (ti_Round info) (qc_GetRound (HighExtendVote_GetQC (tm_HighExtend timeout)))
      then tm_LastRoundCertificate timeout = None
      else case tm_LastRoundCertificate timeout of
        None \<Rightarrow> False
      | Some rc \<Rightarrow> ImmediatelyFollows (ti_Round info) (rc_Round rc))"

text \<open>The timeout with its certificate dropped once its round is entered.\<close>

definition clear_certificate :: "round \<Rightarrow> Timeout \<Rightarrow> Timeout" where
  "clear_certificate currentRound timeout =
     (if currentRound \<ge> ti_Round (tm_TmInfo timeout) then timeout\<lparr>tm_LastRoundCertificate := None\<rparr> else timeout)"

definition validateTimeout :: "crypto \<Rightarrow> Timeout \<Rightarrow> EpochManager \<Rightarrow> 'e EpochToValidators \<Rightarrow> round \<Rightarrow> 'e checker" where
  "validateTimeout cr timeout epochManager e2v currentRound =
     (if \<not> BlsSignature_Validate cr (Some (tm_TimeoutSignature timeout)) then reject ErrInvalidSignature
      else if \<not> wellFormedTimeout timeout then reject ErrNotWellFormed
      else if GetEpoch epochManager (ti_Round (tm_TmInfo timeout)) \<noteq> Some (ti_Epoch (tm_TmInfo timeout)) then reject ErrInvalidEpoch
      else also_check
        (case tm_LastRoundCertificate (clear_certificate currentRound timeout) of
           None \<Rightarrow> accept
         | Some (RC_QC qc) \<Rightarrow> VerifyQC cr e2v qc
         | Some (RC_TC tc) \<Rightarrow> VerifyTC cr e2v tc)
        (VerifyHighExtend cr e2v (AsHighExtend (tm_HighExtend timeout))))"

definition validateRoundRecovery :: "crypto \<Rightarrow> RoundRecoveryMessage \<Rightarrow> EpochManager \<Rightarrow> 'e EpochToValidators \<Rightarrow> 'e checker" where
  "validateRoundRecovery cr m epochManager e2v =
     (if \<not> ImmediatelyFollows (rm_Round m) (tc_Round (rm_TC m)) then reject ErrInvalidTcRound
      else case tc_HighExtend (rm_TC m) of
        HE_QC _ \<Rightarrow> reject ErrNotWellFormed
      | HE_Tip _ \<Rightarrow>
          if GetEpoch epochManager (rm_Round m) \<noteq> Some (rm_Epoch m) then reject ErrInvalidEpoch
          else VerifyTC cr e2v (rm_TC m))"

definition validateNoEndorsement :: "crypto \<Rightarrow> NoEndorsementMessage \<Rightarrow> EpochManager \<Rightarrow> 'e checker" where
  "validateNoEndorsement cr m epochManager =
     (if \<not> BlsSignature_Validate cr (Some (nm_Signature m)) then reject ErrInvalidSignature
      else if GetEpoch epochManager (ne_Round (nm_Msg m)) \<noteq> Some (ne_Epoch (nm_Msg m)) then reject ErrInvalidEpoch
      else accept)"

definition validateAdvanceRound :: "crypto \<Rightarrow> AdvanceRoundMessage \<Rightarrow> 'e EpochToValidators \<Rightarrow> 'e checker" where
  "validateAdvanceRound cr m e2v =
     (case am_LastRoundCertificate m of RC_QC qc \<Rightarrow> VerifyQC cr e2v qc | RC_TC tc \<Rightarrow> VerifyTC cr e2v tc)"

fun validate_message :: "crypto \<Rightarrow> ProtocolMessage \<Rightarrow> EpochManager \<Rightarrow> 'e EpochToValidators \<Rightarrow> round \<Rightarrow> 'e checker" where
  "validate_message cr (PMProposal m) em e2v currentRound = validateProposal cr m em e2v"
| "validate_message cr (PMVote m) em e2v currentRound = validateVote cr m em"
| "validate_message cr (PMTimeout m) em e2v currentRound = validateTimeout cr m em e2v currentRound"
| "validate_message cr (PMRoundRecovery m) em e2v currentRound = validateRoundRecovery cr m em e2v"
| "validate_message cr (PMNoEndorsement m) em e2v currentRound = validateNoEndorsement cr m em"
| "validate_message cr (PMAdvanceRound m) em e2v currentRound = validateAdvanceRound cr m e2v"

text \<open>The message the node goes on with: a timeout loses a certificate that was not checked.\<close>

fun trusted_message :: "round \<Rightarrow> ProtocolMessage \<Rightarrow> ProtocolMessage" where
  "trusted_message currentRound (PMTimeout m) = PMTimeout (clear_certificate currentRound m)"
| "trusted_message currentRound m = m"

definition Validate :: "crypto \<Rightarrow> Verified \<Rightarrow> CertificateCache \<Rightarrow> EpochManager \<Rightarrow> ValidatorsEpochMapping \<Rightarrow> 'e LeaderElection \<Rightarrow> u32
    \<Rightarrow> round \<Rightarrow> ('e, (validation_error + Verified) \<times> CertificateCache) go" where
  "Validate cr v certCache epochManager valEpochMap election clientVersion currentRound =
     (let msg = uv_Obj (vf_Message v) in
      if cm_Version msg \<noteq> clientVersion then Ok (Inl ErrInvalidVersion, certCache) else
      go_bind (validate_message cr (cm_Message msg) epochManager (NewEpochToValidators epochManager valEpochMap election) currentRound certCache)
        (\<lambda>(err, certCache). case err of
           Some e \<Rightarrow> Ok (Inl e, certCache)
         | None \<Rightarrow> Ok (Inr (v\<lparr>vf_Message := (vf_Message v)\<lparr>uv_Obj := msg\<lparr>cm_Message := trusted_message currentRound (cm_Message msg)\<rparr>\<rparr>\<rparr>), certCache)))"

definition IsProposal :: "Unverified \<Rightarrow> bool" where
  "IsProposal u = (case cm_Message (uv_Obj u) of PMProposal _ \<Rightarrow> True | _ \<Rightarrow> False)"

section \<open>The cache holds the most recently used keys\<close>

definition lru_inv :: "lru \<Rightarrow> bool" where
  "lru_inv c \<longleftrightarrow> distinct (lru_ll c) \<and> set (lru_ll c) = lru_seen c \<and> length (lru_ll c) \<le> lru_cap c"

definition touch :: "bytes \<Rightarrow> bytes list \<Rightarrow> bytes list" where
  "touch key l = key # filter (\<lambda>k. k \<noteq> key) l"

lemma lru_inv_new: "lru_inv (newLRU cap)"
  by (simp add: lru_inv_def newLRU_def)

lemma remove1_filter: "distinct l \<Longrightarrow> remove1 k l = filter (\<lambda>x. x \<noteq> k) l"
  by (simp add: distinct_remove1_removeAll removeAll_filter_not_eq) (metis (mono_tags) filter_cong)

lemma lru_put_touch:
  assumes "lru_inv c"
  shows "lru_ll (lru_put k c) = take (lru_cap c) (touch k (lru_ll c))" "lru_cap (lru_put k c) = lru_cap c" "lru_inv (lru_put k c)"
proof -
  note inv = assms[unfolded lru_inv_def]
  have "lru_ll (lru_put k c) = take (lru_cap c) (touch k (lru_ll c)) \<and> lru_cap (lru_put k c) = lru_cap c \<and> lru_inv (lru_put k c)"
  proof (cases "k \<in> lru_seen c")
    case True
    then have "length (filter (\<lambda>x. x \<noteq> k) (lru_ll c)) < length (lru_ll c)"
      using inv by (metis (mono_tags, lifting) length_filter_less)
    with True inv show ?thesis
      by (auto simp: lru_put_def lru_inv_def touch_def remove1_filter)
  next
    case False
    then have t: "touch k (lru_ll c) = k # lru_ll c" using inv by (auto simp: touch_def filter_id_conv)
    show ?thesis
    proof (cases "length (lru_ll c) < lru_cap c")
      case True
      with False inv show ?thesis by (simp add: lru_put_def lru_inv_def t)
    next
      case len: False
      then have eq: "length (lru_ll c) = lru_cap c" using inv by simp
      have sp: "k # lru_ll c = butlast (k # lru_ll c) @ [last (k # lru_ll c)]" by simp
      have d: "distinct (k # lru_ll c)" using False inv by simp
      have "set (butlast (k # lru_ll c)) = insert k (lru_seen c) - {last (k # lru_ll c)}"
        using d inv by (metis Diff_insert_absorb distinct_butlast list.simps(15) not_distinct_conv_prefix rotate1.simps(2) set_rotate1 sp)
      with len eq d False inv show ?thesis
        by (simp add: lru_put_def lru_inv_def t Let_def butlast_conv_take del: butlast.simps last.simps)
    qed
  qed
  then show "lru_ll (lru_put k c) = take (lru_cap c) (touch k (lru_ll c))" "lru_cap (lru_put k c) = lru_cap c" "lru_inv (lru_put k c)"
    by simp_all
qed

lemma take_filter_neq: "distinct l \<Longrightarrow> take m (filter (\<lambda>x. x \<noteq> k) (take (Suc m) l)) = take m (filter (\<lambda>x. x \<noteq> k) l)"
proof (induction l arbitrary: m)
  case (Cons x xs)
  show ?case
  proof (cases "x = k")
    case True
    then have "filter (\<lambda>x. x \<noteq> k) xs = xs" "filter (\<lambda>x. x \<noteq> k) (take m xs) = take m xs"
      using Cons.prems by (auto simp: filter_id_conv dest: in_set_takeD)
    with True show ?thesis by simp
  next
    case False
    then show ?thesis using Cons by (cases m) simp_all
  qed
qed simp

lemma take_touch: "distinct l \<Longrightarrow> take n (touch k (take n l)) = take n (touch k l)"
  by (cases n) (simp_all add: touch_def take_filter_neq)

lemma distinct_touch: "distinct (fold touch ks [])"
proof -
  have "distinct l \<Longrightarrow> distinct (fold touch ks l)" for l
    by (induction ks arbitrary: l) (simp_all add: touch_def)
  then show ?thesis by simp
qed

lemma lru_puts:
  "lru_inv (fold lru_put ks (newLRU cap)) \<and> lru_cap (fold lru_put ks (newLRU cap)) = cap
    \<and> lru_ll (fold lru_put ks (newLRU cap)) = take cap (fold touch ks [])"
proof (induction ks rule: rev_induct)
  case (snoc k ks)
  let ?c = "fold lru_put ks (newLRU cap)"
  from snoc lru_put_touch[of ?c k] show ?case by (simp add: take_touch[OF distinct_touch])
qed (simp add: lru_inv_new, simp add: newLRU_def)

end
