(* ===== verification/Certificates.thy ===== *)
theory Certificates
  imports Validation
begin

text \<open>
  What the certificate checks of \<open>validation/signing.go\<close> accept. The reference predicates below do
  not know the cache; every check accepts exactly what its predicate says, from every cache that
  holds encodings of valid certificates only, and leaves such a cache behind, also when it fails.
\<close>

section \<open>Reference predicates\<close>

definition valid_qc :: "crypto \<Rightarrow> 'e EpochToValidators \<Rightarrow> QuorumCertificate \<Rightarrow> bool" where
  "valid_qc cr e2v qc \<longleftrightarrow> (\<exists>validators mapping leader. e2v (v_Epoch (qc_Info qc)) (qc_GetRound qc) = Ok (Inr (validators, mapping, leader))
     \<and> (if qc_GetRound qc = GENESIS_ROUND then qcEqual qc GenesisQC
        else \<exists>signers. sigcol_Verify cr (qc_Signatures qc) DomainVote mapping (Vote_EncodeRLP [] (qc_Info qc)) = Ok signers
          \<and> HasSuperMajorityVotes validators signers = Ok True))"

definition valid_nec :: "crypto \<Rightarrow> 'e EpochToValidators \<Rightarrow> NoEndorsementCertificate \<Rightarrow> bool" where
  "valid_nec cr e2v nec \<longleftrightarrow> (\<exists>validators mapping leader signers.
     e2v (ne_Epoch (nec_Msg nec)) (ne_Round (nec_Msg nec)) = Ok (Inr (validators, mapping, leader))
     \<and> sigcol_Verify cr (nec_Signatures nec) DomainNoEndorsement mapping (NoEndorsement_EncodeRLP [] (nec_Msg nec)) = Ok signers
     \<and> HasSuperMajorityVotes validators signers = Ok True)"

text \<open>The tuples of a timeout certificate: each is older than the certificate, signed by someone, and its signers sign its rounds; no pair of rounds and no node occurs twice.\<close>

definition tuple_signed :: "crypto \<Rightarrow> ValidatorMapping \<Rightarrow> TimeoutCertificate \<Rightarrow> HighTipRoundSigColTuple \<Rightarrow> node_id list \<Rightarrow> bool" where
  "tuple_signed cr mapping tc t signers \<longleftrightarrow> ht_HighQcRound t < tc_Round tc \<and> sigcol_NumSignatures (ht_Sigs t) \<noteq> 0
     \<and> sigcol_Verify cr (ht_Sigs t) DomainTimeout mapping (TimeoutInfo_EncodeRLP [] \<lparr>ti_Epoch = tc_Epoch tc, ti_Round = tc_Round tc,
         ti_HighQcRound = ht_HighQcRound t, ti_HighTipRound = ht_HighTipRound t\<rparr>) = Ok signers"

definition better_rank :: "HighTipRoundSigColTuple \<Rightarrow> HighExtendRank \<Rightarrow> HighExtendRank" where
  "better_rank t r = (if HighExtendRank_Cmp (HighTipRoundSigColTuple_Rank t) r > 0 then HighTipRoundSigColTuple_Rank t else r)"

abbreviation tuple_rounds :: "HighTipRoundSigColTuple \<Rightarrow> round \<times> round" where
  "tuple_rounds t \<equiv> (ht_HighQcRound t, ht_HighTipRound t)"

definition tc_quorum :: "crypto \<Rightarrow> 'e EpochToValidators \<Rightarrow> TimeoutCertificate \<Rightarrow> bool" where
  "tc_quorum cr e2v tc \<longleftrightarrow> (\<exists>validators mapping leader signers.
     e2v (tc_Epoch tc) (tc_Round tc) = Ok (Inr (validators, mapping, leader))
     \<and> length (tc_TipRounds tc) \<le> length (vs_members validators)
     \<and> distinct (map tuple_rounds (tc_TipRounds tc))
     \<and> list_all2 (tuple_signed cr mapping tc) (tc_TipRounds tc) signers \<and> distinct (concat signers)
     \<and> HasSuperMajorityVotes validators (concat signers) = Ok True
     \<and> HighExtendRank_Cmp (HighExtend_Rank (tc_HighExtend tc)) (fold better_rank (tc_TipRounds tc) (RankQc GENESIS_ROUND)) = 0)"

definition valid_tip :: "crypto \<Rightarrow> 'e EpochToValidators \<Rightarrow> ConsensusTip \<Rightarrow> bool" where
  "valid_tip cr e2v tip \<longleftrightarrow> (\<exists>validators mapping leader.
     e2v (bh_Epoch (tip_BlockHeader tip)) (bh_BlockRound (tip_BlockHeader tip)) = Ok (Inr (validators, mapping, leader))
     \<and> tip_SignatureAuthor cr tip = Some leader \<and> bh_Author (tip_BlockHeader tip) = leader)
   \<and> fresh_certificate_ok tip \<and> valid_qc cr e2v (bh_QC (tip_BlockHeader tip))
   \<and> (case tip_FreshCertificate tip of
        None \<Rightarrow> True
      | Some (FPC_Nec nec) \<Rightarrow> valid_nec cr e2v nec
      | Some (FPC_NoTip noTip) \<Rightarrow> tc_quorum cr e2v (tc_of_NoTip noTip) \<and> valid_qc cr e2v (nt_HighQc noTip))"

fun valid_extend :: "crypto \<Rightarrow> 'e EpochToValidators \<Rightarrow> HighExtend \<Rightarrow> bool" where
  "valid_extend cr e2v (HE_Tip tip) = valid_tip cr e2v tip"
| "valid_extend cr e2v (HE_QC qc) = valid_qc cr e2v qc"

definition valid_tc :: "crypto \<Rightarrow> 'e EpochToValidators \<Rightarrow> TimeoutCertificate \<Rightarrow> bool" where
  "valid_tc cr e2v tc \<longleftrightarrow> tc_quorum cr e2v tc \<and> valid_extend cr e2v (tc_HighExtend tc)"

section \<open>The loop over the tip rounds\<close>

lemma mark_signers_eq:
  "mark_signers signers seen = (if distinct signers \<and> set signers \<inter> seen = {} then Some (seen \<union> set signers) else None)"
  by (induction signers arbitrary: seen) auto

lemma attempt_Inr: "attempt m e = Ok (Inr x) \<longleftrightarrow> m = Ok x"
  by (cases m) (simp_all add: attempt_def)

lemma tip_rounds_loop_iff:
  "(tip_rounds_loop cr mapping tc ts seenR seenN nodeIds rank :: ('e, _) lookup) = Ok (Inr (ids, rank')) \<longleftrightarrow>
    (\<exists>signers. list_all2 (tuple_signed cr mapping tc) ts signers \<and> distinct (map tuple_rounds ts)
       \<and> set (map tuple_rounds ts) \<inter> seenR = {} \<and> distinct (concat signers) \<and> set (concat signers) \<inter> seenN = {}
       \<and> ids = nodeIds @ concat signers \<and> rank' = fold better_rank ts rank)"
proof (induction ts arbitrary: seenR seenN nodeIds rank)
  case (Cons t ts)
  let ?v = "sigcol_Verify cr (ht_Sigs t) DomainTimeout mapping (TimeoutInfo_EncodeRLP [] \<lparr>ti_Epoch = tc_Epoch tc, ti_Round = tc_Round tc,
         ti_HighQcRound = ht_HighQcRound t, ti_HighTipRound = ht_HighTipRound t\<rparr>)"
  have "(tip_rounds_loop cr mapping tc (t # ts) seenR seenN nodeIds rank :: ('e, _) lookup) = Ok (Inr (ids, rank'))
    \<longleftrightarrow> (\<exists>signers. tuple_signed cr mapping tc t signers \<and> tuple_rounds t \<notin> seenR \<and> distinct signers \<and> set signers \<inter> seenN = {}
      \<and> (tip_rounds_loop cr mapping tc ts (insert (tuple_rounds t) seenR) (seenN \<union> set signers) (nodeIds @ signers) (better_rank t rank)
          :: ('e, _) lookup) = Ok (Inr (ids, rank')))"
    by (cases ?v) (auto simp: tuple_signed_def attempt_def better_rank_def mark_signers_eq Let_def not_le)
  also have "\<dots> \<longleftrightarrow> (\<exists>signers. list_all2 (tuple_signed cr mapping tc) (t # ts) signers \<and> distinct (map tuple_rounds (t # ts))
       \<and> set (map tuple_rounds (t # ts)) \<inter> seenR = {} \<and> distinct (concat signers) \<and> set (concat signers) \<inter> seenN = {}
       \<and> ids = nodeIds @ concat signers \<and> rank' = fold better_rank (t # ts) rank)"
    unfolding Cons.IH list_all2_Cons1 by fastforce
  finally show ?case .
qed auto

section \<open>Caches of valid certificates\<close>

abbreviation bounded :: "('a \<Rightarrow> bytes) \<Rightarrow> ('a \<Rightarrow> bool) \<Rightarrow> 'a \<Rightarrow> bool" where
  "bounded enc fit x \<equiv> fit x \<and> length (enc x) < 2 ^ 62"

definition memo_ok :: "('a \<Rightarrow> bytes) \<Rightarrow> ('a \<Rightarrow> bool) \<Rightarrow> ('a \<Rightarrow> bool) \<Rightarrow> lru \<Rightarrow> bool" where
  "memo_ok enc fit valid c \<longleftrightarrow> (\<forall>x. bounded enc fit x \<longrightarrow> lru_contains c (enc x) \<longrightarrow> valid x)"

lemma lru_contains_put: "lru_contains (lru_put k c) k' \<Longrightarrow> k' = k \<or> lru_contains c k'"
  by (auto simp: lru_put_def lru_contains_def Let_def split: if_splits)

context rlp_codec
begin

lemma memo_hit: "memo_ok enc wf valid c \<Longrightarrow> bounded enc wf x \<Longrightarrow> lru_contains c (enc x) \<Longrightarrow> valid x"
  by (simp add: memo_ok_def)

lemma memo_put: "memo_ok enc wf valid c \<Longrightarrow> wf x \<Longrightarrow> valid x \<Longrightarrow> memo_ok enc wf valid (lru_put (enc x) c)"
  unfolding memo_ok_def using lru_contains_put enc_inj by metis

end

definition cache_ok :: "crypto \<Rightarrow> exec_protocol \<Rightarrow> 'e EpochToValidators \<Rightarrow> CertificateCache \<Rightarrow> bool" where
  "cache_ok cr ep e2v c \<longleftrightarrow>
     memo_ok (QuorumCertificate_EncodeRLP []) (wf_QC cr) (valid_qc cr e2v) (cc_qcLRU c)
   \<and> memo_ok (TimeoutCertificate_EncodeRLP []) (wf_TC cr ep) (valid_tc cr e2v) (cc_tcLRU c)
   \<and> memo_ok (NoEndorsementCertificate_EncodeRLP []) (wf_NEC cr) (valid_nec cr e2v) (cc_necLRU c)"

lemma cache_ok_new: "cache_ok cr ep e2v NewCertificateCache"
  by (simp add: cache_ok_def memo_ok_def NewCertificateCache_def newLRU_def lru_contains_def)

lemma cache_ok_hit:
  assumes "cache_ok cr ep e2v c"
  shows "bounded (QuorumCertificate_EncodeRLP []) (wf_QC cr) qc \<Longrightarrow> QCIsCachedValidated c qc \<Longrightarrow> valid_qc cr e2v qc"
    and "bounded (TimeoutCertificate_EncodeRLP []) (wf_TC cr ep) tc \<Longrightarrow> TCIsCachedValidated c tc \<Longrightarrow> valid_tc cr e2v tc"
    and "bounded (NoEndorsementCertificate_EncodeRLP []) (wf_NEC cr) nec \<Longrightarrow> NECIsCachedValidated c nec \<Longrightarrow> valid_nec cr e2v nec"
  using assms unfolding cache_ok_def QCIsCachedValidated_def TCIsCachedValidated_def NECIsCachedValidated_def
  by (blast intro: qc_rlp.memo_hit tc_rlp.memo_hit nec_rlp.memo_hit)+

lemma cache_ok_put:
  assumes "cache_ok cr ep e2v c"
  shows "wf_QC cr qc \<Longrightarrow> valid_qc cr e2v qc \<Longrightarrow> cache_ok cr ep e2v (CacheValidatedQC qc c)"
    and "wf_TC cr ep tc \<Longrightarrow> valid_tc cr e2v tc \<Longrightarrow> cache_ok cr ep e2v (CacheValidatedTC tc c)"
    and "wf_NEC cr nec \<Longrightarrow> valid_nec cr e2v nec \<Longrightarrow> cache_ok cr ep e2v (CacheValidatedNEC nec c)"
  using assms unfolding cache_ok_def CacheValidatedQC_def CacheValidatedTC_def CacheValidatedNEC_def
  by (simp_all add: qc_rlp.memo_put tc_rlp.memo_put nec_rlp.memo_put)

section \<open>Exact checks\<close>

text \<open>A check that accepts exactly under a condition, and keeps an invariant of the cache whatever it answers.\<close>

definition checks :: "(CertificateCache \<Rightarrow> bool) \<Rightarrow> bool \<Rightarrow> 'e checker \<Rightarrow> bool" where
  "checks I V f \<longleftrightarrow> (\<forall>c. I c \<longrightarrow> ((\<exists>c'. f c = Ok (None, c')) \<longleftrightarrow> V) \<and> (\<forall>r c'. f c = Ok (r, c') \<longrightarrow> I c'))"

lemma checks_accept: "V \<Longrightarrow> checks I V accept"
  by (simp add: checks_def accept_def)

lemma checks_reject: "\<not> V \<Longrightarrow> checks I V (reject e)"
  by (auto simp: checks_def reject_def)

lemma checks_store: "V \<Longrightarrow> (\<And>c. I c \<Longrightarrow> I (u c)) \<Longrightarrow> checks I V (\<lambda>c. accept (u c))"
  by (simp add: checks_def accept_def)

lemma checks_and_then:
  assumes "\<And>x. m = Ok (Inr x) \<Longrightarrow> checks I V (f x)" and "V \<Longrightarrow> \<exists>x. m = Ok (Inr x)"
  shows "checks I V (and_then m f)"
proof (cases m)
  case (Ok r)
  then show ?thesis using assms by (cases r) (auto simp: checks_def and_then_def reject_def)
qed (use assms(2) in \<open>auto simp: checks_def and_then_def\<close>)

lemma checks_also:
  assumes f: "checks I U f" and g: "U \<Longrightarrow> checks I V g" and V: "V \<Longrightarrow> U"
  shows "checks I V (also_check f g)"
  unfolding checks_def
proof (intro allI impI)
  fix c assume c: "I c"
  show "((\<exists>c'. also_check f g c = Ok (None, c')) \<longleftrightarrow> V) \<and> (\<forall>r c'. also_check f g c = Ok (r, c') \<longrightarrow> I c')"
  proof (cases "f c")
    case (Ok rc)
    obtain r c1 where rc: "rc = (r, c1)" by (cases rc)
    with Ok f c have "I c1" "(r = None) = U" unfolding checks_def by (metis go.inject(1) prod.inject)+
    then show ?thesis using g V Ok rc by (cases r) (auto simp: also_check_def reject_def checks_def)
  qed (use f c V in \<open>auto simp: also_check_def checks_def\<close>)
qed

lemma checks_stake:
  assumes "HasSuperMajorityVotes vs ids = Ok True \<Longrightarrow> checks I V k" and "V \<Longrightarrow> HasSuperMajorityVotes vs ids = Ok True"
  shows "checks I V (check_stake vs ids k)"
  unfolding check_stake_def
proof (rule checks_and_then)
  fix ok assume ok: "attempt (HasSuperMajorityVotes vs ids) ErrSignaturesDuplicateNode = Ok (Inr ok)"
  show "checks I V (if \<not> ok then reject ErrInsufficientStake else k)"
    using ok assms by (cases ok) (auto simp: attempt_Inr intro: checks_reject)
qed (use assms(2) in \<open>auto simp: attempt_Inr\<close>)

lemma checks_cached:
  assumes "\<And>c. I c \<Longrightarrow> cached c \<Longrightarrow> V" and "checks I V f"
  shows "checks I V (\<lambda>c. if cached c then accept c else f c)"
  using assms unfolding checks_def accept_def by auto

section \<open>Quorum and no-endorsement certificates\<close>

abbreviation bounded_qc :: "crypto \<Rightarrow> QuorumCertificate \<Rightarrow> bool" where
  "bounded_qc cr \<equiv> bounded (QuorumCertificate_EncodeRLP []) (wf_QC cr)"

abbreviation bounded_nec :: "crypto \<Rightarrow> NoEndorsementCertificate \<Rightarrow> bool" where
  "bounded_nec cr \<equiv> bounded (NoEndorsementCertificate_EncodeRLP []) (wf_NEC cr)"

abbreviation bounded_tc :: "crypto \<Rightarrow> exec_protocol \<Rightarrow> TimeoutCertificate \<Rightarrow> bool" where
  "bounded_tc cr ep \<equiv> bounded (TimeoutCertificate_EncodeRLP []) (wf_TC cr ep)"

lemma checks_quorum:
  assumes "V \<longleftrightarrow> (\<exists>signers. sigcol_Verify cr sc d m msg = Ok signers \<and> HasSuperMajorityVotes vs signers = Ok True)"
    and "V \<Longrightarrow> checks I V k"
  shows "checks I V (and_then (attempt (sigcol_Verify cr sc d m msg) ErrInvalidSignature) (\<lambda>ids. check_stake vs ids k))"
proof (rule checks_and_then)
  fix ids assume "attempt (sigcol_Verify cr sc d m msg) ErrInvalidSignature = Ok (Inr ids)"
  then have v: "sigcol_Verify cr sc d m msg = Ok ids" by (simp add: attempt_Inr)
  show "checks I V (check_stake vs ids k)"
    by (rule checks_stake) (use assms v in auto)
qed (use assms(1) in \<open>auto simp: attempt_Inr\<close>)

lemma VerifyQC_checks:
  assumes "bounded_qc cr qc"
  shows "checks (cache_ok cr ep e2v) (valid_qc cr e2v qc) (VerifyQC cr e2v qc)"
  unfolding VerifyQC_def[abs_def]
proof (intro checks_cached checks_and_then)
  fix x assume e: "e2v (v_Epoch (qc_Info qc)) (qc_GetRound qc) = Ok (Inr x)"
  obtain vs m l where x: "x = (vs, m, l)" by (cases x)
  have "checks (cache_ok cr ep e2v) (valid_qc cr e2v qc)
      (and_then (attempt (sigcol_Verify cr (qc_Signatures qc) DomainVote m (Vote_EncodeRLP [] (qc_Info qc))) ErrInvalidSignature)
        (\<lambda>nodeIds. check_stake vs nodeIds (\<lambda>cache. accept (CacheValidatedQC qc cache))))" if "qc_GetRound qc \<noteq> GENESIS_ROUND"
    by (rule checks_quorum)
      (use that e x assms in \<open>auto simp: valid_qc_def intro!: checks_store cache_ok_put(1)\<close>)
  then show "checks (cache_ok cr ep e2v) (valid_qc cr e2v qc) (case x of (validators, mapping, _) \<Rightarrow>
      if qc_GetRound qc = GENESIS_ROUND then (if qcEqual qc GenesisQC then accept else reject ErrInvalidSignature)
      else and_then (attempt (sigcol_Verify cr (qc_Signatures qc) DomainVote mapping (Vote_EncodeRLP [] (qc_Info qc))) ErrInvalidSignature)
        (\<lambda>nodeIds. check_stake validators nodeIds (\<lambda>cache. accept (CacheValidatedQC qc cache))))"
    using e x by (auto simp: valid_qc_def intro!: checks_accept checks_reject)
next
  show "valid_qc cr e2v qc" if "cache_ok cr ep e2v c" "QCIsCachedValidated c qc" for c
    using cache_ok_hit(1)[OF that(1) assms that(2)] .
qed (auto simp: valid_qc_def)

lemma VerifyNEC_checks:
  assumes "bounded_nec cr nec"
  shows "checks (cache_ok cr ep e2v) (valid_nec cr e2v nec) (VerifyNEC cr e2v nec)"
  unfolding VerifyNEC_def[abs_def]
proof (intro checks_cached checks_and_then)
  fix x assume e: "e2v (ne_Epoch (nec_Msg nec)) (ne_Round (nec_Msg nec)) = Ok (Inr x)"
  obtain vs m l where x: "x = (vs, m, l)" by (cases x)
  show "checks (cache_ok cr ep e2v) (valid_nec cr e2v nec) (case x of (validators, mapping, _) \<Rightarrow>
      and_then (attempt (sigcol_Verify cr (nec_Signatures nec) DomainNoEndorsement mapping
          (NoEndorsement_EncodeRLP [] (nec_Msg nec))) ErrInvalidSignature)
        (\<lambda>nodeIds. check_stake validators nodeIds (\<lambda>cache. accept (CacheValidatedNEC nec cache))))"
    unfolding x prod.case
    by (rule checks_quorum)
      (use e x assms in \<open>auto simp: valid_nec_def intro!: checks_store cache_ok_put(3)\<close>)
next
  show "valid_nec cr e2v nec" if "cache_ok cr ep e2v c" "NECIsCachedValidated c nec" for c
    using cache_ok_hit(3)[OF that(1) assms that(2)] .
qed (auto simp: valid_nec_def)

section \<open>Timeout certificates and tips\<close>

definition bounded_tip :: "crypto \<Rightarrow> exec_protocol \<Rightarrow> ConsensusTip \<Rightarrow> bool" where
  "bounded_tip cr ep tip \<longleftrightarrow> bounded_qc cr (bh_QC (tip_BlockHeader tip))
     \<and> (case tip_FreshCertificate tip of
          None \<Rightarrow> True
        | Some (FPC_Nec nec) \<Rightarrow> bounded_nec cr nec
        | Some (FPC_NoTip noTip) \<Rightarrow> bounded_tc cr ep (tc_of_NoTip noTip) \<and> bounded_qc cr (nt_HighQc noTip))"

fun bounded_extend :: "crypto \<Rightarrow> exec_protocol \<Rightarrow> HighExtend \<Rightarrow> bool" where
  "bounded_extend cr ep (HE_Tip tip) = bounded_tip cr ep tip"
| "bounded_extend cr ep (HE_QC qc) = bounded_qc cr qc"

text \<open>What is left of \<open>VerifyTC\<close> after the lookups.\<close>

abbreviation finish_tc :: "crypto \<Rightarrow> 'e EpochToValidators \<Rightarrow> TimeoutCertificate \<Rightarrow> HighExtendRank \<Rightarrow> 'e checker" where
  "finish_tc cr e2v tc rank \<equiv> also_check
     (\<lambda>cache. VerifyHighExtend cr e2v (tc_HighExtend tc) cache)
     (if HighExtendRank_Cmp (HighExtend_Rank (tc_HighExtend tc)) rank \<noteq> 0 then reject ErrNotWellFormed
      else (\<lambda>cache. accept (CacheValidatedTC tc cache)))"

lemma finish_tc_checks:
  assumes "wf_TC cr ep tc"
    and he: "checks (cache_ok cr ep e2v) (valid_extend cr e2v (tc_HighExtend tc)) (VerifyHighExtend cr e2v (tc_HighExtend tc))"
    and "tc_quorum cr e2v tc \<longleftrightarrow> HighExtendRank_Cmp (HighExtend_Rank (tc_HighExtend tc)) rank = 0"
  shows "checks (cache_ok cr ep e2v) (valid_tc cr e2v tc) (finish_tc cr e2v tc rank)"
proof (rule checks_also[OF he])
  assume "valid_extend cr e2v (tc_HighExtend tc)"
  then have "valid_tc cr e2v tc \<longleftrightarrow> HighExtendRank_Cmp (HighExtend_Rank (tc_HighExtend tc)) rank = 0"
    using assms(3) by (simp add: valid_tc_def)
  then show "checks (cache_ok cr ep e2v) (valid_tc cr e2v tc)
      (if HighExtendRank_Cmp (HighExtend_Rank (tc_HighExtend tc)) rank \<noteq> 0 then reject ErrNotWellFormed
       else (\<lambda>cache. accept (CacheValidatedTC tc cache)))"
    using assms(1) by (simp add: checks_reject checks_store cache_ok_put(2))
qed (simp add: valid_tc_def)

lemma tuple_signed_unique:
  assumes "list_all2 (tuple_signed cr m tc) ts ss" "list_all2 (tuple_signed cr m tc) ts ss'"
  shows "ss = ss'"
  using assms by (auto simp: tuple_signed_def list_eq_iff_nth_eq list_all2_conv_all_nth)

lemma tip_rounds_checks:
  assumes wf: "wf_TC cr ep tc" and e: "e2v (tc_Epoch tc) (tc_Round tc) = Ok (Inr (vs, m, l))"
    and len: "length (tc_TipRounds tc) \<le> length (vs_members vs)"
    and he: "checks (cache_ok cr ep e2v) (valid_extend cr e2v (tc_HighExtend tc)) (VerifyHighExtend cr e2v (tc_HighExtend tc))"
  shows "checks (cache_ok cr ep e2v) (valid_tc cr e2v tc)
      (and_then (tip_rounds_loop cr m tc (tc_TipRounds tc) {} {} [] (RankQc GENESIS_ROUND))
        (\<lambda>(nodeIds, highestRank). check_stake vs nodeIds (finish_tc cr e2v tc highestRank)))"
proof (rule checks_and_then)
  let ?rank = "fold better_rank (tc_TipRounds tc) (RankQc GENESIS_ROUND)"
  fix y assume "tip_rounds_loop cr m tc (tc_TipRounds tc) {} {} [] (RankQc GENESIS_ROUND) = Ok (Inr y)"
  then obtain signers where s: "list_all2 (tuple_signed cr m tc) (tc_TipRounds tc) signers"
    "distinct (map tuple_rounds (tc_TipRounds tc))" "distinct (concat signers)" and y: "y = (concat signers, ?rank)"
    by (cases y) (auto simp: tip_rounds_loop_iff)
  have "tc_quorum cr e2v tc \<longleftrightarrow> (\<exists>ss. list_all2 (tuple_signed cr m tc) (tc_TipRounds tc) ss
      \<and> distinct (concat ss) \<and> HasSuperMajorityVotes vs (concat ss) = Ok True
      \<and> HighExtendRank_Cmp (HighExtend_Rank (tc_HighExtend tc)) ?rank = 0)"
    using len s(2) unfolding tc_quorum_def e by auto
  then have quorum: "tc_quorum cr e2v tc \<longleftrightarrow> HasSuperMajorityVotes vs (concat signers) = Ok True
      \<and> HighExtendRank_Cmp (HighExtend_Rank (tc_HighExtend tc)) ?rank = 0"
    using s(1,3) tuple_signed_unique by metis
  show "checks (cache_ok cr ep e2v) (valid_tc cr e2v tc)
      (case y of (nodeIds, highestRank) \<Rightarrow> check_stake vs nodeIds (finish_tc cr e2v tc highestRank))"
    unfolding y prod.case by (intro checks_stake finish_tc_checks[OF wf he]) (simp_all add: valid_tc_def quorum)
qed (auto simp: valid_tc_def tc_quorum_def e tip_rounds_loop_iff)

lemma VerifyTC_checks_if:
  assumes "bounded_tc cr ep tc"
    and he: "checks (cache_ok cr ep e2v) (valid_extend cr e2v (tc_HighExtend tc)) (VerifyHighExtend cr e2v (tc_HighExtend tc))"
  shows "checks (cache_ok cr ep e2v) (valid_tc cr e2v tc) (VerifyTC cr e2v tc)"
  unfolding VerifyTC.simps[abs_def]
proof (intro checks_cached checks_and_then)
  fix x assume e: "e2v (tc_Epoch tc) (tc_Round tc) = Ok (Inr x)"
  obtain vs m l where x: "x = (vs, m, l)" by (cases x)
  show "checks (cache_ok cr ep e2v) (valid_tc cr e2v tc) (case x of (validators, mapping, _) \<Rightarrow>
      if length (tc_TipRounds tc) > length (vs_members validators) then reject ErrTooManyTcTipRound else
      and_then (tip_rounds_loop cr mapping tc (tc_TipRounds tc) {} {} [] (RankQc GENESIS_ROUND))
        (\<lambda>(nodeIds, highestRank). check_stake validators nodeIds (finish_tc cr e2v tc highestRank)))"
  proof (cases "length (tc_TipRounds tc) \<le> length (vs_members vs)")
    case True
    with tip_rounds_checks[of cr ep tc e2v, OF _ e[unfolded x] True he] assms(1) show ?thesis by (simp add: x)
  next
    case False
    then have "\<not> valid_tc cr e2v tc" by (auto simp: valid_tc_def tc_quorum_def e x)
    with False show ?thesis by (simp add: x checks_reject)
  qed
next
  show "valid_tc cr e2v tc" if "cache_ok cr ep e2v c" "TCIsCachedValidated c tc" for c
    using cache_ok_hit(2)[OF that(1) assms(1) that(2)] .
qed (auto simp: valid_tc_def tc_quorum_def)

lemma VerifyHighExtend_eqs:
  "VerifyHighExtend cr e2v (HE_Tip tip) = VerifyTip cr e2v tip" "VerifyHighExtend cr e2v (HE_QC qc) = VerifyQC cr e2v qc"
  by (simp_all add: fun_eq_iff)

lemma fresh_checks:
  assumes "bounded_tip cr ep tip"
  shows "checks (cache_ok cr ep e2v) (case tip_FreshCertificate tip of
        None \<Rightarrow> True
      | Some (FPC_Nec nec) \<Rightarrow> valid_nec cr e2v nec
      | Some (FPC_NoTip noTip) \<Rightarrow> tc_quorum cr e2v (tc_of_NoTip noTip) \<and> valid_qc cr e2v (nt_HighQc noTip))
    (case tip_FreshCertificate tip of
        None \<Rightarrow> accept
      | Some (FPC_Nec nec) \<Rightarrow> VerifyNEC cr e2v nec
      | Some (FPC_NoTip noTip) \<Rightarrow> (\<lambda>cache. VerifyTC cr e2v (tc_of_NoTip noTip) cache))"
proof (cases "tip_FreshCertificate tip")
  case None
  then show ?thesis by (simp add: checks_accept)
next
  case (Some fc)
  show ?thesis
  proof (cases fc)
    case (FPC_Nec nec)
    with Some assms show ?thesis by (simp add: VerifyNEC_checks bounded_tip_def)
  next
    case (FPC_NoTip nt)
    with Some assms have "bounded_tc cr ep (tc_of_NoTip nt)" "bounded_qc cr (nt_HighQc nt)" by (auto simp: bounded_tip_def)
    with VerifyTC_checks_if[OF this(1), of e2v] VerifyQC_checks[OF this(2), of ep e2v] Some FPC_NoTip
    show ?thesis by (simp add: VerifyHighExtend_eqs valid_tc_def)
  qed
qed

lemma VerifyTip_checks:
  assumes "bounded_tip cr ep tip"
  shows "checks (cache_ok cr ep e2v) (valid_tip cr e2v tip) (VerifyTip cr e2v tip)"
  unfolding VerifyTip.simps[abs_def]
proof (rule checks_and_then)
  fix x assume e: "e2v (bh_Epoch (tip_BlockHeader tip)) (bh_BlockRound (tip_BlockHeader tip)) = Ok (Inr x)"
  obtain vs m leader where x: "x = (vs, m, leader)" by (cases x)
  have q: "checks (cache_ok cr ep e2v) (valid_qc cr e2v (bh_QC (tip_BlockHeader tip))) (VerifyQC cr e2v (bh_QC (tip_BlockHeader tip)))"
    using assms by (intro VerifyQC_checks) (simp add: bounded_tip_def)
  show "checks (cache_ok cr ep e2v) (valid_tip cr e2v tip) (case x of (_, _, leader) \<Rightarrow> case tip_SignatureAuthor cr tip of
         None \<Rightarrow> reject ErrInvalidSignature
       | Some tipAuthor \<Rightarrow>
           if tipAuthor \<noteq> leader \<or> tipAuthor \<noteq> bh_Author (tip_BlockHeader tip) then reject ErrInvalidAuthor
           else if \<not> fresh_certificate_ok tip then reject ErrNotWellFormed
           else also_check (VerifyQC cr e2v (bh_QC (tip_BlockHeader tip)))
             (case tip_FreshCertificate tip of
                None \<Rightarrow> accept
              | Some (FPC_Nec nec) \<Rightarrow> VerifyNEC cr e2v nec
              | Some (FPC_NoTip noTip) \<Rightarrow> (\<lambda>cache. VerifyTC cr e2v (tc_of_NoTip noTip) cache)))"
  proof (cases "tip_SignatureAuthor cr tip = Some leader \<and> bh_Author (tip_BlockHeader tip) = leader \<and> fresh_certificate_ok tip")
    case True
    then have v: "valid_tip cr e2v tip \<longleftrightarrow> valid_qc cr e2v (bh_QC (tip_BlockHeader tip)) \<and> (case tip_FreshCertificate tip of
        None \<Rightarrow> True
      | Some (FPC_Nec nec) \<Rightarrow> valid_nec cr e2v nec
      | Some (FPC_NoTip noTip) \<Rightarrow> tc_quorum cr e2v (tc_of_NoTip noTip) \<and> valid_qc cr e2v (nt_HighQc noTip))"
      unfolding valid_tip_def e x by simp
    have "checks (cache_ok cr ep e2v) (valid_tip cr e2v tip) (also_check (VerifyQC cr e2v (bh_QC (tip_BlockHeader tip)))
        (case tip_FreshCertificate tip of
           None \<Rightarrow> accept
         | Some (FPC_Nec nec) \<Rightarrow> VerifyNEC cr e2v nec
         | Some (FPC_NoTip noTip) \<Rightarrow> (\<lambda>cache. VerifyTC cr e2v (tc_of_NoTip noTip) cache)))"
      by (rule checks_also[OF q]) (use fresh_checks[OF assms, of e2v] v in simp_all)
    with True show ?thesis by (simp add: x)
  next
    case False
    then have "\<not> valid_tip cr e2v tip" unfolding valid_tip_def e x by auto
    with False show ?thesis by (auto simp: x checks_reject split: option.splits)
  qed
qed (auto simp: valid_tip_def)

lemma VerifyHighExtend_checks:
  assumes "bounded_extend cr ep he"
  shows "checks (cache_ok cr ep e2v) (valid_extend cr e2v he) (VerifyHighExtend cr e2v he)"
  using assms by (cases he) (simp_all add: VerifyHighExtend_eqs VerifyTip_checks VerifyQC_checks)

lemma VerifyTC_checks:
  assumes "bounded_tc cr ep tc" and "bounded_extend cr ep (tc_HighExtend tc)"
  shows "checks (cache_ok cr ep e2v) (valid_tc cr e2v tc) (VerifyTC cr e2v tc)"
  by (rule VerifyTC_checks_if[OF assms(1) VerifyHighExtend_checks[OF assms(2)]])

section \<open>Messages\<close>

abbreviation epoch_ok :: "EpochManager \<Rightarrow> round \<Rightarrow> epoch \<Rightarrow> bool" where
  "epoch_ok em round epoch \<equiv> GetEpoch em round = Some epoch"

fun valid_round_certificate :: "crypto \<Rightarrow> 'e EpochToValidators \<Rightarrow> RoundCertificate \<Rightarrow> bool" where
  "valid_round_certificate cr e2v (RC_QC qc) = valid_qc cr e2v qc"
| "valid_round_certificate cr e2v (RC_TC tc) = valid_tc cr e2v tc"

fun valid_message :: "crypto \<Rightarrow> EpochManager \<Rightarrow> 'e EpochToValidators \<Rightarrow> round \<Rightarrow> ProtocolMessage \<Rightarrow> bool" where
  "valid_message cr em e2v currentRound (PMProposal m) \<longleftrightarrow> wellFormedProposal cr m \<and> epoch_ok em (pm_ProposalRound m) (pm_ProposalEpoch m)
     \<and> valid_tip cr e2v (pm_Tip m) \<and> pred_option (valid_tc cr e2v) (pm_LastRoundTC m)"
| "valid_message cr em e2v currentRound (PMVote m) \<longleftrightarrow> blst_SigValidate cr (vm_Sig m)
     \<and> epoch_ok em (v_Round (vm_Vote m)) (v_Epoch (vm_Vote m))"
| "valid_message cr em e2v currentRound (PMTimeout m) \<longleftrightarrow> blst_SigValidate cr (tm_TimeoutSignature m) \<and> wellFormedTimeout m
     \<and> epoch_ok em (ti_Round (tm_TmInfo m)) (ti_Epoch (tm_TmInfo m))
     \<and> pred_option (valid_round_certificate cr e2v) (tm_LastRoundCertificate (clear_certificate currentRound m))
     \<and> valid_extend cr e2v (AsHighExtend (tm_HighExtend m))"
| "valid_message cr em e2v currentRound (PMRoundRecovery m) \<longleftrightarrow> ImmediatelyFollows (rm_Round m) (tc_Round (rm_TC m))
     \<and> (\<exists>tip. tc_HighExtend (rm_TC m) = HE_Tip tip) \<and> epoch_ok em (rm_Round m) (rm_Epoch m) \<and> valid_tc cr e2v (rm_TC m)"
| "valid_message cr em e2v currentRound (PMNoEndorsement m) \<longleftrightarrow> blst_SigValidate cr (nm_Signature m)
     \<and> epoch_ok em (ne_Round (nm_Msg m)) (ne_Epoch (nm_Msg m))"
| "valid_message cr em e2v currentRound (PMAdvanceRound m) \<longleftrightarrow> valid_round_certificate cr e2v (am_LastRoundCertificate m)"

text \<open>Every certificate of a message is well formed and shorter than the decoder's bound.\<close>

abbreviation bounded_all_tc :: "crypto \<Rightarrow> exec_protocol \<Rightarrow> TimeoutCertificate \<Rightarrow> bool" where
  "bounded_all_tc cr ep tc \<equiv> bounded_tc cr ep tc \<and> bounded_extend cr ep (tc_HighExtend tc)"

fun bounded_round_certificate :: "crypto \<Rightarrow> exec_protocol \<Rightarrow> RoundCertificate \<Rightarrow> bool" where
  "bounded_round_certificate cr ep (RC_QC qc) \<longleftrightarrow> bounded_qc cr qc"
| "bounded_round_certificate cr ep (RC_TC tc) \<longleftrightarrow> bounded_all_tc cr ep tc"

fun bounded_message :: "crypto \<Rightarrow> exec_protocol \<Rightarrow> ProtocolMessage \<Rightarrow> bool" where
  "bounded_message cr ep (PMProposal m) \<longleftrightarrow> bounded_tip cr ep (pm_Tip m) \<and> pred_option (bounded_all_tc cr ep) (pm_LastRoundTC m)"
| "bounded_message cr ep (PMTimeout m) \<longleftrightarrow> pred_option (bounded_round_certificate cr ep) (tm_LastRoundCertificate m)
     \<and> bounded_extend cr ep (AsHighExtend (tm_HighExtend m))"
| "bounded_message cr ep (PMRoundRecovery m) \<longleftrightarrow> bounded_all_tc cr ep (rm_TC m)"
| "bounded_message cr ep (PMAdvanceRound m) \<longleftrightarrow> bounded_round_certificate cr ep (am_LastRoundCertificate m)"
| "bounded_message cr ep _ \<longleftrightarrow> True"

lemma round_certificate_checks:
  assumes "bounded_round_certificate cr ep rc"
  shows "checks (cache_ok cr ep e2v) (valid_round_certificate cr e2v rc)
    (case rc of RC_QC qc \<Rightarrow> VerifyQC cr e2v qc | RC_TC tc \<Rightarrow> VerifyTC cr e2v tc)"
  using assms by (cases rc) (simp_all add: VerifyQC_checks VerifyTC_checks)

lemma optional_checks:
  assumes "\<And>x. m = Some x \<Longrightarrow> checks I (V x) (f x)"
  shows "checks I (pred_option V m) (case m of None \<Rightarrow> accept | Some x \<Rightarrow> f x)"
  using assms by (cases m) (simp_all add: checks_accept)

lemma proposal_checks:
  assumes "bounded_message cr ep (PMProposal m)"
  shows "checks (cache_ok cr ep e2v) (valid_message cr em e2v r (PMProposal m)) (validateProposal cr m em e2v)"
proof (cases "wellFormedProposal cr m \<and> epoch_ok em (pm_ProposalRound m) (pm_ProposalEpoch m)")
  case True
  have "checks (cache_ok cr ep e2v) (valid_message cr em e2v r (PMProposal m)) (also_check (VerifyTip cr e2v (pm_Tip m))
      (case pm_LastRoundTC m of None \<Rightarrow> accept | Some tc \<Rightarrow> VerifyTC cr e2v tc))"
  proof (rule checks_also[OF VerifyTip_checks])
    assume v: "valid_tip cr e2v (pm_Tip m)"
    have "checks (cache_ok cr ep e2v) (pred_option (valid_tc cr e2v) (pm_LastRoundTC m))
        (case pm_LastRoundTC m of None \<Rightarrow> accept | Some tc \<Rightarrow> VerifyTC cr e2v tc)"
      using assms by (intro optional_checks VerifyTC_checks) simp_all
    then show "checks (cache_ok cr ep e2v) (valid_message cr em e2v r (PMProposal m))
        (case pm_LastRoundTC m of None \<Rightarrow> accept | Some tc \<Rightarrow> VerifyTC cr e2v tc)"
      using v True by simp
  qed (use assms in simp_all)
  with True show ?thesis by (simp add: validateProposal_def)
qed (auto simp: validateProposal_def intro!: checks_reject)

lemma timeout_checks:
  assumes "bounded_message cr ep (PMTimeout m)"
  shows "checks (cache_ok cr ep e2v) (valid_message cr em e2v r (PMTimeout m)) (validateTimeout cr m em e2v r)"
proof (cases "blst_SigValidate cr (tm_TimeoutSignature m) \<and> wellFormedTimeout m \<and> epoch_ok em (ti_Round (tm_TmInfo m)) (ti_Epoch (tm_TmInfo m))")
  case True
  let ?rc = "tm_LastRoundCertificate (clear_certificate r m)"
  have "checks (cache_ok cr ep e2v) (pred_option (valid_round_certificate cr e2v) ?rc)
      (case ?rc of None \<Rightarrow> accept | Some rc \<Rightarrow> (case rc of RC_QC qc \<Rightarrow> VerifyQC cr e2v qc | RC_TC tc \<Rightarrow> VerifyTC cr e2v tc))"
    by (intro optional_checks round_certificate_checks) (use assms in \<open>auto simp: clear_certificate_def split: if_splits\<close>)
  then have "checks (cache_ok cr ep e2v) (valid_message cr em e2v r (PMTimeout m)) (also_check
      (case ?rc of None \<Rightarrow> accept | Some rc \<Rightarrow> (case rc of RC_QC qc \<Rightarrow> VerifyQC cr e2v qc | RC_TC tc \<Rightarrow> VerifyTC cr e2v tc))
      (VerifyHighExtend cr e2v (AsHighExtend (tm_HighExtend m))))"
    by (rule checks_also) (use assms True VerifyHighExtend_checks[of cr ep "AsHighExtend (tm_HighExtend m)" e2v] in simp_all)
  with True show ?thesis
    by (simp add: validateTimeout_def BlsSignature_Validate_def split: option.splits RoundCertificate.splits)
qed (auto simp: validateTimeout_def BlsSignature_Validate_def intro!: checks_reject)

lemma validate_message_checks:
  assumes "bounded_message cr ep m"
  shows "checks (cache_ok cr ep e2v) (valid_message cr em e2v r m) (validate_message cr m em e2v r)"
proof (cases m)
  case (PMRoundRecovery x)
  show ?thesis
  proof (cases "ImmediatelyFollows (rm_Round x) (tc_Round (rm_TC x)) \<and> (\<exists>tip. tc_HighExtend (rm_TC x) = HE_Tip tip) \<and> epoch_ok em (rm_Round x) (rm_Epoch x)")
    case True
    with assms PMRoundRecovery VerifyTC_checks[of cr ep "rm_TC x" e2v] show ?thesis by (auto simp: validateRoundRecovery_def)
  qed (auto simp: PMRoundRecovery validateRoundRecovery_def intro!: checks_reject split: HighExtend.splits)
next
  case (PMProposal x)
  with proposal_checks assms show ?thesis by simp
next
  case (PMTimeout x)
  with timeout_checks assms show ?thesis by simp
next
  case (PMAdvanceRound x)
  with round_certificate_checks assms show ?thesis by (simp add: validateAdvanceRound_def)
qed (auto simp: validateVote_def validateNoEndorsement_def BlsSignature_Validate_def intro!: checks_accept checks_reject)

abbreviation vf_payload :: "Verified \<Rightarrow> ProtocolMessage" where
  "vf_payload v \<equiv> cm_Message (uv_Obj (vf_Message v))"

text \<open>The caches a node can have: it starts with an empty one and validates messages, one after the other.\<close>

inductive validation_run :: "crypto \<Rightarrow> exec_protocol \<Rightarrow> EpochManager \<Rightarrow> ValidatorsEpochMapping \<Rightarrow> 'e LeaderElection
    \<Rightarrow> CertificateCache \<Rightarrow> bool" for cr ep em vem election where
  start: "validation_run cr ep em vem election NewCertificateCache"
| step: "validation_run cr ep em vem election c \<Longrightarrow> bounded_message cr ep (vf_payload v)
    \<Longrightarrow> Validate cr v c em vem election version r = Ok (x, c') \<Longrightarrow> validation_run cr ep em vem election c'"

lemma Validate_checks:
  assumes "bounded_message cr ep (vf_payload v)" and "cache_ok cr ep (NewEpochToValidators em vem election) c"
  shows "(\<exists>v' c'. Validate cr v c em vem election version r = Ok (Inr v', c')) \<longleftrightarrow> cm_Version (uv_Obj (vf_Message v)) = version
      \<and> valid_message cr em (NewEpochToValidators em vem election) r (vf_payload v)"
    and "Validate cr v c em vem election version r = Ok (x, c') \<Longrightarrow> cache_ok cr ep (NewEpochToValidators em vem election) c'"
  using validate_message_checks[OF assms(1), of "NewEpochToValidators em vem election" em r] assms(2)
  unfolding checks_def
  by (auto simp: Validate_def Let_def go_simps split: option.splits if_splits)

lemma validation_run_ok: "validation_run cr ep em vem election c \<Longrightarrow> cache_ok cr ep (NewEpochToValidators em vem election) c"
  by (induction rule: validation_run.induct) (auto intro: cache_ok_new Validate_checks(2))

section \<open>Properties\<close>


definition example_vem :: ValidatorsEpochMapping where
  "example_vem = (\<lambda>e. if e = 1 then Some \<lparr>ee_valSet = example_set, ee_certPubkeys = example_mapping\<rparr> else None)"

definition example_election :: "'e LeaderElection" where
  "example_election = (\<lambda>_ _. Ok [1])"

definition example_signed_qc :: QuorumCertificate where
  "example_signed_qc = \<lparr>qc_Info = \<lparr>v_ID = replicate 32 7, v_Round = 5, v_Epoch = 1\<rparr>,
     qc_Signatures = \<lparr>sc_Signers = [True, True, True], sc_Sig = Some example_sig, sc_RawSig = example_sig\<rparr>\<rparr>"

definition example_advance_round :: Verified where
  "example_advance_round = \<lparr>vf_Author = [2], vf_Message = \<lparr>uv_Obj = \<lparr>cm_Version = 1,
     cm_Message = PMAdvanceRound \<lparr>am_LastRoundCertificate = RC_QC example_signed_qc\<rparr>\<rparr>, uv_AuthorSignature = replicate 65 0\<rparr>\<rparr>"

abbreviation example_e2v :: "'e EpochToValidators" where
  "example_e2v \<equiv> NewEpochToValidators example_em example_vem example_election"

lemma example_e2v: "example_e2v 1 5 = Ok (Inr (example_set, example_mapping, [1]))"
proof -
  have "GetEpoch example_em 5 = Some 1" by code_simp
  then show ?thesis by (simp add: NewEpochToValidators_def example_vem_def example_election_def GetValSet_def GetCertPubkeys_def)
qed

lemma example_signed_qc_signers:
  "sigcol_Verify example_crypto (qc_Signatures example_signed_qc) DomainVote example_mapping (Vote_EncodeRLP [] (qc_Info example_signed_qc))
     = Ok [[1], [2], [3]]"
  by (simp add: sigcol_Verify_def example_signed_qc_def example_mapping_fields MaxSignersLen_def ValidatorMapping_At_def
      ValidatorMapping_PubKey_def BlsSignature_IsInfinity_def example_sig_def BlsSignatureInfinity_def FastAggregateVerifyPreAggregated_def)

lemma example_signed_qc_bounded: "bounded_qc example_crypto example_signed_qc"
proof -
  have "length (QuorumCertificate_EncodeRLP [] example_signed_qc) < 200" by code_simp
  then show ?thesis
    by (simp add: wf_QC_def wf_Vote_def wf_sigcol_def wf_signers_def example_signed_qc_def example_sig_def BlsSignatureCompressdLen_def
        BlsSignatureUncompress_def MaxSignersLen_def)
qed

lemma example_signed_qc_valid: "valid_qc example_crypto example_e2v example_signed_qc"
proof -
  have "HasSuperMajorityVotes example_set [[1], [2], [3]] = Ok True"
    by (simp add: HasSuperMajorityVotes_weight[OF example_set_inv] example_weight)
  moreover have "v_Epoch (qc_Info example_signed_qc) = 1" "qc_GetRound example_signed_qc = 5"
    by (simp_all add: example_signed_qc_def qc_GetRound_def)
  ultimately show ?thesis unfolding valid_qc_def using example_e2v example_signed_qc_signers by (auto simp: GENESIS_ROUND_def)
qed


text \<open>C5. Two quorum certificates of one round that pass verification, at any two nodes with the same validators, share
  signers with more than a third of the stake, so that some non-faulty node has signed both.\<close>

theorem verified_qcs_share_honest_stake:
  assumes "cache_ok cr ep e2v c1" and "cache_ok cr ep e2v c2" and "bounded_qc cr q1" and "bounded_qc cr q2"
    and "VerifyQC cr e2v q1 c1 = Ok (None, c1')" and "VerifyQC cr e2v q2 c2 = Ok (None, c2')"
    and "v_Epoch (qc_Info q1) = epoch" and "v_Epoch (qc_Info q2) = epoch"
    and "qc_GetRound q1 = round" and "qc_GetRound q2 = round" and "round \<noteq> GENESIS_ROUND"
    and "e2v epoch round = Ok (Inr (validators, mapping, leader))" and "stakes_inv validators" and "total_fits validators"
  shows "\<exists>s1 s2. sigcol_Verify cr (qc_Signatures q1) DomainVote mapping (Vote_EncodeRLP [] (qc_Info q1)) = Ok s1
    \<and> sigcol_Verify cr (qc_Signatures q2) DomainVote mapping (Vote_EncodeRLP [] (qc_Info q2)) = Ok s2
    \<and> honest_share validators (set s1 \<inter> set s2)"
proof -
  have "valid_qc cr e2v q1" "valid_qc cr e2v q2"
    using VerifyQC_checks[OF assms(3), of ep e2v] VerifyQC_checks[OF assms(4), of ep e2v] assms(1,2,5,6) unfolding checks_def by blast+
  then obtain s1 s2 where "sigcol_Verify cr (qc_Signatures q1) DomainVote mapping (Vote_EncodeRLP [] (qc_Info q1)) = Ok s1"
    "sigcol_Verify cr (qc_Signatures q2) DomainVote mapping (Vote_EncodeRLP [] (qc_Info q2)) = Ok s2"
    "HasSuperMajorityVotes validators s1 = Ok True" "HasSuperMajorityVotes validators s2 = Ok True"
    using assms(7-12) unfolding valid_qc_def by auto
  then show ?thesis using super_majority_inter HasSuperMajorityVotes_iff[OF assms(13,14)] by metis
qed

lemma verified_qcs_share_honest_stake_witness:
  "\<exists>c' s1 s2. (VerifyQC example_crypto example_e2v example_signed_qc NewCertificateCache :: (unit, _) go) = Ok (None, c')
    \<and> sigcol_Verify example_crypto (qc_Signatures example_signed_qc) DomainVote example_mapping (Vote_EncodeRLP [] (qc_Info example_signed_qc)) = Ok s1
    \<and> honest_share example_set (set s1 \<inter> set s2)"
proof -
  note c = cache_ok_new[of example_crypto Mock "example_e2v :: unit EpochToValidators"]
  obtain c' where v: "(VerifyQC example_crypto example_e2v example_signed_qc NewCertificateCache :: (unit, _) go) = Ok (None, c')"
    using VerifyQC_checks[OF example_signed_qc_bounded, of Mock "example_e2v :: unit EpochToValidators"] example_signed_qc_valid c
    unfolding checks_def by blast
  have "v_Epoch (qc_Info example_signed_qc) = 1" "qc_GetRound example_signed_qc = 5" "(5 :: round) \<noteq> GENESIS_ROUND"
    by (simp_all add: example_signed_qc_def qc_GetRound_def GENESIS_ROUND_def)
  from verified_qcs_share_honest_stake[OF c c example_signed_qc_bounded example_signed_qc_bounded v v this(1,1,2,2,3) example_e2v example_set_inv] v
  show ?thesis by blast
qed

text \<open>C6. What the vote state forms, validation accepts: a quorum certificate completed by a vote passes the
  certificate check of every node that resolves the round to the same validators, whatever its cache.\<close>

theorem formed_qc_accepted:
  assumes "(ProcessVote cr author m validators mapping v :: (unit, _) go) = Ok (v', Some qc)" and "VoteState_inv v"
    and "stakes_inv validators" and "total_fits validators" and "wf_mapping mapping" and "bls_aggregation cr"
    and "length (vm_nodeIds mapping) \<le> MaxSignersLen" and "\<not> BlsSignature_IsInfinity (sc_RawSig (qc_Signatures qc))"
    and "v_Round (vm_Vote m) \<noteq> GENESIS_ROUND"
    and "e2v (v_Epoch (vm_Vote m)) (v_Round (vm_Vote m)) = Ok (Inr (validators, mapping, leader))"
  shows "\<exists>cache'. VerifyQC cr e2v qc cache = Ok (None, cache')"
proof (rule ProcessVote_Some[OF assms(1,2)])
  fix sc b' invalid'
  assume loop: "(certify_loop (Suc (length (vote_bucket author m v))) cr DomainVote
        (Vote_EncodeRLP [] (vm_Vote m)) validators mapping (vote_bucket author m v)
        (invalid_voters v (v_Round (vm_Vote m))) :: (unit, _) go) = Ok (Some sc, b', invalid')"
    and qc: "qc = \<lparr>qc_Info = vm_Vote m, qc_Signatures = sc\<rparr>"
  from certificate_verifies[OF loop vote_bucket_inv[OF assms(2)] assms(3-7)] assms(8) qc obtain signers where
    "sigcol_Verify cr sc DomainVote mapping (Vote_EncodeRLP [] (vm_Vote m)) = Ok signers" "HasSuperMajorityVotes validators signers = Ok True"
    by auto
  then show ?thesis using assms(9,10) unfolding qc
    by (simp add: VerifyQC_def accept_def and_then_def attempt_def check_stake_def qc_GetRound_def)
qed

lemma formed_qc_accepted_witness:
  "\<exists>v' qc c'. (ProcessVote example_crypto [3] example_vote example_set example_mapping example_votes :: (unit, _) go) = Ok (v', Some qc)
    \<and> (VerifyQC example_crypto example_e2v qc NewCertificateCache :: (unit, _) go) = Ok (None, c')"
proof -
  obtain v' qc where qc: "(ProcessVote example_crypto [3] example_vote example_set example_mapping example_votes :: (unit, _) go)
      = Ok (v', Some qc)" using example_qc_forms by blast
  have "\<not> BlsSignature_IsInfinity (sc_RawSig (qc_Signatures qc))" using example_qc_raw[OF qc] by (simp add: BlsSignature_IsInfinity_def
      example_sig_def BlsSignatureInfinity_def)
  moreover have "v_Round (vm_Vote example_vote) = 5" "v_Epoch (vm_Vote example_vote) = 1" by (simp_all add: example_vote_def)
  ultimately show ?thesis
    using formed_qc_accepted[OF qc example_votes_inv example_set_inv example_mapping_wf example_bls_aggregation, of
        "example_e2v :: unit EpochToValidators" "[1]" NewCertificateCache] qc example_e2v
    by (auto simp: example_mapping_fields MaxSignersLen_def GENESIS_ROUND_def)
qed

text \<open>C40. The certificate cache is a least-recently-used cache: after any sequence of insertions it holds exactly
  the most recently inserted distinct keys, at most its capacity of them.\<close>

theorem lru_holds_most_recent:
  "lru_contains (fold lru_put keys (newLRU cap)) key \<longleftrightarrow> key \<in> set (take cap (fold touch keys []))"
proof -
  note c = lru_puts[of keys cap, unfolded lru_inv_def]
  then have "lru_seen (fold lru_put keys (newLRU cap)) = set (lru_ll (fold lru_put keys (newLRU cap)))" by metis
  also have "\<dots> = set (take cap (fold touch keys []))" using c by metis
  finally show ?thesis by (simp only: lru_contains_def)
qed

end
