(* ===== verification/Spec2Isabelle.thy ===== *)
theory Spec2Isabelle
  imports Finality Certificates
begin

text \<open>
  A verification development for the Go implementation of the MonadBFT consensus protocol.

  \<^bold>\<open>The program.\<close> It is a replicated state machine. Nodes exchange RLP-encoded messages (\<open>rlp/\<close>,
  \<open>messages/\<close>) signed under separate domains (\<open>crypto/\<close>). An inbound message is validated against the
  validator sets of its epoch (\<open>validation/\<close>) and handed to the consensus state (\<open>consensusstate/\<close>).
  Proposals are added to a tree of uncommitted blocks (\<open>blocktree/\<close>) and voted on; a stake-weighted
  super-majority of votes (\<open>validator/\<close>) is aggregated into a quorum certificate (\<open>sigcol/\<close>,
  \<open>cstypes/\<close>); a certificate on a block whose parent is certified in the round before commits the parent.
  Rounds without a certificate end by a timeout certificate; the next leader proposes the highest tip again
  or proves with no-endorsements that it may be dropped. \<open>consensus/safety.go\<close> keeps the watermarks that stop
  a node from signing twice.

  \<^bold>\<open>How it is modelled.\<close> A Go function is a HOL function of the same name. A method that changes its receiver
  takes the receiver and returns it changed; structs are records, tagged unions are datatypes, integers are
  words of their width. An outcome is a value, an error, a panic with its message, or divergence. Maps that the
  code iterates over are association lists in iteration order, and results that must not depend on that order
  are proved not to. Loops are recursive functions with a termination proof; the searches of the block tree, whose
  termination needs the invariant of the tree, are partial functions or carry fuel one larger than the number of
  blocks, and are proved to return under that invariant. The retry loops of the vote state and the pacemaker carry
  fuel one larger than the number of pending entries, of which every retry removes one. Third-party libraries (BLS, secp256k1,
  BLAKE3, the execution engine) and the leader election used by the handlers are arguments.

  \<^bold>\<open>Theories.\<close>

  \<^item> \<open>Prelude\<close>: Go outcomes, association lists for maps that are iterated, big-endian numbers, binary search.
  \<^item> \<open>Types\<close>: \<open>types/\<close>, rounds, epochs, 256-bit stakes and \<open>U128\<close> with their arithmetic.
  \<^item> \<open>Rlp\<close>: \<open>rlp/rlp.go\<close>, the readers accept exactly the canonical encodings. \<open>Codec\<close>: the codec contracts as locales and
    the codecs of the domain types.
  \<^item> \<open>Validator\<close>, \<open>Epoch\<close>: \<open>validator/\<close>, stake thresholds as a quorum system and the epoch manager.
  \<^item> \<open>Election\<close>: \<open>validator/chacha.go\<close> and \<open>validator/election.go\<close>, election in proportion to stake.
  \<^item> \<open>Crypto\<close>, \<open>Exec\<close>: \<open>crypto/\<close> and \<open>exec/\<close> with the third-party libraries as parameters.
  \<^item> \<open>Sigcol\<close>: \<open>sigcol/\<close>. \<open>Cstypes\<close>, \<open>CstypesCodec\<close>: \<open>cstypes/\<close> and its round trips.
  \<^item> \<open>Messages\<close>: \<open>messages/\<close> and \<open>chaincfg/\<close>.
  \<^item> \<open>Safety\<close>: \<open>consensus/safety.go\<close>, with a ghost log of what was signed. \<open>Votes\<close>: \<open>consensus/vote_state.go\<close> and
    \<open>ne_state.go\<close>, soundness and liveness of certificates. \<open>Pacemakers\<close>: \<open>consensus/pacemaker.go\<close>.
  \<^item> \<open>Policy\<close>, \<open>Blocktree\<close>: \<open>blocktree/blocktree.go\<close>, the block policies and the tree of uncommitted
    blocks. \<open>Forest\<close>: the invariant of the tree, insertion and pruning. \<open>Coherency\<close>: termination of the
    searches, coherency updates, committable certificates, refinement of a pool of blocks.
  \<^item> \<open>Clock\<close>: \<open>consensusstate/timestamp.go\<close> and \<open>vote_delay.go\<close>.
  \<^item> \<open>ConsensusState\<close>: \<open>consensusstate/command.go\<close> and \<open>state.go\<close>. The record \<open>State\<close> is the Go struct; a handler maps
    it to the new state and the commands it returns; a list of handlers run one after the other stands for the
    Go code that appends their commands. The panic with \<open>NeedStatesync\<close>, which the caller recovers, is the error outcome.
  \<^item> \<open>Handlers\<close>: a contract between the states before and after a step and the commands between them. It is a
    locale; what it asks of the few steps that sign, commit or change the round it gives for every handler.
  \<^item> \<open>Node\<close>: events, runs of the node, and the contract that every signature is one of the safety log: a node
    never equivocates. \<open>Finality\<close>: two more contracts over all runs, the finalized blocks are one chain and rounds are entered in order.
  \<^item> \<open>Validation\<close>: \<open>validation/cache.go\<close> and \<open>signing.go\<close>. \<open>Certificates\<close>: the checks are exact, with reference predicates that know
    no cache; certificates that pass share honest stake; what the vote state forms passes.

  \<^bold>\<open>What the theorems assume.\<close> Runs start from the state \<open>NewConsensusState\<close> returns, or from any state with the stated
  invariant, and take arbitrary events: nothing is assumed of the network or of other nodes. The properties about
  signatures take the documented laws of the signature scheme as named hypotheses. Lengths of encodings are below
  \<open>2 ^ 62\<close>, where the length arithmetic of the decoder does not wrap.

  \<^bold>\<open>Not modelled.\<close> Input and output, goroutines and timers (\<open>node/\<close>, \<open>net/dataplane\<close>, \<open>store/\<close>, \<open>wal/\<close>, \<open>metrics/\<close>,
  \<open>cmd/\<close>); the broadcast and session layers (\<open>raptor/\<close>, \<open>net/raptorcast\<close>, \<open>net/wireauth\<close>, \<open>net/peerdisc\<close>), whose effect on
  consensus is which messages arrive, which is arbitrary here; the driver between consensus, block sync and state
  sync (\<open>monadstate/\<close>, \<open>blocksync/\<close>, \<open>glue/\<close>), whose calls of the handlers are the runs; the bridge to an external
  application (\<open>bridge/\<close>); test harnesses (\<open>swarm/\<close>, \<open>testutil/\<close>). Within the modelled files, metrics counters, log output and
  the strings of error values are left out.
\<close>

end
